(* ===== verification/Prelude.thy ===== *)
theory Prelude
  imports Main "HOL-Library.Word" "HOL-Library.Sublist"
begin

unbundle bit_operations_syntax

text \<open>
  The vocabulary shared by the component theories: machine types, the outcome of a call
  (return, exception, divergence, crash), address ranges, and the generic lemmas on words
  and lists that the component proofs use.
\<close>

section \<open>Machine types\<close>

text \<open>The library is built for 64-bit targets: \<open>size_t\<close>, \<open>uintptr_t\<close>, \<open>unsigned long\<close> and
  pointers are 64-bit words, \<open>int\<close> is a 32-bit word.\<close>

type_synonym u64 = "64 word"
type_synonym addr = "64 word"
type_synonym u32 = "32 word"

abbreviation (input) nullptr :: addr where
  "nullptr \<equiv> 0"

datatype platform = Linux | MacOS | Windows

text \<open>\<open>AllocationRecord\<close> (include/domovoy/memory.h): what the hooks hand to the leak detector.\<close>

record alloc_record =
  ar_address :: addr
  ar_size :: u64
  ar_marked :: bool

section \<open>Outcomes of a call\<close>

text \<open>
  A C++ call from a state returns a value, throws (\<open>std::bad_alloc\<close> or the exception of the JSON
  serialiser), never returns (a spin loop that nobody ends), or has undefined behaviour (a memory fault, a
  call through a null pointer, locking a mutex its thread already holds).
\<close>

datatype ('a, 's) outcome = Ret 'a 's | Throw 's | Hang | Undefined

fun obind :: "('a, 's) outcome \<Rightarrow> ('a \<Rightarrow> 's \<Rightarrow> ('b, 't) outcome) \<Rightarrow> ('s \<Rightarrow> 't) \<Rightarrow> ('b, 't) outcome" where
  "obind (Ret a s) f h = f a s"
| "obind (Throw s) f h = Throw (h s)"
| "obind Hang f h = Hang"
| "obind Undefined f h = Undefined"

abbreviation obnd :: "('a, 's) outcome \<Rightarrow> ('a \<Rightarrow> 's \<Rightarrow> ('b, 's) outcome) \<Rightarrow> ('b, 's) outcome" where
  "obnd m f \<equiv> obind m f (\<lambda>s. s)"

lemma obind_RetE:
  assumes "obind m f h = Ret b t"
  obtains a s where "m = Ret a s" "f a s = Ret b t"
  using assms by (cases m) auto

lemma obind_Ret_iff: "obind m f h = Ret b t \<longleftrightarrow> (\<exists>a s. m = Ret a s \<and> f a s = Ret b t)"
  by (cases m) auto

lemma obind_Throw_iff:
  "obind m f h = Throw t \<longleftrightarrow> (\<exists>s. m = Throw s \<and> t = h s) \<or> (\<exists>a s. m = Ret a s \<and> f a s = Throw t)"
  by (cases m) auto

section \<open>Address ranges\<close>

definition span :: "addr \<Rightarrow> u64 \<Rightarrow> nat set" where
  "span p n = {unat p ..< unat p + unat n}"

lemma span_iff [simp]: "x \<in> span p n \<longleftrightarrow> unat p \<le> x \<and> x < unat p + unat n"
  by (simp add: span_def)

lemma finite_span [simp]: "finite (span p n)"
  by (simp add: span_def)

definition apart :: "addr \<times> u64 \<Rightarrow> addr \<times> u64 \<Rightarrow> bool" where
  "apart r q \<longleftrightarrow>
     unat (fst r) + unat (snd r) \<le> unat (fst q) \<or> unat (fst q) + unat (snd q) \<le> unat (fst r)"

lemma apart_sym: "apart r q \<longleftrightarrow> apart q r"
  by (auto simp: apart_def)

lemma apart_disjoint: "apart (p, m) (q, n) \<Longrightarrow> span p m \<inter> span q n = {}"
  by (auto simp: apart_def)

section \<open>Word arithmetic without wrap-around\<close>

named_theorems no_wrap \<open>unsigned reading of word operations that do not wrap\<close>

lemma unat_add_nowrap [no_wrap]:
  fixes a b :: u64
  shows "unat a + unat b < 2 ^ 64 \<Longrightarrow> unat (a + b) = unat a + unat b"
  by (simp add: unat_word_ariths)

lemma unat_mult_nowrap [no_wrap]:
  fixes a b :: u64
  shows "unat a * unat b < 2 ^ 64 \<Longrightarrow> unat (a * b) = unat a * unat b"
  by (simp add: unat_word_ariths)

lemma unat_u64_less: "unat (w :: u64) < 2 ^ 64"
  using unsigned_less [of w] by simp

lemma unat_sub_nowrap [no_wrap]:
  fixes a b :: u64
  shows "unat b \<le> unat a \<Longrightarrow> unat (a - b) = unat a - unat b"
  by (simp add: unat_sub_if')

lemma unat_max_u64 [simp]: "unat (max a b :: u64) = max (unat a) (unat b)"
  by (simp add: max_def word_le_nat_alt)

text \<open>Rounding down to a multiple of a power of two, as the code does it with a mask.\<close>

lemma and_not_mask: "(w :: u64) AND NOT (mask k) = push_bit k (drop_bit k w)"
  by (rule bit_word_eqI) (auto simp: bit_simps)

lemma unat_and_not_mask: "unat ((w :: u64) AND NOT (mask k)) = unat w - unat w mod 2 ^ k"
proof -
  have "push_bit k (drop_bit k w) + take_bit k w = w"
    by (rule bits_ident)
  then have "push_bit k (drop_bit k w) = w - take_bit k w"
    by (simp add: algebra_simps)
  moreover have "unat (take_bit k w) = unat w mod 2 ^ k"
    by (metis unsigned_take_bit_eq take_bit_eq_mod)
  moreover have "unat w mod 2 ^ k \<le> unat w"
    by simp
  ultimately show ?thesis
    by (metis and_not_mask unat_sub_nowrap)
qed

end
