(* ===== verification/Arena.thy ===== *)
theory Arena
  imports Prelude
begin

text \<open>
  The contract of a memory arena: what the clients of \<open>IsolatedAllocator::Allocate\<close> rely on.
  An arena has an invariant, the set of byte addresses it has handed out so far, the requests
  it is specified for, and an allocation call. The locale \<open>arena\<close> proves once, for
  any provider, that a whole run of requests yields pairwise disjoint blocks; the provider is
  \<open>Allocator\<close>.
\<close>

text \<open>A run of requests (size, alignment); a request that throws yields no block.\<close>

fun arena_run :: "(u64 \<Rightarrow> u64 \<Rightarrow> 's \<Rightarrow> (addr, 's) outcome) \<Rightarrow> (u64 \<times> u64) list \<Rightarrow> 's \<Rightarrow>
    ((addr \<times> u64) list, 's) outcome" where
  "arena_run alloc [] s = Ret [] s"
| "arena_run alloc ((n, a) # reqs) s =
     (case alloc n a s of
        Ret p t \<Rightarrow> obnd (arena_run alloc reqs t) (\<lambda>rs u. Ret ((p, n) # rs) u)
      | Throw t \<Rightarrow> arena_run alloc reqs t
      | Hang \<Rightarrow> Hang
      | Undefined \<Rightarrow> Undefined)"

definition disjoint_blocks :: "(addr \<times> u64) list \<Rightarrow> bool" where
  "disjoint_blocks rs = sorted_wrt (\<lambda>(p, m) (q, n). span p m \<inter> span q n = {}) rs"

locale arena =
  fixes inv :: "'s \<Rightarrow> bool"
    and used :: "'s \<Rightarrow> nat set"
    and good :: "u64 \<Rightarrow> u64 \<Rightarrow> bool"
    and alloc :: "u64 \<Rightarrow> u64 \<Rightarrow> 's \<Rightarrow> (addr, 's) outcome"
  assumes alloc_inv: "\<lbrakk>inv s; good n a; alloc n a s = Ret p t\<rbrakk> \<Longrightarrow> inv t"
    and alloc_used: "\<lbrakk>inv s; good n a; alloc n a s = Ret p t\<rbrakk> \<Longrightarrow> used s \<subseteq> used t"
    and alloc_fresh: "\<lbrakk>inv s; good n a; alloc n a s = Ret p t\<rbrakk> \<Longrightarrow> span p n \<subseteq> used t - used s"
    and alloc_aligned: "\<lbrakk>inv s; good n a; alloc n a s = Ret p t\<rbrakk> \<Longrightarrow> unat p mod unat a = 0"
    and alloc_nonnull: "\<lbrakk>inv s; good n a; alloc n a s = Ret p t\<rbrakk> \<Longrightarrow> p \<noteq> nullptr"
    and throw_inv: "\<lbrakk>inv s; good n a; alloc n a s = Throw t\<rbrakk> \<Longrightarrow> inv t \<and> used t = used s"
    and alloc_total: "\<lbrakk>inv s; good n a\<rbrakk> \<Longrightarrow> alloc n a s \<noteq> Hang \<and> alloc n a s \<noteq> Undefined"
begin

lemma run_inv:
  assumes "inv s" "\<forall>(n, a) \<in> set reqs. good n a" "arena_run alloc reqs s = Ret rs t"
  shows "inv t \<and> used s \<subseteq> used t"
  using assms
proof (induction reqs arbitrary: s rs)
  case (Cons r reqs)
  obtain n a where r: "r = (n, a)" by (cases r)
  with Cons.prems have good: "good n a" and rest: "\<forall>(n, a) \<in> set reqs. good n a" by auto
  show ?case
  proof (cases "alloc n a s")
    case (Ret p u)
    with Cons.prems r obtain rs' where "arena_run alloc reqs u = Ret rs' t"
      by (auto simp: obind_Ret_iff)
    with Cons.IH [OF alloc_inv [OF Cons.prems(1) good Ret] rest]
      alloc_used [OF Cons.prems(1) good Ret]
    show ?thesis by blast
  next
    case (Throw u)
    with Cons.prems r throw_inv [OF Cons.prems(1) good Throw] Cons.IH [OF _ rest, of u rs]
    show ?thesis by simp
  qed (use Cons.prems r in auto)
qed simp

lemma run_blocks_fresh:
  assumes "inv s" "\<forall>(n, a) \<in> set reqs. good n a" "arena_run alloc reqs s = Ret rs t" "(p, n) \<in> set rs"
  shows "span p n \<subseteq> used t - used s"
  using assms
proof (induction reqs arbitrary: s rs)
  case (Cons r reqs)
  obtain m a where r: "r = (m, a)" by (cases r)
  with Cons.prems have good: "good m a" and rest: "\<forall>(n, a) \<in> set reqs. good n a" by auto
  show ?case
  proof (cases "alloc m a s")
    case (Ret q u)
    with Cons.prems r obtain rs' where run: "arena_run alloc reqs u = Ret rs' t"
      and rs: "rs = (q, m) # rs'"
      by (auto simp: obind_Ret_iff)
    note u = alloc_inv [OF Cons.prems(1) good Ret] alloc_used [OF Cons.prems(1) good Ret]
      alloc_fresh [OF Cons.prems(1) good Ret]
    have "used u \<subseteq> used t" using run_inv [OF u(1) rest run] by blast
    with u Cons.IH [OF u(1) rest run] Cons.prems(4) rs show ?thesis by auto
  next
    case (Throw u)
    with Cons.prems r throw_inv [OF Cons.prems(1) good Throw] Cons.IH [OF _ rest, of u rs]
    show ?thesis by simp
  qed (use Cons.prems r in auto)
qed simp

lemma run_disjoint:
  assumes "inv s" "\<forall>(n, a) \<in> set reqs. good n a" "arena_run alloc reqs s = Ret rs t"
  shows "disjoint_blocks rs"
  using assms
proof (induction reqs arbitrary: s rs)
  case Nil
  then show ?case by (simp add: disjoint_blocks_def)
next
  case (Cons r reqs)
  obtain m a where r: "r = (m, a)" by (cases r)
  with Cons.prems have good: "good m a" and rest: "\<forall>(n, a) \<in> set reqs. good n a" by auto
  show ?case
  proof (cases "alloc m a s")
    case (Ret q u)
    with Cons.prems r obtain rs' where run: "arena_run alloc reqs u = Ret rs' t"
      and rs: "rs = (q, m) # rs'"
      by (auto simp: obind_Ret_iff)
    note u = alloc_inv [OF Cons.prems(1) good Ret]
    have "span q m \<inter> span p n = {}" if "(p, n) \<in> set rs'" for p n
      using run_blocks_fresh [OF u rest run that] alloc_fresh [OF Cons.prems(1) good Ret] by blast
    with Cons.IH [OF u rest run] rs show ?thesis
      by (auto simp: disjoint_blocks_def)
  next
    case (Throw u)
    with Cons.prems r throw_inv [OF Cons.prems(1) good Throw] Cons.IH [OF _ rest, of u rs]
    show ?thesis by simp
  qed (use Cons.prems r in auto)
qed

lemma run_total:
  assumes "inv s" "\<forall>(n, a) \<in> set reqs. good n a"
  shows "\<exists>rs t. arena_run alloc reqs s = Ret rs t"
  using assms
proof (induction reqs arbitrary: s)
  case (Cons r reqs)
  obtain m a where r: "r = (m, a)" by (cases r)
  with Cons.prems have good: "good m a" and rest: "\<forall>(n, a) \<in> set reqs. good n a" by auto
  show ?case
  proof (cases "alloc m a s")
    case (Ret q u)
    with Cons.IH [OF alloc_inv [OF Cons.prems(1) good Ret] rest] r show ?thesis by auto
  next
    case (Throw u)
    with Cons.IH [OF conjunct1 [OF throw_inv [OF Cons.prems(1) good Throw]] rest] r
    show ?thesis by auto
  qed (use alloc_total [OF Cons.prems(1) good] in auto)
qed simp

end

end
