(* ===== verification/Arena_Threads.thy ===== *)
theory Arena_Threads
  imports Arena
begin

text \<open>
  An arena behind a mutex, used by threads (\<open>std::lock_guard\<close> in src/allocator.cpp). A call waits for the
  mutex, then runs the body of the allocation one small step at a time: \<open>micro n a p s\<close> is the step
  from the program point \<open>p\<close> to the next point or to the returned address. Between any two of these steps the
  other threads run, and any thread may crash.

  The crash handler is code of the crashed thread and allocates from the same arena. A thread that crashes
  while it waits, or outside a call, goes on in its handler with further requests. One that crashes
  inside (\<open>at_crashed\<close>) never unlocks; when its handler asks for a block it locks a mutex that
  it holds, which C++ leaves undefined: \<open>A_Undefined\<close>, where its steps end.
\<close>

section \<open>Threads and steps\<close>

datatype 'p arena_pc = A_Idle | A_Wait u64 u64 | A_Inside u64 u64 'p | A_Leave | A_Undefined

record ('s, 'p) arena_threads =
  at_state :: 's
  at_holder :: "nat option"
  at_pcs :: "nat \<Rightarrow> 'p arena_pc"
  at_granted :: "(addr \<times> u64) list"
  at_crashed :: "nat set"

type_synonym ('s, 'p) micro_step = "u64 \<Rightarrow> u64 \<Rightarrow> 'p \<Rightarrow> 's \<Rightarrow> ('p + addr, 's) outcome"

definition at_goto :: "nat \<Rightarrow> 'p arena_pc \<Rightarrow> ('s, 'p) arena_threads \<Rightarrow> ('s, 'p) arena_threads" where
  "at_goto i pc s = s\<lparr>at_pcs := (at_pcs s)(i := pc)\<rparr>"

fun holds_mutex :: "'p arena_pc \<Rightarrow> bool" where
  "holds_mutex (A_Inside n a p) = True"
| "holds_mutex A_Leave = True"
| "holds_mutex pc = False"

inductive arena_step ::
  "(u64 \<Rightarrow> u64 \<Rightarrow> bool) \<Rightarrow> 'p \<Rightarrow> ('s, 'p) micro_step \<Rightarrow> nat \<Rightarrow>
   ('s, 'p) arena_threads \<Rightarrow> ('s, 'p) arena_threads \<Rightarrow> bool"
  for good :: "u64 \<Rightarrow> u64 \<Rightarrow> bool" and entry :: 'p and micro :: "('s, 'p) micro_step" where
  request: "\<lbrakk>at_pcs s i = A_Idle; good n a\<rbrakk> \<Longrightarrow> arena_step good entry micro i s (at_goto i (A_Wait n a) s)"
| lock: "\<lbrakk>at_pcs s i = A_Wait n a; at_holder s = None\<rbrakk> \<Longrightarrow>
    arena_step good entry micro i s (at_goto i (A_Inside n a entry) (s\<lparr>at_holder := Some i\<rparr>))"
| relock: "\<lbrakk>at_pcs s i = A_Wait n a; at_holder s = Some i\<rbrakk> \<Longrightarrow>
    arena_step good entry micro i s (at_goto i A_Undefined s)"
| advance: "\<lbrakk>at_pcs s i = A_Inside n a p; micro n a p (at_state s) = Ret (Inl p') t\<rbrakk> \<Longrightarrow>
    arena_step good entry micro i s (at_goto i (A_Inside n a p') (s\<lparr>at_state := t\<rparr>))"
| grant: "\<lbrakk>at_pcs s i = A_Inside n a p; micro n a p (at_state s) = Ret (Inr q) t\<rbrakk> \<Longrightarrow>
    arena_step good entry micro i s (at_goto i A_Leave (s\<lparr>at_state := t, at_granted := (q, n) # at_granted s\<rparr>))"
| throw: "\<lbrakk>at_pcs s i = A_Inside n a p; micro n a p (at_state s) = Throw t\<rbrakk> \<Longrightarrow>
    arena_step good entry micro i s (at_goto i A_Leave (s\<lparr>at_state := t\<rparr>))"
| unlock: "at_pcs s i = A_Leave \<Longrightarrow>
    arena_step good entry micro i s (at_goto i A_Idle (s\<lparr>at_holder := None\<rparr>))"
| crash_waiting: "at_pcs s i = A_Wait n a \<Longrightarrow> arena_step good entry micro i s (at_goto i A_Idle s)"
| crash_inside: "holds_mutex (at_pcs s i) \<Longrightarrow>
    arena_step good entry micro i s (at_goto i A_Idle (s\<lparr>at_crashed := insert i (at_crashed s)\<rparr>))"

inductive_cases arena_stepE: "arena_step good entry micro i s t"

definition arena_start :: "'s \<Rightarrow> ('s, 'p) arena_threads" where
  "arena_start s0 =
     \<lparr>at_state = s0, at_holder = None, at_pcs = (\<lambda>_. A_Idle), at_granted = [], at_crashed = {}\<rparr>"

inductive arena_reach ::
  "(u64 \<Rightarrow> u64 \<Rightarrow> bool) \<Rightarrow> 'p \<Rightarrow> ('s, 'p) micro_step \<Rightarrow> ('s, 'p) arena_threads \<Rightarrow> ('s, 'p) arena_threads \<Rightarrow> bool"
  for good :: "u64 \<Rightarrow> u64 \<Rightarrow> bool" and entry :: 'p and micro :: "('s, 'p) micro_step" and s0 :: "('s, 'p) arena_threads" where
  start: "arena_reach good entry micro s0 s0"
| step: "\<lbrakk>arena_reach good entry micro s0 s; arena_step good entry micro i s t\<rbrakk> \<Longrightarrow> arena_reach good entry micro s0 t"

lemma arena_reach_trans:
  assumes "arena_reach good entry micro t u" "arena_reach good entry micro s t"
  shows "arena_reach good entry micro s u"
  using assms by (induction rule: arena_reach.induct) (auto intro: arena_reach.step)

lemma at_goto_fields [simp]:
  "at_state (at_goto i pc s) = at_state s" "at_holder (at_goto i pc s) = at_holder s"
  "at_granted (at_goto i pc s) = at_granted s" "at_crashed (at_goto i pc s) = at_crashed s"
  "at_pcs (at_goto i pc s) j = (if j = i then pc else at_pcs s j)"
  by (simp_all add: at_goto_def)

section \<open>The mutex\<close>

text \<open>The holder is the thread past the lock, or the one that crashed there; only that one ever locks
  the mutex again.\<close>

definition mutex_ok :: "('s, 'p) arena_threads \<Rightarrow> bool" where
  "mutex_ok s \<longleftrightarrow>
     (\<forall>i. at_holder s = Some i \<longleftrightarrow> holds_mutex (at_pcs s i) \<or> i \<in> at_crashed s) \<and>
     (\<forall>i \<in> at_crashed s. \<not> holds_mutex (at_pcs s i)) \<and>
     (\<forall>i. at_pcs s i = A_Undefined \<longrightarrow> i \<in> at_crashed s)"

lemma mutex_okD:
  assumes "mutex_ok s"
  shows "at_holder s = Some i \<longleftrightarrow> holds_mutex (at_pcs s i) \<or> i \<in> at_crashed s"
    and "i \<in> at_crashed s \<Longrightarrow> \<not> holds_mutex (at_pcs s i)"
    and "at_pcs s i = A_Undefined \<Longrightarrow> i \<in> at_crashed s"
  using assms by (simp_all add: mutex_ok_def)

lemma mutex_ok_step:
  assumes "arena_step good entry micro i s t" "mutex_ok s"
  shows "mutex_ok t"
proof -
  have h: "holds_mutex (at_pcs s j) \<or> j \<in> at_crashed s \<longleftrightarrow> at_holder s = Some j" for j
    using mutex_okD(1) [OF assms(2)] by simp
  have i: "at_holder s = Some i \<and> i \<notin> at_crashed s \<and> (\<forall>j. j \<noteq> i \<longrightarrow> \<not> holds_mutex (at_pcs s j)) \<and> at_crashed s = {}"
    if "holds_mutex (at_pcs s i)"
  proof -
    have hold: "at_holder s = Some i" using that h by blast
    moreover have n: "i \<notin> at_crashed s" using that mutex_okD(2) [OF assms(2)] by blast
    moreover have "j = i" if "holds_mutex (at_pcs s j) \<or> j \<in> at_crashed s" for j
      using that hold h [of j] by simp
    ultimately show ?thesis by blast
  qed
  from assms(1) show ?thesis
  proof (cases rule: arena_step.cases)
    case (lock n a)
    with h have "\<not> holds_mutex (at_pcs s j) \<and> j \<notin> at_crashed s" for j by (metis option.distinct(1))
    with lock assms(2) show ?thesis by (auto simp: mutex_ok_def)
  next
    case (relock n a)
    then have "i \<in> at_crashed s" using h [of i] by simp
    with relock assms(2) show ?thesis by (auto simp: mutex_ok_def)
  next
    case (advance n a p p' u)
    with i assms(2) show ?thesis by (auto simp: mutex_ok_def)
  next
    case (grant n a p q u)
    with i assms(2) show ?thesis by (auto simp: mutex_ok_def)
  next
    case (throw n a p u)
    with i assms(2) show ?thesis by (auto simp: mutex_ok_def)
  next
    case unlock
    with i assms(2) show ?thesis by (auto simp: mutex_ok_def)
  next
    case crash_inside
    with i assms(2) show ?thesis by (auto simp: mutex_ok_def)
  qed (use assms(2) in \<open>auto simp: mutex_ok_def\<close>)
qed

lemma mutex_ok_reach: "arena_reach good entry micro s0 s \<Longrightarrow> mutex_ok s0 \<Longrightarrow> mutex_ok s"
  by (induction rule: arena_reach.induct) (auto dest: mutex_ok_step)

lemma mutex_ok_start: "mutex_ok (arena_start s0)"
  by (simp add: mutex_ok_def arena_start_def)

lemma only_inside:
  assumes "mutex_ok s" "holds_mutex (at_pcs s i)"
  shows "at_crashed s = {}" and "holds_mutex (at_pcs s j) \<Longrightarrow> j = i"
proof -
  have h: "at_holder s = Some i" using mutex_okD(1) [OF assms(1)] assms(2) by blast
  then have "j = i" if "j \<in> at_crashed s" for j using mutex_okD(1) [OF assms(1), of j] that by simp
  then show "at_crashed s = {}" using mutex_okD(2) [OF assms(1)] assms(2) by blast
  show "holds_mutex (at_pcs s j) \<Longrightarrow> j = i" using mutex_okD(1) [OF assms(1), of j] h by simp
qed

text \<open>A thread that crashed holding the mutex keeps it: nobody is granted a block any more.\<close>

lemma crashed_step:
  assumes "arena_step good entry micro j s t" "mutex_ok s" "i \<in> at_crashed s"
  shows "i \<in> at_crashed t \<and> at_granted t = at_granted s"
proof -
  have "\<not> holds_mutex (at_pcs s j)" using only_inside(1) [OF assms(2), of j] assms(3) by blast
  with assms(1,3) show ?thesis by (auto elim!: arena_stepE)
qed

lemma crashed_reach:
  assumes "arena_reach good entry micro s t" "mutex_ok s" "i \<in> at_crashed s"
  shows "i \<in> at_crashed t \<and> at_granted t = at_granted s"
  using assms(1)
proof (induction rule: arena_reach.induct)
  case start
  show ?case using assms(3) by simp
next
  case (step u j t)
  from crashed_step [OF step.hyps(2) mutex_ok_reach [OF step.hyps(1) assms(2)], of i] step.IH show ?case by simp
qed

section \<open>The mutex makes the small steps one allocation\<close>

text \<open>\<open>rest n a p s\<close> is what is left of a call at the point \<open>p\<close>; \<open>left\<close> bounds the number of its
  steps. Its two laws say that the small steps are the allocation.\<close>

locale stepped_arena = arena inv used good alloc
  for inv :: "'s \<Rightarrow> bool" and used :: "'s \<Rightarrow> nat set" and good :: "u64 \<Rightarrow> u64 \<Rightarrow> bool"
    and alloc :: "u64 \<Rightarrow> u64 \<Rightarrow> 's \<Rightarrow> (addr, 's) outcome" +
  fixes entry :: 'p
    and micro :: "('s, 'p) micro_step"
    and rest :: "u64 \<Rightarrow> u64 \<Rightarrow> 'p \<Rightarrow> 's \<Rightarrow> (addr, 's) outcome"
    and left :: "'p \<Rightarrow> 's \<Rightarrow> nat"
  assumes rest_entry: "rest n a entry s = alloc n a s"
    and rest_micro: "rest n a p s =
      obnd (micro n a p s) (\<lambda>r t. case r of Inl p' \<Rightarrow> rest n a p' t | Inr q \<Rightarrow> Ret q t)"
    and left_micro: "micro n a p s = Ret (Inl p') t \<Longrightarrow> left p' t < left p s"
begin

text \<open>\<open>u\<close> is the arena as of the last unlocking: the call in progress is about to do to it what
  \<open>alloc\<close> does, whatever the other threads have done meanwhile.\<close>

definition serial_at :: "'s \<Rightarrow> 's \<Rightarrow> ('s, 'p) arena_threads \<Rightarrow> bool" where
  "serial_at s0 u s \<longleftrightarrow> inv u \<and> used s0 \<subseteq> used u \<and> disjoint_blocks (at_granted s) \<and>
     (\<forall>(p, n) \<in> set (at_granted s). span p n \<subseteq> used u - used s0 \<and> p \<noteq> nullptr) \<and>
     (\<forall>i n a. at_pcs s i = A_Wait n a \<longrightarrow> good n a) \<and>
     (\<forall>i n a p. at_pcs s i = A_Inside n a p \<longrightarrow> good n a \<and> rest n a p (at_state s) = alloc n a u) \<and>
     (at_crashed s = {} \<longrightarrow> (\<forall>i n a p. at_pcs s i \<noteq> A_Inside n a p) \<longrightarrow> at_state s = u)"

definition granted_ok :: "'s \<Rightarrow> ('s, 'p) arena_threads \<Rightarrow> bool" where
  "granted_ok s0 s \<longleftrightarrow> (\<exists>u. serial_at s0 u s)"

lemma inside_step:
  assumes "serial_at s0 u s" "at_pcs s i = A_Inside n a p"
  shows "inv u" "good n a" "alloc n a u =
    obnd (micro n a p (at_state s)) (\<lambda>r t. case r of Inl p' \<Rightarrow> rest n a p' t | Inr q \<Rightarrow> Ret q t)"
  using assms rest_micro [of n a p "at_state s"] by (auto simp: serial_at_def)

lemma granted_ok_grant:
  assumes s: "serial_at s0 u s" and g: "good n a" and a: "alloc n a u = Ret q t"
    and out: "\<And>j m b p. j \<noteq> i \<Longrightarrow> at_pcs s j \<noteq> A_Inside m b p"
  shows "serial_at s0 t (at_goto i A_Leave (s\<lparr>at_state := t, at_granted := (q, n) # at_granted s\<rparr>))"
proof -
  have u: "inv u" using s by (simp add: serial_at_def)
  note A = alloc_inv [OF u g a] alloc_used [OF u g a] alloc_fresh [OF u g a] alloc_nonnull [OF u g a]
  have "span q n \<inter> span r m = {}" if "(r, m) \<in> set (at_granted s)" for r m
    using that A(3) s by (fastforce simp: serial_at_def simp del: span_iff)
  with A s out show ?thesis
    by (auto simp: serial_at_def disjoint_blocks_def simp del: span_iff) blast+
qed

lemma serial_at_outside:
  assumes "serial_at s0 u s" "\<And>n a p. at_pcs s i \<noteq> A_Inside n a p" "\<And>n a p. pc \<noteq> A_Inside n a p"
    and "\<And>n a. pc = A_Wait n a \<Longrightarrow> good n a"
  shows "serial_at s0 u (at_goto i pc (s\<lparr>at_holder := h\<rparr>))"
proof -
  have "(\<forall>j n a p. at_pcs s j \<noteq> A_Inside n a p) \<longleftrightarrow>
      (\<forall>j n a p. at_pcs (at_goto i pc (s\<lparr>at_holder := h\<rparr>)) j \<noteq> A_Inside n a p)"
    using assms(2,3) by simp metis
  with assms(1,3,4) show ?thesis unfolding serial_at_def by simp
qed

lemma serial_at_goto:
  assumes "serial_at s0 u s" "\<And>n a p. at_pcs s i \<noteq> A_Inside n a p" "\<And>n a p. pc \<noteq> A_Inside n a p"
    and "\<And>n a. pc = A_Wait n a \<Longrightarrow> good n a"
  shows "serial_at s0 u (at_goto i pc s)"
  using serial_at_outside [OF assms, of "at_holder s"] by simp

lemma serial_at_crashed:
  assumes "serial_at s0 u s"
  shows "serial_at s0 u (at_goto i A_Idle (s\<lparr>at_crashed := insert i (at_crashed s)\<rparr>))"
  using assms by (simp add: serial_at_def)

lemma granted_ok_step:
  assumes "arena_step good entry micro i s t" "granted_ok s0 s" "mutex_ok s"
  shows "granted_ok s0 t"
proof -
  obtain u where u: "serial_at s0 u s" using assms(2) by (auto simp: granted_ok_def)
  have out: "at_pcs s j \<noteq> A_Inside m b p" if "holds_mutex (at_pcs s i)" "j \<noteq> i" for j m b p
    using only_inside(2) [OF assms(3) that(1), of j] that(2) by auto
  from assms(1) show ?thesis
  proof (cases rule: arena_step.cases)
    case (lock n a)
    have none: "\<not> holds_mutex (at_pcs s j) \<and> j \<notin> at_crashed s" for j
      using mutex_okD(1) [OF assms(3), of j] lock(3) by simp
    then have "at_pcs s j \<noteq> A_Inside m b p" for j m b p by (metis holds_mutex.simps(1))
    with none u have "at_state s = u" by (auto simp: serial_at_def)
    with u lock rest_entry \<open>\<And>j m b p. at_pcs s j \<noteq> A_Inside m b p\<close> have "serial_at s0 u t"
      by (auto simp: serial_at_def)
    then show ?thesis by (auto simp: granted_ok_def)
  next
    case (advance n a p p' w)
    have "serial_at s0 u t"
      using u inside_step [OF u advance(2)] out advance by (auto simp: serial_at_def)
    then show ?thesis by (auto simp: granted_ok_def)
  next
    case (grant n a p q w)
    have "alloc n a u = Ret q w" using inside_step(3) [OF u grant(2)] grant(3) by simp
    from granted_ok_grant [OF u inside_step(2) [OF u grant(2)] this, of i] out grant show ?thesis
      by (auto simp: granted_ok_def)
  next
    case (throw n a p w)
    have w: "alloc n a u = Throw w" using inside_step(3) [OF u throw(2)] throw(3) by simp
    from throw_inv [OF inside_step(1,2) [OF u throw(2)] w] u out throw have "serial_at s0 w t"
      by (auto simp: serial_at_def)
    then show ?thesis by (auto simp: granted_ok_def)
  next
    case (request n a)
    have "serial_at s0 u (at_goto i (A_Wait n a) s)"
      by (rule serial_at_goto [OF u]) (simp_all add: request)
    with request(1) show ?thesis by (auto simp: granted_ok_def)
  next
    case (relock n a)
    have "serial_at s0 u (at_goto i A_Undefined s)"
      by (rule serial_at_goto [OF u]) (simp_all add: relock)
    with relock(1) show ?thesis by (auto simp: granted_ok_def)
  next
    case unlock
    then have "serial_at s0 u t" by (auto intro: serial_at_outside [OF u])
    then show ?thesis by (auto simp: granted_ok_def)
  next
    case (crash_waiting n a)
    have "serial_at s0 u (at_goto i A_Idle s)"
      by (rule serial_at_goto [OF u]) (simp_all add: crash_waiting)
    with crash_waiting(1) show ?thesis by (auto simp: granted_ok_def)
  next
    case crash_inside
    with serial_at_crashed [OF u, of i] show ?thesis by (auto simp: granted_ok_def)
  qed
qed

lemma granted_ok_reach:
  assumes "arena_reach good entry micro (arena_start s0) s" "inv s0"
  shows "granted_ok s0 s"
  using assms(1)
proof (induction rule: arena_reach.induct)
  case start
  have "serial_at s0 s0 (arena_start s0)"
    using assms(2) by (simp add: serial_at_def arena_start_def disjoint_blocks_def)
  then show ?case by (auto simp: granted_ok_def)
next
  case (step s i t)
  then show ?case using granted_ok_step mutex_ok_reach [OF step.hyps(1) mutex_ok_start] by blast
qed

section \<open>Calls complete\<close>

text \<open>A thread inside returns by its own steps.\<close>

lemma inside_completes:
  assumes "granted_ok s0 s" "mutex_ok s" "at_pcs s i = A_Inside n a p"
  shows "\<exists>t. arena_reach good entry micro s t \<and> at_pcs t i = A_Leave \<and> at_crashed t = at_crashed s \<and>
    (\<forall>j. j \<noteq> i \<longrightarrow> at_pcs t j = at_pcs s j)"
  using assms
proof (induction "left p (at_state s)" arbitrary: s p rule: less_induct)
  case less
  obtain u where u: "serial_at s0 u s" using less.prems(1) by (auto simp: granted_ok_def)
  note I = inside_step [OF u less.prems(3)]
  have defined: "micro n a p (at_state s) \<noteq> Hang" "micro n a p (at_state s) \<noteq> Undefined"
    using alloc_total [OF I(1,2)] I(3) by auto
  have one: "arena_reach good entry micro s t" if "arena_step good entry micro i s t" for t
    using arena_reach.start that by (rule arena_reach.step)
  show ?case
  proof (cases "micro n a p (at_state s)")
    case (Ret r w)
    show ?thesis
    proof (cases r)
      case (Inl p')
      let ?t = "at_goto i (A_Inside n a p') (s\<lparr>at_state := w\<rparr>)"
      have st: "arena_step good entry micro i s ?t"
        using arena_step.advance [OF less.prems(3)] Ret Inl by simp
      obtain t where t: "arena_reach good entry micro ?t t" "at_pcs t i = A_Leave" "at_crashed t = at_crashed ?t"
        "\<forall>j. j \<noteq> i \<longrightarrow> at_pcs t j = at_pcs ?t j"
        using less.hyps [of p' ?t] left_micro [of n a p "at_state s" p' w] Ret Inl
          granted_ok_step [OF st less.prems(1,2)] mutex_ok_step [OF st less.prems(2)] by auto
      with arena_reach_trans [OF t(1) one [OF st]] show ?thesis by (intro exI [of _ t]) simp
    next
      case (Inr q)
      with Ret have m: "micro n a p (at_state s) = Ret (Inr q) w" by simp
      have "arena_step good entry micro i s
          (at_goto i A_Leave (s\<lparr>at_state := w, at_granted := (q, n) # at_granted s\<rparr>))"
        using less.prems(3) m by (rule arena_step.grant)
      from one [OF this] show ?thesis by (intro exI conjI, assumption) simp_all
    qed
  next
    case (Throw w)
    have "arena_step good entry micro i s (at_goto i A_Leave (s\<lparr>at_state := w\<rparr>))"
      using less.prems(3) Throw by (rule arena_step.throw)
    from one [OF this] show ?thesis by (intro exI conjI, assumption) simp_all
  qed (use defined in simp_all)
qed

text \<open>While no thread has crashed inside, every call can be run to its end: the holder leaves, then
  the caller enters and leaves.\<close>

lemma leave_completes:
  assumes "granted_ok s0 s" "mutex_ok s" "holds_mutex (at_pcs s i)"
  shows "\<exists>t. arena_reach good entry micro s t \<and> at_pcs t i = A_Idle \<and> at_holder t = None \<and>
    at_crashed t = at_crashed s \<and> (\<forall>j. j \<noteq> i \<longrightarrow> at_pcs t j = at_pcs s j)"
proof -
  obtain t where t: "arena_reach good entry micro s t" "at_pcs t i = A_Leave" "at_crashed t = at_crashed s"
    "\<forall>j. j \<noteq> i \<longrightarrow> at_pcs t j = at_pcs s j"
  proof (cases "at_pcs s i")
    case (A_Inside n a p)
    from inside_completes [OF assms(1,2) this] that show ?thesis by blast
  next
    case A_Leave
    with that [OF arena_reach.start] show ?thesis by simp
  qed (use assms(3) in simp_all)
  show ?thesis
    by (intro exI conjI, rule arena_reach.step [OF t(1) arena_step.unlock [OF t(2)]]) (use t(3,4) in simp_all)
qed

lemma granted_ok_reach_from:
  assumes "arena_reach good entry micro s t" "granted_ok s0 s" "mutex_ok s"
  shows "granted_ok s0 t \<and> mutex_ok t"
  using assms(1)
proof (induction rule: arena_reach.induct)
  case start
  show ?case using assms(2,3) by simp
next
  case (step u i t)
  then have "granted_ok s0 u" "mutex_ok u" by simp_all
  from granted_ok_step [OF step.hyps(2) this] mutex_ok_step [OF step.hyps(2) this(2)] show ?case by simp
qed

lemma calls_complete:
  assumes ok: "granted_ok s0 s" "mutex_ok s" and none: "at_crashed s = {}"
  shows "\<exists>t. arena_reach good entry micro s t \<and> at_pcs t i = A_Idle \<and> at_crashed t = {}"
proof -
  have wait: "\<exists>t. arena_reach good entry micro s t \<and> at_pcs t i = A_Idle \<and> at_crashed t = {}"
    if "granted_ok s0 s" "mutex_ok s" "at_crashed s = {}" "at_holder s = None" "at_pcs s i = A_Wait n a" for s n a
  proof -
    let ?t = "at_goto i (A_Inside n a entry) (s\<lparr>at_holder := Some i\<rparr>)"
    have st: "arena_step good entry micro i s ?t" using that(4,5) by (intro arena_step.lock)
    have "holds_mutex (at_pcs ?t i)" by simp
    from leave_completes [OF granted_ok_step [OF st that(1,2)] mutex_ok_step [OF st that(2)] this]
    obtain t where t: "arena_reach good entry micro ?t t" "at_pcs t i = A_Idle" "at_crashed t = at_crashed ?t" by blast
    have "arena_reach good entry micro s t"
      by (rule arena_reach_trans [OF t(1) arena_reach.step [OF arena_reach.start st]])
    with t that(3) show ?thesis by auto
  qed
  show ?thesis
  proof (cases "at_holder s")
    case None
    with mutex_okD(1,3) [OF ok(2), of i] none have "\<not> holds_mutex (at_pcs s i)" "at_pcs s i \<noteq> A_Undefined" by auto
    then consider "at_pcs s i = A_Idle" | n a where "at_pcs s i = A_Wait n a"
      by (cases "at_pcs s i") auto
    then show ?thesis using wait [OF ok none None] none arena_reach.start [of good entry micro s] by cases blast+
  next
    case (Some h)
    then have "holds_mutex (at_pcs s h)" using mutex_okD(1) [OF ok(2), of h] none by simp
    from leave_completes [OF ok this] obtain t where
      t: "arena_reach good entry micro s t" "at_pcs t h = A_Idle" "at_holder t = None" "at_crashed t = {}"
      "\<forall>j. j \<noteq> h \<longrightarrow> at_pcs t j = at_pcs s j" using none by auto
    have ok': "granted_ok s0 t" "mutex_ok t" using granted_ok_reach_from [OF t(1) ok] by simp_all
    have "\<not> holds_mutex (at_pcs t i)" "at_pcs t i \<noteq> A_Undefined"
      using mutex_okD(1,3) [OF ok'(2), of i] t(3,4) by auto
    then consider "at_pcs t i = A_Idle" | n a where "at_pcs t i = A_Wait n a"
      by (cases "at_pcs t i") auto
    then show ?thesis
    proof cases
      case 1
      with t show ?thesis by blast
    next
      case 2
      from wait [OF ok' t(4,3) this] arena_reach_trans [OF _ t(1)] show ?thesis by blast
    qed
  qed
qed

end

end
