(* ===== verification/Allocator.thy ===== *)
theory Allocator
  imports Arena_Threads
begin

unbundle bit_operations_syntax

text \<open>
  \<open>domovoy::memory::IsolatedAllocator\<close> and \<open>StlAllocator\<close> (include/domovoy/allocator.h,
  src/allocator.cpp): a bump allocator over a chain of blocks mapped from the operating system.

  The chain \<open>head_block_ \<rightarrow> next \<rightarrow> \<dots>\<close> is a list of block headers. The kernel is a parameter:
  \<open>os maps len\<close> is the address \<open>mmap\<close>/\<open>VirtualAlloc\<close> answers when the mappings \<open>maps\<close> exist
  (\<open>None\<close> for \<open>MAP_FAILED\<close>/\<open>NULL\<close>); what is documented of it is \<open>os_ok\<close>. \<open>Allocate\<close> is a call that
  runs alone; \<open>alloc_micro\<close> is the same code one small step at a time, for threads.
\<close>

section \<open>State\<close>

record block =
  bk_base :: addr \<comment> \<open>where the header itself lies: the start of the mapping\<close>
  bk_memory :: addr
  bk_size :: u64
  bk_used :: u64

record alloc_state =
  head_block :: "block list"
  maps :: "(addr \<times> u64) list"

type_synonym os_map = "(addr \<times> u64) list \<Rightarrow> u64 \<Rightarrow> addr option"

definition sizeof_Block :: u64 where
  "sizeof_Block = 32"

section \<open>Operations\<close>

definition AllocateOSBlock :: "os_map \<Rightarrow> u64 \<Rightarrow> alloc_state \<Rightarrow> (block, alloc_state) outcome" where
  "AllocateOSBlock os bytes st =
     (let total_size = bytes + sizeof_Block in
      case os (maps st) total_size of
        None \<Rightarrow> Throw st
      | Some mapped_mem \<Rightarrow>
          Ret \<lparr>bk_base = mapped_mem, bk_memory = mapped_mem + sizeof_Block,
               bk_size = bytes, bk_used = 0\<rparr>
              (st\<lparr>maps := (mapped_mem, total_size) # maps st\<rparr>))"

definition FreeOSBlock :: "block \<Rightarrow> alloc_state \<Rightarrow> alloc_state" where
  "FreeOSBlock b st =
     (let total_size = bk_size b + sizeof_Block in
      st\<lparr>maps := removeAll (bk_base b, total_size) (maps st)\<rparr>)"

definition Initialize :: "os_map \<Rightarrow> u64 \<Rightarrow> alloc_state \<Rightarrow> (unit, alloc_state) outcome" where
  "Initialize os initial_capacity_bytes st =
     (if head_block st = [] then
        let alloc_size = max initial_capacity_bytes (2 * 1024 * 1024) in
        obnd (AllocateOSBlock os alloc_size st) (\<lambda>b s. Ret () (s\<lparr>head_block := [b]\<rparr>))
      else Ret () st)"

fun free_chain :: "block list \<Rightarrow> alloc_state \<Rightarrow> alloc_state" where
  "free_chain [] st = st"
| "free_chain (blk # rest) st = free_chain rest (FreeOSBlock blk st)"

definition alloc_Shutdown :: "alloc_state \<Rightarrow> alloc_state" where
  "alloc_Shutdown st = (free_chain (head_block st) st)\<lparr>head_block := []\<rparr>"

definition align_addr :: "u64 \<Rightarrow> addr \<Rightarrow> addr" where
  "align_addr alignment base_addr = (base_addr + alignment - 1) AND NOT (alignment - 1)"

definition try_block :: "u64 \<Rightarrow> u64 \<Rightarrow> block \<Rightarrow> (addr \<times> block) option" where
  "try_block bytes alignment blk =
     (let base_addr = bk_memory blk + bk_used blk;
          aligned_addr = align_addr alignment base_addr;
          padding = aligned_addr - base_addr
      in if bk_used blk + padding + bytes \<le> bk_size blk
         then Some (aligned_addr, blk\<lparr>bk_used := bk_used blk + (padding + bytes)\<rparr>)
         else None)"

fun scan_blocks :: "u64 \<Rightarrow> u64 \<Rightarrow> block list \<Rightarrow> (addr \<times> block list) option" where
  "scan_blocks bytes alignment [] = None"
| "scan_blocks bytes alignment (blk # rest) =
     (case try_block bytes alignment blk of
        Some (p, blk') \<Rightarrow> Some (p, blk' # rest)
      | None \<Rightarrow> map_option (\<lambda>(p, bs). (p, blk # bs)) (scan_blocks bytes alignment rest))"

definition bump_new :: "u64 \<Rightarrow> u64 \<Rightarrow> block \<Rightarrow> addr \<times> block" where
  "bump_new bytes alignment new_block =
     (let base_addr = bk_memory new_block;
          aligned_addr = align_addr alignment base_addr;
          padding = aligned_addr - base_addr
      in (aligned_addr, new_block\<lparr>bk_used := bk_used new_block + (padding + bytes)\<rparr>))"

text \<open>\<open>Allocate\<close> in its two parts: mapping the first block if \<open>Initialize\<close> was never called, then
  the search of the chain with the new block at its end when nothing fits.\<close>

definition ensure_head :: "os_map \<Rightarrow> alloc_state \<Rightarrow> (unit, alloc_state) outcome" where
  "ensure_head os st =
     (if head_block st = []
      then obnd (AllocateOSBlock os (2 * 1024 * 1024) st) (\<lambda>b s. Ret () (s\<lparr>head_block := [b]\<rparr>))
      else Ret () st)"

definition alloc_in_chain :: "os_map \<Rightarrow> u64 \<Rightarrow> u64 \<Rightarrow> alloc_state \<Rightarrow> (addr, alloc_state) outcome" where
  "alloc_in_chain os bytes alignment s =
     (case scan_blocks bytes alignment (head_block s) of
        Some (p, bs) \<Rightarrow> Ret p (s\<lparr>head_block := bs\<rparr>)
      | None \<Rightarrow>
          (let new_block_size = max (bytes * 2) (2 * 1024 * 1024) in
           obnd (AllocateOSBlock os new_block_size s) (\<lambda>new_block s'.
             let (p, b) = bump_new bytes alignment new_block
             in Ret p (s'\<lparr>head_block := head_block s' @ [b]\<rparr>))))"

definition Allocate :: "os_map \<Rightarrow> u64 \<Rightarrow> u64 \<Rightarrow> alloc_state \<Rightarrow> (addr, alloc_state) outcome" where
  "Allocate os bytes alignment st =
     obnd (ensure_head os st) (\<lambda>_ s. alloc_in_chain os bytes alignment s)"

definition Deallocate :: "addr \<Rightarrow> u64 \<Rightarrow> alloc_state \<Rightarrow> alloc_state" where
  "Deallocate ptr bytes st = st"

text \<open>The body of \<open>Allocate\<close> step by step: the points between the lock and the return, with the local
  variables that are live there. At \<open>At_Block k\<close> the loop is about to test the block \<open>curr\<close>, the
  \<open>k\<close>-th; at \<open>At_Take\<close> it has decided for that block; at \<open>At_Link\<close> a new block is mapped but not
  linked; at \<open>At_Bump\<close> it is linked and still empty.\<close>

datatype alloc_point = At_Head | At_Block nat | At_Take nat addr u64 | At_Grow | At_Link block | At_Bump

definition take_block :: "nat \<Rightarrow> u64 \<Rightarrow> alloc_state \<Rightarrow> alloc_state" where
  "take_block k amount st =
     st\<lparr>head_block := (head_block st)[k := (head_block st ! k)\<lparr>bk_used := bk_used (head_block st ! k) + amount\<rparr>]\<rparr>"

fun alloc_micro ::
  "os_map \<Rightarrow> u64 \<Rightarrow> u64 \<Rightarrow> alloc_point \<Rightarrow> alloc_state \<Rightarrow> (alloc_point + addr, alloc_state) outcome" where
  "alloc_micro os bytes alignment At_Head st =
     obnd (ensure_head os st) (\<lambda>_ s. Ret (Inl (At_Block 0)) s)"
| "alloc_micro os bytes alignment (At_Block k) st =
     (if length (head_block st) \<le> k then Ret (Inl At_Grow) st
      else let curr = head_block st ! k in
           case try_block bytes alignment curr of
             None \<Rightarrow> Ret (Inl (At_Block (Suc k))) st
           | Some (aligned_addr, _) \<Rightarrow>
               Ret (Inl (At_Take k aligned_addr (aligned_addr - (bk_memory curr + bk_used curr)))) st)"
| "alloc_micro os bytes alignment (At_Take k aligned_addr padding) st =
     (if length (head_block st) \<le> k then Undefined
      else Ret (Inr aligned_addr) (take_block k (padding + bytes) st))"
| "alloc_micro os bytes alignment At_Grow st =
     obnd (AllocateOSBlock os (max (bytes * 2) (2 * 1024 * 1024)) st) (\<lambda>b s. Ret (Inl (At_Link b)) s)"
| "alloc_micro os bytes alignment (At_Link b) st = Ret (Inl At_Bump) (st\<lparr>head_block := head_block st @ [b]\<rparr>)"
| "alloc_micro os bytes alignment At_Bump st =
     (if head_block st = [] then Undefined
      else let (p, b) = bump_new bytes alignment (last (head_block st))
           in Ret (Inr p) (st\<lparr>head_block := butlast (head_block st) @ [b]\<rparr>))"

text \<open>\<open>StlAllocator<T>\<close>, for any arena it allocates from; \<open>sz\<close> and \<open>al\<close> are \<open>sizeof(T)\<close> and
  \<open>alignof(T)\<close>.\<close>

definition stl_allocate ::
  "(u64 \<Rightarrow> u64 \<Rightarrow> 's \<Rightarrow> (addr, 's) outcome) \<Rightarrow> u64 \<Rightarrow> u64 \<Rightarrow> u64 \<Rightarrow> 's \<Rightarrow> (addr, 's) outcome" where
  "stl_allocate alloc sz al n s =
     (if n > (- 1) div sz then Throw s
      else obnd (alloc (n * sz) al s) (\<lambda>p t. if p \<noteq> nullptr then Ret p t else Throw t))"

definition stl_deallocate :: "u64 \<Rightarrow> addr \<Rightarrow> u64 \<Rightarrow> alloc_state \<Rightarrow> alloc_state" where
  "stl_deallocate sz p n st = Deallocate p (n * sz) st"

section \<open>What is assumed of the kernel, and the allocator's invariant\<close>

text \<open>
  \<open>mmap\<close> answers a page-aligned, non-null region below the user-space limit that overlaps no
  existing mapping, and refuses length 0.
\<close>

definition os_ok :: "os_map \<Rightarrow> bool" where
  "os_ok os \<longleftrightarrow>
     (\<forall>ms len p. os ms len = Some p \<longrightarrow>
        p \<noteq> nullptr \<and> unat p mod 4096 = 0 \<and> 0 < unat len \<and> unat p + unat len \<le> 2 ^ 56 \<and>
        (\<forall>r \<in> set ms. apart (p, len) r))"

definition region :: "block \<Rightarrow> addr \<times> u64" where
  "region b = (bk_base b, bk_size b + sizeof_Block)"

definition block_ok :: "block \<Rightarrow> bool" where
  "block_ok b \<longleftrightarrow>
     bk_base b \<noteq> nullptr \<and> bk_memory b = bk_base b + sizeof_Block \<and>
     unat (bk_base b) + 32 + unat (bk_size b) \<le> 2 ^ 56 \<and> bk_used b \<le> bk_size b"

definition alloc_inv :: "alloc_state \<Rightarrow> bool" where
  "alloc_inv st \<longleftrightarrow>
     (\<forall>b \<in> set (head_block st). block_ok b \<and> region b \<in> set (maps st)) \<and>
     sorted_wrt apart (map region (head_block st))"

definition used_bytes :: "alloc_state \<Rightarrow> nat set" where
  "used_bytes st = (\<Union>b \<in> set (head_block st). span (bk_memory b) (bk_used b))"

text \<open>The requests the code is safe for: no overflow in \<open>bytes * 2\<close>, an alignment that is a power of
  two and at most half the minimal block.\<close>

definition good_request :: "u64 \<Rightarrow> u64 \<Rightarrow> bool" where
  "good_request bytes alignment \<longleftrightarrow>
     unat bytes \<le> 2 ^ 62 \<and> alignment \<in> (\<lambda>k. 2 ^ k) ` set [0..<21]"

section \<open>Lemmas\<close>

lemma unat_two_power: "k < 64 \<Longrightarrow> unat (2 ^ k :: u64) = 2 ^ k"
proof -
  assume k: "k < 64"
  have "unat (2 ^ k :: u64) = unat (of_nat (2 ^ k) :: u64)" by simp
  also have "\<dots> = 2 ^ k mod 2 ^ 64" by (subst unat_of_nat) simp
  also have "\<dots> = 2 ^ k" using k by (intro mod_less power_strict_increasing) simp_all
  finally show ?thesis .
qed

lemma good_requestE:
  assumes "good_request bytes alignment"
  obtains k where "k \<le> 20" "alignment = 2 ^ k" "unat alignment = 2 ^ k" "unat bytes \<le> 2 ^ 62"
proof -
  from assms obtain k where k: "k < 21" "alignment = 2 ^ k" "unat bytes \<le> 2 ^ 62"
    by (auto simp: good_request_def)
  then have "unat alignment = 2 ^ k" by (simp add: unat_two_power)
  with k that [of k] show ?thesis by simp
qed

lemma align_addr_spec:
  assumes k: "k \<le> 20" "alignment = 2 ^ k" and a: "unat a \<le> 2 ^ 56"
  shows "unat (align_addr alignment a) mod 2 ^ k = 0"
    and "unat a \<le> unat (align_addr alignment a)"
    and "unat (align_addr alignment a) < unat a + 2 ^ k"
proof -
  let ?x = "a + alignment - 1"
  have p: "unat alignment = 2 ^ k" using k by (simp add: unat_two_power)
  have le: "(2::nat) ^ k \<le> 2 ^ 20" using k(1) by (rule power_increasing) simp
  have one_le: "Suc 0 \<le> 2 ^ k" by simp
  have "unat (a + alignment) = unat a + 2 ^ k"
    using a p le by (subst unat_add_nowrap) simp_all
  then have x: "unat ?x = unat a + 2 ^ k - 1"
    using one_le by (subst unat_sub_nowrap) (simp_all add: trans_le_add2)
  have r: "unat (align_addr alignment a) = unat ?x - unat ?x mod 2 ^ k"
    using unat_and_not_mask [of ?x k] k(2) by (simp add: align_addr_def mask_eq_exp_minus_1)
  have "unat ?x mod 2 ^ k < 2 ^ k" by simp
  with r x show "unat a \<le> unat (align_addr alignment a)"
    and "unat (align_addr alignment a) < unat a + 2 ^ k" by linarith+
  show "unat (align_addr alignment a) mod 2 ^ k = 0"
    unfolding r by (simp add: minus_mod_eq_mult_div)
qed

lemma block_ok_unat:
  assumes "block_ok b"
  shows "unat (bk_memory b) = unat (bk_base b) + 32"
    and "unat (bk_memory b + bk_used b) = unat (bk_memory b) + unat (bk_used b)"
    and "unat (bk_memory b) + unat (bk_size b) \<le> 2 ^ 56"
    and "unat (bk_used b) \<le> unat (bk_size b)"
    and "unat (snd (region b)) = unat (bk_size b) + 32"
proof -
  note b = assms [unfolded block_ok_def]
  show m: "unat (bk_memory b) = unat (bk_base b) + 32"
    using b by (auto simp: sizeof_Block_def unat_add_nowrap)
  show u: "unat (bk_used b) \<le> unat (bk_size b)"
    using b by (auto simp: word_le_nat_alt)
  show "unat (bk_memory b) + unat (bk_size b) \<le> 2 ^ 56"
    using b m by simp
  then show "unat (bk_memory b + bk_used b) = unat (bk_memory b) + unat (bk_used b)"
    using u by (subst unat_add_nowrap) simp_all
  show "unat (snd (region b)) = unat (bk_size b) + 32"
    using b by (auto simp: region_def sizeof_Block_def unat_add_nowrap)
qed

text \<open>Placing \<open>bytes\<close> bytes in a block where they fit, as both paths of \<open>Allocate\<close> do.\<close>

lemma bump_ok:
  fixes b :: block and bytes alignment :: u64
  defines "al \<equiv> align_addr alignment (bk_memory b + bk_used b)"
  defines "pad \<equiv> al - (bk_memory b + bk_used b)"
  defines "b' \<equiv> b\<lparr>bk_used := bk_used b + (pad + bytes)\<rparr>"
  assumes b: "block_ok b" and g: "good_request bytes alignment"
    and fits: "unat (bk_used b) + unat pad + unat bytes \<le> unat (bk_size b)"
  shows "block_ok b'"
    and "unat (bk_used b') = unat (bk_used b) + unat pad + unat bytes"
    and "unat al = unat (bk_memory b) + unat (bk_used b) + unat pad"
    and "unat al mod unat alignment = 0"
proof -
  note u = block_ok_unat [OF b]
  obtain k where k: "k \<le> 20" "alignment = 2 ^ k" "unat alignment = 2 ^ k"
    using g by (rule good_requestE)
  have a: "unat (bk_memory b + bk_used b) \<le> 2 ^ 56" using u by simp
  note al = align_addr_spec [OF k(1,2) a, folded al_def]
  have pad: "unat pad = unat al - (unat (bk_memory b) + unat (bk_used b))"
    unfolding pad_def using al(2) u(2) by (subst unat_sub_nowrap) simp_all
  show "unat al = unat (bk_memory b) + unat (bk_used b) + unat pad"
    using pad al(2) u(2) by simp
  show "unat al mod unat alignment = 0" using al(1) k(3) by simp
  have lt: "unat (bk_used b) + unat pad + unat bytes \<le> 2 ^ 56"
    using fits u(3) by simp
  then have "unat (pad + bytes) = unat pad + unat bytes"
    by (intro unat_add_nowrap) simp
  with lt show used: "unat (bk_used b') = unat (bk_used b) + unat pad + unat bytes"
    by (simp add: b'_def unat_add_nowrap)
  with b fits show "block_ok b'"
    by (auto simp: block_ok_def b'_def word_le_nat_alt)
qed

text \<open>The padding is below the alignment, so the sum of the size test cannot wrap.\<close>

lemma padding_bound:
  assumes b: "block_ok b" and g: "good_request bytes alignment"
  shows "unat (align_addr alignment (bk_memory b + bk_used b) - (bk_memory b + bk_used b)) < 2 ^ 20"
proof -
  note u = block_ok_unat [OF b]
  obtain k where k: "k \<le> 20" "alignment = 2 ^ k" using g by (rule good_requestE)
  have a: "unat (bk_memory b + bk_used b) \<le> 2 ^ 56" using u by simp
  note al = align_addr_spec [OF k a]
  have "(2::nat) ^ k \<le> 2 ^ 20" using k(1) by (rule power_increasing) simp
  with al(2,3) show ?thesis by (subst unat_sub_nowrap) simp_all
qed

lemma try_block_Some:
  assumes b: "block_ok b" and g: "good_request bytes alignment"
    and t: "try_block bytes alignment b = Some (p, b')"
  shows "block_ok b'" and "region b' = region b" and "bk_memory b' = bk_memory b"
    and "unat (bk_memory b) + unat (bk_used b) \<le> unat p"
    and "unat p + unat bytes = unat (bk_memory b) + unat (bk_used b')"
    and "unat p mod unat alignment = 0"
proof -
  let ?al = "align_addr alignment (bk_memory b + bk_used b)"
  let ?pad = "?al - (bk_memory b + bk_used b)"
  from t have p: "p = ?al" and b': "b' = b\<lparr>bk_used := bk_used b + (?pad + bytes)\<rparr>"
    and le: "bk_used b + ?pad + bytes \<le> bk_size b"
    by (auto simp: try_block_def Let_def split: if_splits)
  note u = block_ok_unat [OF b] and pad = padding_bound [OF b g]
  have "unat bytes \<le> 2 ^ 62" using g by (rule good_requestE)
  then have "unat (bk_used b + w + bytes) = unat (bk_used b) + unat w + unat bytes"
    if "unat w < 2 ^ 20" for w
    using u(3,4) that by (simp add: unat_add_nowrap)
  from this [OF pad]
  have "unat (bk_used b + ?pad + bytes) = unat (bk_used b) + unat ?pad + unat bytes" .
  with le have fits: "unat (bk_used b) + unat ?pad + unat bytes \<le> unat (bk_size b)"
    by (simp add: word_le_nat_alt)
  note bump = bump_ok [OF b g fits, folded b' p]
  show "block_ok b'" "unat p mod unat alignment = 0" by fact+
  show "region b' = region b" "bk_memory b' = bk_memory b" by (simp_all add: b' region_def)
  show "unat (bk_memory b) + unat (bk_used b) \<le> unat p"
    "unat p + unat bytes = unat (bk_memory b) + unat (bk_used b')"
    using bump(2,3) by simp_all
qed

lemma bump_new_ok:
  assumes b: "block_ok b" "bk_used b = 0" and g: "good_request bytes alignment"
    and sz: "bk_size b = max (bytes * 2) (2 * 1024 * 1024)"
    and t: "bump_new bytes alignment b = (p, b')"
  shows "block_ok b'" and "region b' = region b" and "bk_memory b' = bk_memory b"
    and "unat (bk_memory b) \<le> unat p"
    and "unat p + unat bytes = unat (bk_memory b) + unat (bk_used b')"
    and "unat p mod unat alignment = 0"
proof -
  let ?al = "align_addr alignment (bk_memory b + bk_used b)"
  let ?pad = "?al - (bk_memory b + bk_used b)"
  from t b have p: "p = ?al" and b': "b' = b\<lparr>bk_used := bk_used b + (?pad + bytes)\<rparr>"
    by (auto simp: bump_new_def Let_def)
  have "unat bytes \<le> 2 ^ 62" using g by (rule good_requestE)
  then have "unat (bytes * 2) = unat bytes * 2"
    by (subst unat_mult_nowrap) simp_all
  then have "unat (bk_size b) = max (unat bytes * 2) (2 ^ 21)"
    using sz by simp
  then have fits: "unat (bk_used b) + unat ?pad + unat bytes \<le> unat (bk_size b)"
    using padding_bound [OF b(1) g] b(2) by simp
  note bump = bump_ok [OF b(1) g fits, folded b' p]
  show "block_ok b'" "unat p mod unat alignment = 0" by fact+
  show "region b' = region b" "bk_memory b' = bk_memory b" by (simp_all add: b' region_def)
  show "unat (bk_memory b) \<le> unat p"
    "unat p + unat bytes = unat (bk_memory b) + unat (bk_used b')"
    using bump(2,3) b(2) by simp_all
qed

lemma scan_blocks_Some:
  assumes "\<forall>b \<in> set bs. block_ok b" and g: "good_request bytes alignment"
    and "scan_blocks bytes alignment bs = Some (p, bs')"
  shows "\<exists>us b b' vs. bs = us @ b # vs \<and> bs' = us @ b' # vs \<and> block_ok b \<and>
           try_block bytes alignment b = Some (p, b')"
  using assms(1,3)
proof (induction bs arbitrary: bs')
  case (Cons c cs)
  show ?case
  proof (cases "try_block bytes alignment c")
    case None
    with Cons.prems obtain cs' where cs': "scan_blocks bytes alignment cs = Some (p, cs')"
      and bs': "bs' = c # cs'" by auto
    with Cons.IH [OF _ cs'] Cons.prems(1) show ?thesis
      by (metis append_Cons list.set_intros(2))
  next
    case (Some r)
    with Cons.prems show ?thesis by (cases r) force
  qed
qed simp

lemma region_span: "block_ok b \<Longrightarrow> span (bk_memory b) (bk_used b) \<subseteq> span (fst (region b)) (snd (region b))"
  using block_ok_unat [of b] by (auto simp: region_def)

lemma region_apart_span:
  assumes "block_ok b" "block_ok c" "apart (region b) (region c)" "unat n \<le> unat (bk_size b)"
  shows "span (bk_memory b) n \<inter> span (bk_memory c) (bk_used c) = {}"
  using assms(3,4) block_ok_unat [OF assms(1)] block_ok_unat [OF assms(2)]
  by (auto simp: apart_def region_def)

text \<open>Replacing a block of the chain by itself with more bytes used.\<close>

lemma replace_block:
  assumes inv: "alloc_inv st" and bs: "head_block st = us @ b # vs"
    and b': "block_ok b'" "region b' = region b" "bk_memory b' = bk_memory b"
    and grow: "unat (bk_used b) \<le> unat (bk_used b')"
    and n: "unat (bk_memory b) + unat (bk_used b) \<le> unat p"
      "unat p + unat n = unat (bk_memory b) + unat (bk_used b')"
  defines "st' \<equiv> st\<lparr>head_block := us @ b' # vs\<rparr>"
  shows "alloc_inv st'" and "used_bytes st \<subseteq> used_bytes st'"
    and "span p n \<subseteq> used_bytes st' - used_bytes st"
proof -
  show "alloc_inv st'"
    using inv b' bs by (auto simp: alloc_inv_def st'_def)
  show "used_bytes st \<subseteq> used_bytes st'"
    using grow bs b'(3) by (fastforce simp: used_bytes_def st'_def)
  have in': "span p n \<subseteq> span (bk_memory b') (bk_used b')"
    using n b'(3) by auto
  have "span p n \<inter> span (bk_memory b) (bk_used b) = {}"
    using n by auto
  moreover have "span p n \<inter> span (bk_memory c) (bk_used c) = {}" if "c \<in> set us \<union> set vs" for c
  proof -
    have "block_ok c" "apart (region b') (region c)"
      using inv that bs b'(2) apart_sym [of "region b"]
      by (auto simp: alloc_inv_def sorted_wrt_append)
    from region_apart_span [OF b'(1) this, of "bk_used b'"] block_ok_unat(4) [OF b'(1)] in'
    show ?thesis by blast
  qed
  ultimately show "span p n \<subseteq> used_bytes st' - used_bytes st"
    using in' bs by (auto simp: used_bytes_def st'_def)
qed

lemma AllocateOSBlock_Ret:
  assumes os: "os_ok os" and a: "AllocateOSBlock os bytes st = Ret b t"
    and nowrap: "unat bytes + 32 < 2 ^ 64"
  shows "block_ok b" and "bk_used b = 0" and "bk_size b = bytes"
    and "t = st\<lparr>maps := region b # maps st\<rparr>" and "\<forall>r \<in> set (maps st). apart (region b) r"
    and "region b \<notin> set (maps st)"
proof -
  from a obtain p where p: "os (maps st) (bytes + sizeof_Block) = Some p"
    and b: "b = \<lparr>bk_base = p, bk_memory = p + sizeof_Block, bk_size = bytes, bk_used = 0\<rparr>"
    and t: "t = st\<lparr>maps := (p, bytes + sizeof_Block) # maps st\<rparr>"
    by (auto simp: AllocateOSBlock_def Let_def split: option.splits)
  have "unat (bytes + sizeof_Block) = unat bytes + 32"
    using nowrap by (simp add: sizeof_Block_def unat_add_nowrap)
  with os p show "block_ok b"
    by (fastforce simp: os_ok_def block_ok_def b)
  show "bk_used b = 0" "bk_size b = bytes" "t = st\<lparr>maps := region b # maps st\<rparr>"
    by (simp_all add: b t region_def)
  show ap: "\<forall>r \<in> set (maps st). apart (region b) r"
    using os p by (simp add: os_ok_def b region_def)
  show "region b \<notin> set (maps st)"
  proof
    assume "region b \<in> set (maps st)"
    with ap have "apart (region b) (region b)" by blast
    with \<open>unat (bytes + sizeof_Block) = unat bytes + 32\<close> show False
      by (simp add: apart_def region_def b)
  qed
qed

lemma AllocateOSBlock_outcome:
  "AllocateOSBlock os bytes st \<noteq> Hang \<and> AllocateOSBlock os bytes st \<noteq> Undefined \<and>
   (AllocateOSBlock os bytes st = Throw t \<longrightarrow> t = st)"
  by (auto simp: AllocateOSBlock_def Let_def split: option.splits)

text \<open>Linking a freshly mapped block at the end of the chain.\<close>

lemma append_block:
  assumes inv: "alloc_inv st" and b: "block_ok b" "bk_used b = 0"
    and fresh: "\<forall>r \<in> set (maps st). apart (region b) r"
  defines "st' \<equiv> st\<lparr>maps := region b # maps st, head_block := head_block st @ [b]\<rparr>"
  shows "alloc_inv st'" and "used_bytes st' = used_bytes st"
proof -
  show "alloc_inv st'"
    using inv b fresh apart_sym [of "region b"]
    by (auto simp: alloc_inv_def st'_def sorted_wrt_append)
  show "used_bytes st' = used_bytes st"
    using b(2) by (auto simp: used_bytes_def st'_def span_def)
qed

lemma ensure_head_ok:
  assumes os: "os_ok os" and inv: "alloc_inv st"
  shows "ensure_head os st = Ret () t \<Longrightarrow> alloc_inv t \<and> used_bytes t = used_bytes st"
    and "ensure_head os st = Throw t \<Longrightarrow> t = st"
    and "ensure_head os st \<noteq> Hang" and "ensure_head os st \<noteq> Undefined"
proof -
  have st: "st\<lparr>head_block := [b]\<rparr> = st\<lparr>head_block := head_block st @ [b]\<rparr>"
    if "head_block st = []" for b
    using that by simp
  show "alloc_inv t \<and> used_bytes t = used_bytes st" if e: "ensure_head os st = Ret () t"
  proof (cases "head_block st = []")
    case True
    with e obtain b s where a: "AllocateOSBlock os (2 * 1024 * 1024) st = Ret b s"
      and t: "t = s\<lparr>head_block := [b]\<rparr>"
      by (auto simp: ensure_head_def obind_Ret_iff)
    note A = AllocateOSBlock_Ret [OF os a, simplified]
    have "t = st\<lparr>maps := region b # maps st, head_block := head_block st @ [b]\<rparr>"
      using t A(4) True by simp
    with append_block [OF inv A(1,2) A(5)] show ?thesis by simp
  next
    case False
    with e inv show ?thesis by (simp add: ensure_head_def)
  qed
  show "ensure_head os st = Throw t \<Longrightarrow> t = st" "ensure_head os st \<noteq> Hang" "ensure_head os st \<noteq> Undefined"
    using AllocateOSBlock_outcome [of os "2 * 1024 * 1024" st]
    by (cases "AllocateOSBlock os (2 * 1024 * 1024) st"; auto simp: ensure_head_def split: if_splits)+
qed

lemma good_request_double:
  assumes "good_request bytes alignment"
  shows "unat (max (bytes * 2) (2 * 1024 * 1024)) + 32 < 2 ^ 64"
proof -
  have "unat bytes \<le> 2 ^ 62" using assms by (rule good_requestE)
  then have "unat (bytes * 2) = unat bytes * 2" by (subst unat_mult_nowrap) simp_all
  with \<open>unat bytes \<le> 2 ^ 62\<close> show ?thesis by simp
qed

lemma alloc_in_chain_ok:
  assumes os: "os_ok os" and inv: "alloc_inv st" and g: "good_request bytes alignment"
    and a: "alloc_in_chain os bytes alignment st = Ret p t"
  shows "alloc_inv t \<and> used_bytes st \<subseteq> used_bytes t \<and> span p bytes \<subseteq> used_bytes t - used_bytes st \<and>
         unat p mod unat alignment = 0 \<and> p \<noteq> nullptr"
proof (cases "scan_blocks bytes alignment (head_block st)")
  case (Some r)
  obtain q bs where r: "r = (q, bs)" by (cases r)
  have ok: "\<forall>b \<in> set (head_block st). block_ok b" using inv by (auto simp: alloc_inv_def)
  from a Some r have p: "q = p" and t: "t = st\<lparr>head_block := bs\<rparr>" by (auto simp: alloc_in_chain_def)
  with Some r scan_blocks_Some [OF ok g] obtain us b b' vs where
    bs: "head_block st = us @ b # vs" "bs = us @ b' # vs" and b: "block_ok b"
    and tb: "try_block bytes alignment b = Some (p, b')" by blast
  note T = try_block_Some [OF b g tb]
  have grow: "unat (bk_used b) \<le> unat (bk_used b')" using T(4,5) by simp
  have "unat p \<noteq> 0" using T(4) block_ok_unat(1) [OF b] by simp
  then have "p \<noteq> nullptr" by auto
  with replace_block [OF inv bs(1) T(1-3) grow T(4,5)] T(6) show ?thesis
    by (simp add: t bs(2))
next
  case None
  with a obtain b s where
    m: "AllocateOSBlock os (max (bytes * 2) (2 * 1024 * 1024)) st = Ret b s"
    and p: "fst (bump_new bytes alignment b) = p"
    and t': "t = s\<lparr>head_block := head_block s @ [snd (bump_new bytes alignment b)]\<rparr>"
    by (auto simp: alloc_in_chain_def Let_def obind_Ret_iff case_prod_beta)
  then obtain b' where bn: "bump_new bytes alignment b = (p, b')"
    and t: "t = s\<lparr>head_block := head_block s @ [b']\<rparr>"
    by (cases "bump_new bytes alignment b") simp
  note A = AllocateOSBlock_Ret [OF os m good_request_double [OF g]]
  define s1 where "s1 = st\<lparr>maps := region b # maps st, head_block := head_block st @ [b]\<rparr>"
  have s1: "alloc_inv s1" "used_bytes s1 = used_bytes st"
    unfolding s1_def by (rule append_block [OF inv A(1,2) A(5)])+
  have h1: "head_block s1 = head_block st @ b # []" by (simp add: s1_def)
  note N = bump_new_ok [OF A(1,2) g A(3) bn]
  have ts1: "t = s1\<lparr>head_block := head_block st @ b' # []\<rparr>"
    using t A(4) by (simp add: s1_def)
  have "unat p \<noteq> 0" using N(4) block_ok_unat(1) [OF A(1)] by simp
  then have "p \<noteq> nullptr" by auto
  with replace_block [OF s1(1) h1 N(1-3) _ _ N(5)] N(4-6) A(2) s1(2) show ?thesis
    by (simp add: ts1)
qed

lemma alloc_in_chain_outcome:
  "alloc_in_chain os bytes alignment st \<noteq> Hang" "alloc_in_chain os bytes alignment st \<noteq> Undefined"
  "alloc_in_chain os bytes alignment st = Throw t \<Longrightarrow> t = st"
  using AllocateOSBlock_outcome [of os "max (bytes * 2) (2 * 1024 * 1024)" st t]
  by (cases "AllocateOSBlock os (max (bytes * 2) (2 * 1024 * 1024)) st";
      auto simp: alloc_in_chain_def Let_def split: option.splits prod.splits)+

text \<open>The allocator is an arena, for every kernel that keeps its documented promises.\<close>

interpretation iso: arena "\<lambda>st. os_ok os \<and> alloc_inv st" used_bytes good_request "Allocate os"
  for os :: os_map
proof unfold_locales
  fix s t :: alloc_state and n a p
  assume s: "os_ok os \<and> alloc_inv s" and g: "good_request n a"
  {
    assume "Allocate os n a s = Ret p t"
    then obtain s' where e: "ensure_head os s = Ret () s'" and c: "alloc_in_chain os n a s' = Ret p t"
      by (auto simp: Allocate_def obind_Ret_iff)
    have s': "alloc_inv s'" "used_bytes s' = used_bytes s"
      using ensure_head_ok(1) [of os s s'] s e by auto
    from alloc_in_chain_ok [OF _ s'(1) g c] s s'(2)
    have "alloc_inv t \<and> used_bytes s \<subseteq> used_bytes t \<and> span p n \<subseteq> used_bytes t - used_bytes s \<and>
          unat p mod unat a = 0 \<and> p \<noteq> nullptr" by simp
  }
  note R = this
  show "os_ok os \<and> alloc_inv t" "used_bytes s \<subseteq> used_bytes t" "span p n \<subseteq> used_bytes t - used_bytes s"
    "unat p mod unat a = 0" "p \<noteq> nullptr" if "Allocate os n a s = Ret p t"
    using R [OF that] s by blast+
  show "(os_ok os \<and> alloc_inv t) \<and> used_bytes t = used_bytes s" if "Allocate os n a s = Throw t"
    using that s ensure_head_ok(1) [of os s] ensure_head_ok(2) [of os s t]
    by (auto simp: Allocate_def obind_Throw_iff dest: alloc_in_chain_outcome(3))
  show "Allocate os n a s \<noteq> Hang \<and> Allocate os n a s \<noteq> Undefined"
    using ensure_head_ok(3,4) [of os s] s alloc_in_chain_outcome(1,2)
    by (cases "ensure_head os s") (auto simp: Allocate_def)
qed

section \<open>The small steps\<close>

text \<open>What is left of \<open>Allocate\<close> at each point, and how many steps that can be.\<close>

definition link_rest :: "u64 \<Rightarrow> u64 \<Rightarrow> block \<Rightarrow> alloc_state \<Rightarrow> (addr, alloc_state) outcome" where
  "link_rest n a b st = (let (p, b') = bump_new n a b in Ret p (st\<lparr>head_block := head_block st @ [b']\<rparr>))"

definition grow_rest :: "os_map \<Rightarrow> u64 \<Rightarrow> u64 \<Rightarrow> alloc_state \<Rightarrow> (addr, alloc_state) outcome" where
  "grow_rest os n a st = obnd (AllocateOSBlock os (max (n * 2) (2 * 1024 * 1024)) st) (link_rest n a)"

fun alloc_rest :: "os_map \<Rightarrow> u64 \<Rightarrow> u64 \<Rightarrow> alloc_point \<Rightarrow> alloc_state \<Rightarrow> (addr, alloc_state) outcome" where
  "alloc_rest os n a At_Head st = Allocate os n a st"
| "alloc_rest os n a (At_Block k) st =
     (case scan_blocks n a (drop k (head_block st)) of
        Some (p, bs) \<Rightarrow> Ret p (st\<lparr>head_block := take k (head_block st) @ bs\<rparr>)
      | None \<Rightarrow> grow_rest os n a st)"
| "alloc_rest os n a (At_Take k p pad) st = obnd (alloc_micro os n a (At_Take k p pad) st) (\<lambda>r. Ret (projr r))"
| "alloc_rest os n a At_Grow st = grow_rest os n a st"
| "alloc_rest os n a (At_Link b) st = link_rest n a b st"
| "alloc_rest os n a At_Bump st = obnd (alloc_micro os n a At_Bump st) (\<lambda>r. Ret (projr r))"

fun alloc_left :: "alloc_point \<Rightarrow> alloc_state \<Rightarrow> nat" where
  "alloc_left At_Head st = length (head_block st) + 6"
| "alloc_left (At_Block k) st = length (head_block st) - k + 4"
| "alloc_left (At_Take k p pad) st = 0"
| "alloc_left At_Grow st = 3"
| "alloc_left (At_Link b) st = 2"
| "alloc_left At_Bump st = 1"

lemma alloc_in_chain_rest: "alloc_in_chain os n a st = alloc_rest os n a (At_Block 0) st"
proof -
  have "link_rest n a = (\<lambda>b s. let (p, b') = bump_new n a b in Ret p (s\<lparr>head_block := head_block s @ [b']\<rparr>))"
    by (simp add: fun_eq_iff link_rest_def)
  then show ?thesis by (simp add: alloc_in_chain_def grow_rest_def Let_def split: option.split)
qed

lemma ensure_head_length: "ensure_head os st = Ret () t \<Longrightarrow> length (head_block t) \<le> Suc (length (head_block st))"
  by (auto simp: ensure_head_def obind_Ret_iff split: if_splits)

lemma try_block_take:
  assumes "try_block n a b = Some (p, b')"
  shows "b' = b\<lparr>bk_used := bk_used b + (p - (bk_memory b + bk_used b) + n)\<rparr>"
  using assms by (auto simp: try_block_def Let_def split: if_splits)

lemma rest_block:
  assumes "k < length (head_block st)"
  shows "alloc_rest os n a (At_Block k) st =
    (case try_block n a (head_block st ! k) of
       None \<Rightarrow> alloc_rest os n a (At_Block (Suc k)) st
     | Some (p, b) \<Rightarrow> Ret p (st\<lparr>head_block := (head_block st)[k := b]\<rparr>))"
proof -
  have d: "drop k (head_block st) = head_block st ! k # drop (Suc k) (head_block st)"
    using assms by (simp add: Cons_nth_drop_Suc)
  have t: "take (Suc k) (head_block st) = take k (head_block st) @ [head_block st ! k]"
    using assms by (simp add: take_Suc_conv_app_nth)
  show ?thesis using assms
    by (auto simp: d t upd_conv_take_nth_drop split: option.split)
qed

lemma alloc_rest_micro:
  "alloc_rest os n a p st =
     obnd (alloc_micro os n a p st) (\<lambda>r t. case r of Inl p' \<Rightarrow> alloc_rest os n a p' t | Inr q \<Rightarrow> Ret q t)"
proof (cases p)
  case At_Head
  then show ?thesis
    by (cases "ensure_head os st") (simp_all add: Allocate_def alloc_in_chain_rest del: alloc_rest.simps(2))
next
  case (At_Block k)
  show ?thesis
  proof (cases "k < length (head_block st)")
    case True
    with At_Block show ?thesis
      by (cases "try_block n a (head_block st ! k)")
        (auto simp: rest_block take_block_def Let_def dest: try_block_take simp del: alloc_rest.simps(2))
  qed (simp add: At_Block)
next
  case (At_Take k q pad)
  then show ?thesis by simp
next
  case At_Grow
  then show ?thesis
    by (cases "AllocateOSBlock os (max (n * 2) (2 * 1024 * 1024)) st") (simp_all add: grow_rest_def)
next
  case (At_Link b)
  then show ?thesis by (simp add: link_rest_def case_prod_beta)
next
  case At_Bump
  then show ?thesis by (simp add: case_prod_beta)
qed

lemma alloc_left_micro:
  "alloc_micro os n a p st = Ret (Inl p') t \<Longrightarrow> alloc_left p' t < alloc_left p st"
  by (cases p)
    (auto simp: obind_Ret_iff Let_def case_prod_beta split: if_splits option.splits dest!: ensure_head_length)

interpretation iso_steps: stepped_arena "\<lambda>st. os_ok os \<and> alloc_inv st" used_bytes good_request "Allocate os"
    At_Head "alloc_micro os" "alloc_rest os" alloc_left
  for os :: os_map
  by unfold_locales (simp, rule alloc_rest_micro, rule alloc_left_micro)

section \<open>Sequences of calls\<close>

datatype alloc_call = CInitialize u64 | CAllocate u64 u64 | CDeallocate addr u64

fun final_state :: "('a, 's) outcome \<Rightarrow> 's \<Rightarrow> 's" where
  "final_state (Ret a t) s = t"
| "final_state (Throw t) s = t"
| "final_state Hang s = s"
| "final_state Undefined s = s"

fun alloc_call_step :: "os_map \<Rightarrow> alloc_call \<Rightarrow> alloc_state \<Rightarrow> alloc_state" where
  "alloc_call_step os (CInitialize cap) st = final_state (Initialize os cap st) st"
| "alloc_call_step os (CAllocate n a) st = final_state (Allocate os n a st) st"
| "alloc_call_step os (CDeallocate p n) st = Deallocate p n st"

text \<open>The mappings that are not the allocator's own.\<close>

definition foreign_maps :: "alloc_state \<Rightarrow> (addr \<times> u64) list" where
  "foreign_maps st = filter (\<lambda>r. r \<notin> region ` set (head_block st)) (maps st)"

lemma maps_free_chain:
  "maps (free_chain bs st) = filter (\<lambda>r. r \<notin> region ` set bs) (maps st)"
proof (induction bs arbitrary: st)
  case (Cons b bs)
  then show ?case
    by (simp add: FreeOSBlock_def Let_def removeAll_filter_not_eq flip: region_def)
      (rule filter_cong; auto)
qed simp

lemma maps_alloc_Shutdown: "maps (alloc_Shutdown st) = foreign_maps st"
  by (simp add: alloc_Shutdown_def foreign_maps_def maps_free_chain)

lemma AllocateOSBlock_region:
  assumes "os_ok os" "AllocateOSBlock os bytes st = Ret b t"
  shows "t = st\<lparr>maps := region b # maps st\<rparr>" and "region b \<notin> set (maps st)"
  using assms by (fastforce simp: AllocateOSBlock_def os_ok_def region_def apart_def Let_def
      split: option.splits)+

lemma scan_blocks_regions:
  "scan_blocks bytes alignment bs = Some (p, bs') \<Longrightarrow> map region bs' = map region bs"
proof (induction bs arbitrary: bs')
  case (Cons b bs)
  then show ?case
    by (auto simp: try_block_def Let_def region_def split: option.splits if_splits)
qed simp

definition owns_maps :: "(addr \<times> u64) list \<Rightarrow> alloc_state \<Rightarrow> bool" where
  "owns_maps ms st \<longleftrightarrow> foreign_maps st = ms \<and> region ` set (head_block st) \<subseteq> set (maps st)"

lemma owns_maps_link:
  assumes "owns_maps ms st" "region b \<notin> set (maps st)" "region b' = region b"
  shows "owns_maps ms (st\<lparr>maps := region b # maps st, head_block := head_block st @ [b']\<rparr>)"
  using assms by (auto simp: owns_maps_def foreign_maps_def intro!: filter_cong)

lemma owns_maps_regions:
  assumes "owns_maps ms st" "map region bs = map region (head_block st)"
  shows "owns_maps ms (st\<lparr>head_block := bs\<rparr>)"
proof -
  have "region ` set bs = region ` set (head_block st)"
    using assms(2) by (metis set_map)
  with assms(1) show ?thesis by (simp add: owns_maps_def foreign_maps_def)
qed

lemma bump_new_region: "region (snd (bump_new bytes alignment b)) = region b"
  by (simp add: bump_new_def Let_def region_def)

lemma owns_maps_chain:
  assumes os: "os_ok os" and own: "owns_maps ms st"
  shows "owns_maps ms (final_state (alloc_in_chain os bytes alignment st) st)"
proof (cases "scan_blocks bytes alignment (head_block st)")
  case None
  let ?n = "max (bytes * 2) (2 * 1024 * 1024)"
  show ?thesis
  proof (cases "AllocateOSBlock os ?n st")
    case (Ret b s)
    note R = AllocateOSBlock_region [OF os Ret]
    from owns_maps_link [OF own R(2) bump_new_region] None Ret R(1) show ?thesis
      by (simp add: alloc_in_chain_def Let_def case_prod_beta)
  qed (use None own AllocateOSBlock_outcome [of os ?n st] in \<open>auto simp: alloc_in_chain_def Let_def\<close>)
next
  case (Some r)
  with own owns_maps_regions [OF own scan_blocks_regions] show ?thesis
    by (cases r) (simp add: alloc_in_chain_def)
qed

lemma owns_maps_first:
  assumes os: "os_ok os" and own: "owns_maps ms st" and h: "head_block st = []"
    and a: "AllocateOSBlock os n st = Ret b s"
  shows "owns_maps ms (s\<lparr>head_block := [b]\<rparr>)"
  using owns_maps_link [OF own AllocateOSBlock_region(2) [OF os a] refl] AllocateOSBlock_region(1) [OF os a] h
  by simp

lemma owns_maps_ensure_head:
  assumes "os_ok os" "owns_maps ms st"
  shows "owns_maps ms (final_state (ensure_head os st) st)"
  using assms owns_maps_first [OF assms] AllocateOSBlock_outcome [of os "2 * 1024 * 1024" st]
  by (cases "AllocateOSBlock os (2 * 1024 * 1024) st") (auto simp: ensure_head_def)

lemma owns_maps_Initialize:
  assumes "os_ok os" "owns_maps ms st"
  shows "owns_maps ms (final_state (Initialize os cap st) st)"
  using assms owns_maps_first [OF assms] AllocateOSBlock_outcome [of os "max cap (2 * 1024 * 1024)" st]
  by (cases "AllocateOSBlock os (max cap (2 * 1024 * 1024)) st") (auto simp: Initialize_def)

lemma owns_maps_Allocate:
  assumes "os_ok os" "owns_maps ms st"
  shows "owns_maps ms (final_state (Allocate os n a st) st)"
proof (cases "ensure_head os st")
  case (Ret u t)
  with owns_maps_ensure_head [OF assms] have t: "owns_maps ms t" by simp
  have "final_state (Allocate os n a st) st = final_state (alloc_in_chain os n a t) t"
    using Ret alloc_in_chain_outcome [of os n a t]
    by (cases "alloc_in_chain os n a t") (auto simp: Allocate_def)
  with owns_maps_chain [OF assms(1) t] show ?thesis by simp
qed (use owns_maps_ensure_head [OF assms] in \<open>auto simp: Allocate_def\<close>)

lemma owns_maps_calls:
  assumes "os_ok os" "owns_maps ms st"
  shows "owns_maps ms (fold (alloc_call_step os) calls st)"
  using assms(2)
proof (induction calls arbitrary: st)
  case (Cons c cs)
  have "owns_maps ms (alloc_call_step os c st)"
    using assms(1) Cons.prems
    by (cases c) (auto simp: Deallocate_def intro: owns_maps_Initialize owns_maps_Allocate)
  from Cons.IH [OF this] show ?case by simp
qed simp

section \<open>A concrete kernel\<close>

text \<open>A kernel that maps upwards from page 1: a concrete instance of the parameter, on which the
  theorems below are evaluated.\<close>

definition linear_os :: os_map where
  "linear_os ms len =
     (let top = fold (\<lambda>r m. max m (uint (fst r) + uint (snd r))) ms 4096;
          p = (top + 4095) div 4096 * 4096
      in if 0 < uint len \<and> p + uint len \<le> 2 ^ 56 then Some (word_of_int p) else None)"

abbreviation empty_alloc :: alloc_state where
  "empty_alloc \<equiv> \<lparr>head_block = [], maps = []\<rparr>"

lemma fold_max_ge: "m \<le> fold (\<lambda>r m. max m (uint (fst r) + uint (snd r))) ms m"
proof (induction ms arbitrary: m)
  case (Cons r ms)
  show ?case
    using Cons.IH [of "max m (uint (fst r) + uint (snd r))"] by simp
qed simp

lemma fold_max_member:
  "(q, n) \<in> set ms \<Longrightarrow> uint q + uint n \<le> fold (\<lambda>r m. max m (uint (fst r) + uint (snd r))) ms m"
proof (induction ms arbitrary: m)
  case (Cons r ms)
  then show ?case
    using fold_max_ge [of "max m (uint q + uint n)" ms] by auto
qed simp

lemma linear_os_ok: "os_ok linear_os"
  unfolding os_ok_def
proof (intro allI impI)
  fix ms len p
  assume "linear_os ms len = Some p"
  define top where "top = fold (\<lambda>r m. max m (uint (fst r) + uint (snd r))) ms (4096 :: int)"
  define a where "a = (top + 4095) div 4096 * 4096"
  from \<open>linear_os ms len = Some p\<close> have p: "p = word_of_int a" and len: "0 < uint len" "a + uint len \<le> 2 ^ 56"
    by (auto simp: linear_os_def Let_def a_def top_def split: if_splits)
  have "4096 \<le> top" unfolding top_def by (rule fold_max_ge)
  moreover have "a = top + 4095 - (top + 4095) mod 4096"
    unfolding a_def by (rule minus_mod_eq_div_mult [symmetric])
  moreover have "(top + 4095) mod 4096 < 4096" by simp
  ultimately have a: "top \<le> a" "4096 \<le> a" "a mod 4096 = 0" by (simp_all add: a_def)
  then have up: "uint p = a" using len by (simp add: p uint_word_of_int)
  have np: "unat p = nat a" using up by (metis unat_eq_nat_uint)
  then have pages: "unat p mod 4096 = 0"
    using a(2,3) by (simp add: nat_mod_as_int)
  have disj: "apart (p, len) r" if "r \<in> set ms" for r
  proof (cases r)
    case (Pair q n)
    with that fold_max_member [of q n ms 4096] have "uint q + uint n \<le> top" by (simp add: top_def)
    with a(1) have "nat (uint q + uint n) \<le> nat a" by simp
    then have "unat q + unat n \<le> nat a" by (simp add: nat_add_distrib)
    then show ?thesis by (simp add: apart_def Pair np)
  qed
  have "p \<noteq> nullptr" using a(2) np by auto
  moreover have "0 < unat len" using len(1) by (metis unat_eq_nat_uint zero_less_nat_eq)
  moreover have "unat p + unat len \<le> 2 ^ 56"
  proof -
    have "nat (a + uint len) \<le> nat (2 ^ 56)" using len(2) by (rule nat_mono)
    then show ?thesis using a(2) np by (simp add: nat_add_distrib)
  qed
  ultimately show "p \<noteq> nullptr \<and> unat p mod 4096 = 0 \<and> 0 < unat len \<and> unat p + unat len \<le> 2 ^ 56 \<and>
      (\<forall>r \<in> set ms. apart (p, len) r)" using pages disj by blast
qed

lemma alloc_inv_empty: "alloc_inv empty_alloc"
  by (simp add: alloc_inv_def)

lemma good_requestI: "\<lbrakk>unat n \<le> 2 ^ 62; k < 21; a = 2 ^ k\<rbrakk> \<Longrightarrow> good_request n a"
  by (auto simp: good_request_def)

text \<open>The overflow test of \<open>StlAllocator::allocate\<close>.\<close>

lemma stl_count_fits:
  assumes "0 < unat (sz :: u64)"
  shows "n \<le> (- 1) div sz \<longleftrightarrow> unat n * unat sz < 2 ^ 64"
proof -
  have "unat ((- 1 :: u64) div sz) = (2 ^ 64 - 1) div unat sz"
    by (simp add: unat_div_distrib unsigned_minus_1_eq_mask mask_eq_exp_minus_1)
  then have "n \<le> (- 1) div sz \<longleftrightarrow> unat n \<le> (2 ^ 64 - 1) div unat sz"
    by (simp add: word_le_nat_alt)
  also have "\<dots> \<longleftrightarrow> unat n * unat sz \<le> 2 ^ 64 - 1"
    using assms by (rule less_eq_div_iff_mult_less_eq)
  also have "\<dots> \<longleftrightarrow> unat n * unat sz < 2 ^ 64" by (simp add: less_Suc_eq_le [symmetric])
  finally show ?thesis .
qed

section \<open>Properties\<close>

text \<open>C9: Every run of specified requests completes, and the blocks it hands out never overlap:
  they are pairwise disjoint and disjoint from everything handed out before the run.\<close>

theorem isolated_blocks_disjoint:
  assumes "os_ok os" and "alloc_inv st" and "\<forall>(n, a) \<in> set reqs. good_request n a"
  shows "\<exists>rs t. arena_run (Allocate os) reqs st = Ret rs t \<and> disjoint_blocks rs \<and> alloc_inv t \<and>
           (\<forall>(p, n) \<in> set rs. span p n \<subseteq> used_bytes t - used_bytes st)"
proof -
  have inv: "os_ok os \<and> alloc_inv st" using assms by simp
  obtain rs t where run: "arena_run (Allocate os) reqs st = Ret rs t"
    using iso.run_total [OF inv assms(3)] by blast
  with iso.run_disjoint [OF inv assms(3) run] iso.run_inv [OF inv assms(3) run]
    iso.run_blocks_fresh [OF inv assms(3) run]
  show ?thesis by blast
qed

lemma isolated_blocks_disjoint_witness:
  "\<exists>rs t. arena_run (Allocate linear_os) [(100, 16), (24, 8), (4000000, 64)] empty_alloc = Ret rs t \<and>
     disjoint_blocks rs \<and> alloc_inv t"
proof -
  have "\<forall>(n, a) \<in> set [(100, 16), (24, 8), (4000000, 64 :: u64)]. good_request n a"
    by (auto intro: good_requestI [where k = 4] good_requestI [where k = 3] good_requestI [where k = 6])
  from isolated_blocks_disjoint [OF linear_os_ok alloc_inv_empty this] show ?thesis by blast
qed

text \<open>C10: \<open>Allocate\<close> among threads that ask for at most \<open>2^62\<close> bytes at an alignment that is a power of two
  up to \<open>2^20\<close>, in every interleaving of the small steps of its body, and wherever threads crash: the blocks granted to
  all threads together are not null, pairwise disjoint and disjoint from everything handed out before; at
  most one thread is inside. As long as no thread has crashed inside, every call can be run
  to its end. A thread that crashes inside holds the mutex from then on, and no other thread
  is ever granted a block again; when its handler asks for a block, its next step is to lock the mutex that it
  holds, which C++ leaves undefined, and no other thread ever does that.\<close>

theorem allocator_threads:
  assumes "os_ok os" and "alloc_inv st"
    and "arena_reach good_request At_Head (alloc_micro os) (arena_start st) s"
  shows "disjoint_blocks (at_granted s) \<and>
    (\<forall>(p, n) \<in> set (at_granted s). p \<noteq> nullptr \<and> span p n \<inter> used_bytes st = {}) \<and>
    (\<forall>i j. holds_mutex (at_pcs s i) \<longrightarrow> holds_mutex (at_pcs s j) \<longrightarrow> i = j) \<and>
    (at_crashed s = {} \<longrightarrow> (\<forall>i. \<exists>t. arena_reach good_request At_Head (alloc_micro os) s t \<and>
       at_pcs t i = A_Idle \<and> at_crashed t = {})) \<and>
    (\<forall>i \<in> at_crashed s. at_holder s = Some i \<and>
       (\<forall>n a. at_pcs s i = A_Wait n a \<longrightarrow>
          arena_step good_request At_Head (alloc_micro os) i s (at_goto i A_Undefined s)) \<and>
       (\<forall>t. arena_reach good_request At_Head (alloc_micro os) s t \<longrightarrow>
          at_holder t = Some i \<and> at_granted t = at_granted s)) \<and>
    (\<forall>i. at_pcs s i = A_Undefined \<longrightarrow> i \<in> at_crashed s)"
proof -
  have inv: "os_ok os \<and> alloc_inv st" using assms(1,2) by simp
  have m: "mutex_ok s" by (rule mutex_ok_reach [OF assms(3) mutex_ok_start])
  have g: "iso_steps.granted_ok os st s" by (rule iso_steps.granted_ok_reach [OF assms(3) inv])
  then have "disjoint_blocks (at_granted s)"
    "\<forall>(p, n) \<in> set (at_granted s). p \<noteq> nullptr \<and> span p n \<inter> used_bytes st = {}"
    by (auto simp: iso_steps.granted_ok_def iso_steps.serial_at_def simp del: span_iff)
  moreover have "i = j" if "holds_mutex (at_pcs s i)" "holds_mutex (at_pcs s j)" for i j
    using only_inside(2) [OF m that(2,1)] .
  moreover have "at_holder s = Some i" if "i \<in> at_crashed s" for i
    using mutex_okD(1) [OF m] that by blast
  moreover have "at_holder t = Some i \<and> at_granted t = at_granted s"
    if "i \<in> at_crashed s" "arena_reach good_request At_Head (alloc_micro os) s t" for i t
    using crashed_reach [OF that(2) m that(1)] mutex_okD(1) [OF mutex_ok_reach [OF that(2) m]] by blast
  ultimately show ?thesis
    using iso_steps.calls_complete [OF g m] mutex_okD(3) [OF m]
    by (intro conjI) (blast intro: arena_step.relock)+
qed

text \<open>Thread 0 crashes between mapping the first block and searching it, while thread 1 waits; its handler then
  asks for a block.\<close>

lemma allocator_threads_witness:
  "\<exists>s. arena_reach good_request At_Head (alloc_micro linear_os) (arena_start empty_alloc) s \<and>
     at_pcs s 1 = A_Wait 24 8 \<and> at_holder s = Some 0 \<and>
     arena_step good_request At_Head (alloc_micro linear_os) 0 s (at_goto 0 A_Undefined s) \<and>
     (\<forall>t. arena_reach good_request At_Head (alloc_micro linear_os) s t \<longrightarrow> at_granted t = at_granted s)"
proof -
  let ?step = "arena_step good_request At_Head (alloc_micro linear_os)"
  let ?reach = "arena_reach good_request At_Head (alloc_micro linear_os) (arena_start empty_alloc)"
  let ?s0 = "arena_start empty_alloc :: (alloc_state, alloc_point) arena_threads"
  let ?s1 = "at_goto 0 (A_Wait 100 16) ?s0"
  let ?s2 = "at_goto 1 (A_Wait 24 8) ?s1"
  let ?s3 = "at_goto 0 (A_Inside 100 16 At_Head) (?s2\<lparr>at_holder := Some 0\<rparr>)"
  have good: "good_request 100 16" "good_request 24 8" "good_request 64 8"
    by (auto intro: good_requestI [where k = 4] good_requestI [where k = 3])
  have "\<exists>t. alloc_micro linear_os 100 16 At_Head empty_alloc = Ret (Inl (At_Block 0)) t"
    by (simp add: ensure_head_def AllocateOSBlock_def linear_os_def Let_def sizeof_Block_def)
  then obtain t where t: "alloc_micro linear_os 100 16 At_Head empty_alloc = Ret (Inl (At_Block 0)) t" ..
  let ?s4 = "at_goto 0 (A_Inside 100 16 (At_Block 0)) (?s3\<lparr>at_state := t\<rparr>)"
  let ?s5 = "at_goto 0 A_Idle (?s4\<lparr>at_crashed := insert 0 (at_crashed ?s4)\<rparr>)"
  let ?s6 = "at_goto 0 (A_Wait 64 8) ?s5"
  have "?step 0 ?s0 ?s1" using good by (intro arena_step.request) (simp_all add: arena_start_def)
  with arena_reach.start have 1: "?reach ?s1" by (rule arena_reach.step)
  have "?step 1 ?s1 ?s2" using good by (intro arena_step.request) (simp_all add: arena_start_def)
  with 1 have 2: "?reach ?s2" by (rule arena_reach.step)
  have "?step 0 ?s2 ?s3" by (rule arena_step.lock) (simp_all add: arena_start_def)
  with 2 have 3: "?reach ?s3" by (rule arena_reach.step)
  have state: "at_state ?s3 = empty_alloc" by (simp add: arena_start_def)
  have "?step 0 ?s3 ?s4" by (rule arena_step.advance) (simp, unfold state, rule t)
  with 3 have 4: "?reach ?s4" by (rule arena_reach.step)
  have "?step 0 ?s4 ?s5" by (rule arena_step.crash_inside) simp
  with 4 have 5: "?reach ?s5" by (rule arena_reach.step)
  have "?step 0 ?s5 ?s6" using good by (intro arena_step.request) simp_all
  with 5 have 6: "?reach ?s6" by (rule arena_reach.step)
  have "0 \<in> at_crashed ?s6" "at_pcs ?s6 0 = A_Wait 64 8" "at_pcs ?s6 1 = A_Wait 24 8"
    by (simp_all add: arena_start_def)
  with allocator_threads [OF linear_os_ok alloc_inv_empty 6] 6 show ?thesis by blast
qed

text \<open>C13: A block returned by \<open>Allocate\<close> for a request of at most \<open>2^62\<close> bytes at an alignment that is a power of
  two up to \<open>2^20\<close> is not null, has the requested alignment, lies in memory
  mapped from the operating system and was not part of anything handed out before; the
  allocator's invariant is kept.\<close>

theorem Allocate_sound:
  assumes "os_ok os" and "alloc_inv st" and "good_request n a" and "Allocate os n a st = Ret p t"
  shows "p \<noteq> nullptr \<and> unat p mod unat a = 0 \<and> span p n \<inter> used_bytes st = {} \<and> alloc_inv t \<and>
         span p n \<subseteq> (\<Union>r \<in> set (maps t). span (fst r) (snd r))"
proof -
  have inv: "os_ok os \<and> alloc_inv st" using assms by simp
  note A = iso.alloc_inv [OF inv assms(3,4)] iso.alloc_fresh [OF inv assms(3,4)]
    iso.alloc_aligned [OF inv assms(3,4)] iso.alloc_nonnull [OF inv assms(3,4)]
  have "used_bytes t \<subseteq> (\<Union>r \<in> set (maps t). span (fst r) (snd r))"
    using A(1) region_span by (fastforce simp: alloc_inv_def used_bytes_def simp del: span_iff)
  with A show ?thesis by blast
qed

lemma Allocate_sound_witness:
  "\<exists>t. Allocate linear_os 100 16 empty_alloc = Ret 4128 t \<and> (4128 :: addr) \<noteq> nullptr \<and>
     span 4128 100 \<subseteq> (\<Union>r \<in> set (maps t). span (fst r) (snd r))"
proof -
  have "\<exists>t. Allocate linear_os 100 16 empty_alloc = Ret 4128 t"
    by (simp add: Allocate_def ensure_head_def AllocateOSBlock_def linear_os_def alloc_in_chain_def
        Let_def try_block_def align_addr_def sizeof_Block_def)
  then obtain t where t: "Allocate linear_os 100 16 empty_alloc = Ret 4128 t" ..
  have "good_request 100 16" by (rule good_requestI [where k = 4]) simp_all
  from Allocate_sound [OF linear_os_ok alloc_inv_empty this t] t show ?thesis by blast
qed

text \<open>C29: \<open>Shutdown\<close> gives back exactly what was mapped: after any sequence of calls on a fresh
  allocator, and whatever they asked for, it unmaps every block and leaves every other
  mapping of the process as it was.\<close>

theorem shutdown_unmaps_everything:
  assumes "os_ok os" and "head_block st = []"
  shows "maps (alloc_Shutdown (fold (alloc_call_step os) calls st)) = maps st \<and>
         head_block (alloc_Shutdown (fold (alloc_call_step os) calls st)) = []"
proof -
  have "owns_maps (maps st) st" using assms(2) by (simp add: owns_maps_def foreign_maps_def)
  from owns_maps_calls [OF assms(1) this, of calls]
  have "maps (alloc_Shutdown (fold (alloc_call_step os) calls st)) = maps st"
    by (simp add: maps_alloc_Shutdown owns_maps_def)
  then show ?thesis by (simp add: alloc_Shutdown_def)
qed

lemma shutdown_unmaps_everything_witness:
  "maps (alloc_Shutdown (fold (alloc_call_step linear_os)
     [CInitialize 0, CAllocate 100 16, CAllocate 9000000 8, CDeallocate 4128 100]
     \<lparr>head_block = [], maps = [(65536, 4096)]\<rparr>)) = [(65536, 4096)]"
  using shutdown_unmaps_everything
    [OF linear_os_ok, of "\<lparr>head_block = [], maps = [(65536, 4096)]\<rparr>"
      "[CInitialize 0, CAllocate 100 16, CAllocate 9000000 8, CDeallocate 4128 100]"]
  by simp

text \<open>C34: \<open>StlAllocator<T>::allocate(n)\<close> when \<open>n * sizeof(T)\<close>, as the code computes it, is at most \<open>2^62\<close> and \<open>alignof(T)\<close> a power of
  two up to \<open>2^20\<close>: if it returns, that byte count is \<open>n * sizeof(T)\<close> without wrap-around, and the
  bytes are fresh and aligned for \<open>T\<close>. A count whose byte size does not fit in \<open>size_t\<close> throws and
  changes nothing. (Between the two bounds the arena can under-allocate: \<open>Allocate_double_wraps\<close>.)\<close>

theorem stl_allocate_sound:
  assumes "os_ok os" and "alloc_inv st" and "0 < unat sz"
  shows "(good_request (n * sz) al \<and> stl_allocate (Allocate os) sz al n st = Ret p t \<longrightarrow>
            unat (n * sz) = unat n * unat sz \<and> unat p mod unat al = 0 \<and> p \<noteq> nullptr \<and>
            span p (n * sz) \<subseteq> used_bytes t - used_bytes st) \<and>
         (2 ^ 64 \<le> unat n * unat sz \<longrightarrow> stl_allocate (Allocate os) sz al n st = Throw st)"
proof -
  have inv: "os_ok os \<and> alloc_inv st" using assms by simp
  have ret: "unat (n * sz) = unat n * unat sz \<and> unat p mod unat al = 0 \<and> p \<noteq> nullptr \<and>
      span p (n * sz) \<subseteq> used_bytes t - used_bytes st"
    if g: "good_request (n * sz) al" and r: "stl_allocate (Allocate os) sz al n st = Ret p t"
  proof -
    have "unat n * unat sz < 2 ^ 64" and a: "Allocate os (n * sz) al st = Ret p t"
      using r stl_count_fits [OF assms(3), of n]
      by (auto simp: stl_allocate_def obind_Ret_iff not_less split: if_splits)
    then have "unat (n * sz) = unat n * unat sz" by (intro unat_mult_nowrap)
    with iso.alloc_aligned [OF inv g a] iso.alloc_nonnull [OF inv g a] iso.alloc_fresh [OF inv g a]
    show ?thesis by blast
  qed
  have "stl_allocate (Allocate os) sz al n st = Throw st" if "2 ^ 64 \<le> unat n * unat sz"
    using that stl_count_fits [OF assms(3), of n] by (simp add: stl_allocate_def not_le)
  with ret show ?thesis by blast
qed

lemma stl_allocate_sound_witness:
  "\<exists>t. stl_allocate (Allocate linear_os) 24 8 3 empty_alloc = Ret 4128 t \<and>
     unat (3 * 24 :: u64) = 72 \<and> span 4128 72 \<subseteq> used_bytes t - used_bytes empty_alloc"
proof -
  have "\<exists>t. stl_allocate (Allocate linear_os) 24 8 3 empty_alloc = Ret 4128 t"
    by (simp add: stl_allocate_def Allocate_def ensure_head_def AllocateOSBlock_def linear_os_def
        alloc_in_chain_def Let_def try_block_def align_addr_def sizeof_Block_def)
  then obtain t where t: "stl_allocate (Allocate linear_os) 24 8 3 empty_alloc = Ret 4128 t" ..
  have g: "good_request (3 * 24) 8" by (rule good_requestI [where k = 3]) simp_all
  from stl_allocate_sound [OF linear_os_ok alloc_inv_empty, of 24 3 8 4128 t] g t
  show ?thesis by auto
qed

text \<open>The size test of \<open>Allocate\<close> wraps around: a request of exactly \<open>2^64 - used\<close> bytes is
  granted from the head block and resets its bump pointer, so that the next request is served
  from memory that is already in use. (The bound of \<open>good_request\<close> excludes it.)\<close>

theorem Allocate_size_test_wraps:
  assumes "head_block st = b # bs" and "n \<le> bk_size b"
  shows "\<exists>t u. Allocate os (- bk_used b) 1 st = Ret (bk_memory b + bk_used b) t \<and>
           Allocate os n 1 t = Ret (bk_memory b) u"
proof -
  have al: "align_addr 1 a = a" for a by (simp add: align_addr_def)
  define t where "t = st\<lparr>head_block := b\<lparr>bk_used := 0\<rparr> # bs\<rparr>"
  have "Allocate os (- bk_used b) 1 st = Ret (bk_memory b + bk_used b) t"
    using assms(1) by (simp add: Allocate_def ensure_head_def alloc_in_chain_def try_block_def al t_def)
  moreover have "\<exists>u. Allocate os n 1 t = Ret (bk_memory b) u"
    using assms(2) by (simp add: Allocate_def ensure_head_def alloc_in_chain_def try_block_def al t_def)
  ultimately show ?thesis by blast
qed

lemma Allocate_size_test_wraps_witness:
  "\<exists>s t u. Allocate linear_os 64 16 empty_alloc = Ret 4128 s \<and>
     Allocate linear_os (- 64) 1 s = Ret 4192 t \<and> Allocate linear_os 64 1 t = Ret 4128 u"
proof -
  define b where "b = \<lparr>bk_base = 4096, bk_memory = 4128, bk_size = 2097152, bk_used = 64\<rparr>"
  define s where "s = \<lparr>head_block = [b], maps = [(4096, 2097184)]\<rparr>"
  have "Allocate linear_os 64 16 empty_alloc = Ret 4128 s"
    by (simp add: Allocate_def ensure_head_def AllocateOSBlock_def linear_os_def alloc_in_chain_def
        Let_def try_block_def align_addr_def sizeof_Block_def s_def b_def)
  with Allocate_size_test_wraps [of s b "[]" 64 linear_os] show ?thesis
    by (simp add: s_def b_def)
qed

text \<open>\<open>size * 2\<close> wraps around as well: for a request of \<open>2^63\<close> bytes that no existing block can
  hold the code maps a new block of only 2 MB, and still returns a pointer as if the request
  fitted in it.\<close>

theorem Allocate_double_wraps:
  assumes "head_block st = [b]" and "block_ok b" and "os (maps st) (2 * 1024 * 1024 + 32) = Some q"
  shows "\<exists>t. Allocate os (2 ^ 63) 1 st = Ret (q + 32) t \<and>
           head_block t = [b, \<lparr>bk_base = q, bk_memory = q + 32, bk_size = 2 * 1024 * 1024,
                             bk_used = 2 ^ 63\<rparr>]"
proof -
  have al: "align_addr 1 a = a" for a by (simp add: align_addr_def)
  note u = block_ok_unat(3,4) [OF assms(2)]
  have "unat (bk_used b + 2 ^ 63) = unat (bk_used b) + 2 ^ 63"
    using u by (subst unat_add_nowrap) simp_all
  with u have "\<not> bk_used b + 2 ^ 63 \<le> bk_size b" by (simp add: word_le_nat_alt)
  with assms(1,3) show ?thesis
    by (simp add: Allocate_def ensure_head_def AllocateOSBlock_def alloc_in_chain_def Let_def
        try_block_def bump_new_def al sizeof_Block_def)
qed

lemma Allocate_double_wraps_witness:
  "\<exists>t. Allocate linear_os (2 ^ 63) 1
      \<lparr>head_block = [\<lparr>bk_base = 4096, bk_memory = 4128, bk_size = 2097152, bk_used = 64\<rparr>],
       maps = [(4096, 2097184)]\<rparr> = Ret 2105376 t"
proof -
  let ?b = "\<lparr>bk_base = 4096, bk_memory = 4128, bk_size = 2097152, bk_used = 64\<rparr>"
  have "linear_os [(4096, 2097184)] (2 * 1024 * 1024 + 32) = Some 2105344"
    by (simp add: linear_os_def)
  moreover have "block_ok ?b" by (simp add: block_ok_def sizeof_Block_def)
  ultimately show ?thesis
    using Allocate_double_wraps [of "\<lparr>head_block = [?b], maps = [(4096, 2097184)]\<rparr>" ?b linear_os 2105344]
    by auto
qed

end
