(* ===== verification/Tracking.thy ===== *)
theory Tracking
  imports Prelude
begin

text \<open>
  The contract between the interposed functions and the tables they feed. Both the allocation
  hooks (address to size) and the IO monitor (descriptor to path) keep a table behind a guard:
  while the guard holds an acquisition stores an entry, a release erases it; otherwise both do
  nothing. The locale \<open>gated_table\<close> proves once what such a table holds after any history of
  calls; \<open>Alloc_Hooks\<close> and \<open>Io_Monitor\<close> interpret it.
\<close>

datatype ('k, 'v) track_event = Acquire 'k 'v | Release 'k

fun event_key :: "('k, 'v) track_event \<Rightarrow> 'k" where
  "event_key (Acquire k v) = k"
| "event_key (Release k) = k"

text \<open>What is outstanding for a key after a history: the value of its last event, if that is an
  acquisition; what was there before (\<open>old\<close>) if the history does not mention the key.\<close>

fun outstanding :: "'v option \<Rightarrow> ('k, 'v) track_event list \<Rightarrow> 'k \<Rightarrow> 'v option" where
  "outstanding old [] k = old"
| "outstanding old (Acquire k' v # es) k = outstanding (if k' = k then Some v else old) es k"
| "outstanding old (Release k' # es) k = outstanding (if k' = k then None else old) es k"

definition apply_event :: "('k \<Rightarrow> 'v \<Rightarrow> 's \<Rightarrow> 's) \<Rightarrow> ('k \<Rightarrow> 's \<Rightarrow> 's) \<Rightarrow> ('k, 'v) track_event \<Rightarrow> 's \<Rightarrow> 's" where
  "apply_event add del e s = (case e of Acquire k v \<Rightarrow> add k v s | Release k \<Rightarrow> del k s)"

definition apply_events ::
  "('k \<Rightarrow> 'v \<Rightarrow> 's \<Rightarrow> 's) \<Rightarrow> ('k \<Rightarrow> 's \<Rightarrow> 's) \<Rightarrow> ('k, 'v) track_event list \<Rightarrow> 's \<Rightarrow> 's" where
  "apply_events add del es s = fold (apply_event add del) es s"

locale gated_table =
  fixes armed :: "'s \<Rightarrow> bool"
    and table :: "'s \<Rightarrow> 'k \<Rightarrow> 'v option"
    and ok_key :: "'k \<Rightarrow> bool"
    and add :: "'k \<Rightarrow> 'v \<Rightarrow> 's \<Rightarrow> 's"
    and del :: "'k \<Rightarrow> 's \<Rightarrow> 's"
  assumes table_add: "table (add k v s) = (if armed s \<and> ok_key k then (table s)(k \<mapsto> v) else table s)"
    and table_del: "table (del k s) = (if armed s \<and> ok_key k then (table s)(k := None) else table s)"
    and armed_add: "armed (add k v s) = armed s"
    and armed_del: "armed (del k s) = armed s"
begin

lemma armed_event: "armed (apply_event add del e s) = armed s"
  by (cases e) (simp_all add: apply_event_def armed_add armed_del)

lemma armed_events: "armed (apply_events add del es s) = armed s"
  unfolding apply_events_def by (induction es arbitrary: s) (simp_all add: armed_event)

text \<open>While the guard holds, the table is exactly what is outstanding.\<close>

lemma table_events:
  assumes "armed s" "ok_key k"
  shows "table (apply_events add del es s) k = outstanding (table s k) es k"
  using assms
proof (induction es arbitrary: s)
  case (Cons e es)
  from Cons.prems have "armed (apply_event add del e s)" by (simp add: armed_event)
  from Cons.IH [OF this Cons.prems(2)] Cons.prems show ?case
    by (cases e) (auto simp: apply_events_def apply_event_def table_add table_del)
qed (simp add: apply_events_def)

text \<open>While it does not hold, nothing changes; keys outside \<open>ok_key\<close> are never touched.\<close>

lemma table_unarmed:
  "\<not> armed s \<Longrightarrow> table (apply_events add del es s) = table s"
proof (induction es arbitrary: s)
  case (Cons e es)
  then have "table (apply_event add del e s) = table s"
    by (cases e) (simp_all add: apply_event_def table_add table_del)
  with Cons show ?case by (simp add: apply_events_def armed_event)
qed (simp add: apply_events_def)

lemma table_bad_key:
  "\<not> ok_key k \<Longrightarrow> table (apply_events add del es s) k = table s k"
proof (induction es arbitrary: s)
  case (Cons e es)
  then have "table (apply_event add del e s) k = table s k"
    by (cases e) (auto simp: apply_event_def table_add table_del)
  with Cons show ?case by (simp add: apply_events_def)
qed (simp add: apply_events_def)

end

text \<open>Facts about \<open>outstanding\<close> that read a history.\<close>

lemma outstanding_append: "outstanding old (es @ fs) k = outstanding (outstanding old es k) fs k"
  by (induction old es k rule: outstanding.induct) simp_all

lemma outstanding_unmentioned: "k \<notin> event_key ` set es \<Longrightarrow> outstanding old es k = old"
  by (induction old es k rule: outstanding.induct) auto

lemma outstanding_last_acquire:
  "k \<notin> event_key ` set later \<Longrightarrow> outstanding old (earlier @ Acquire k v # later) k = Some v"
  by (simp add: outstanding_append outstanding_unmentioned)

lemma outstanding_last_release:
  "k \<notin> event_key ` set later \<Longrightarrow> outstanding old (earlier @ Release k # later) k = None"
  by (simp add: outstanding_append outstanding_unmentioned)

end
