(* ===== verification/Once_Init.thy ===== *)
theory Once_Init
  imports Prelude
begin

text \<open>
  The lazy initialisation that \<open>EnsureInit\<close> (src/memory/linux_alloc_hooks.cpp) and \<open>EnsureIoInit\<close>
  (src/io/linux_io_hooks.cpp) share: two atomic flags and a spin loop. Any number of threads run
  it; a step is one thread executing one atomic access (or the body of the initialiser, which
  only the thread that won the exchange runs). The initialiser is a parameter, and the locale
  \<open>once_init\<close> states what it establishes.
\<close>

section \<open>Threads and steps\<close>

datatype once_pc =
    Enter \<comment> \<open>before \<open>initialized.load()\<close>\<close>
  | Exchange \<comment> \<open>before \<open>initializing.exchange(true)\<close>\<close>
  | Spin \<comment> \<open>in \<open>while (!initialized.load()) {}\<close>\<close>
  | Initing \<comment> \<open>before the call of the initialiser\<close>
  | Publish \<comment> \<open>before \<open>initialized.store(true)\<close>\<close>
  | Left \<comment> \<open>returned\<close>

record 'g once_state =
  initialized :: bool
  initializing :: bool
  globals :: 'g
  inits :: nat \<comment> \<open>how often the initialiser has run\<close>
  pcs :: "nat \<Rightarrow> once_pc"

inductive once_step :: "('g \<Rightarrow> 'g) \<Rightarrow> nat \<Rightarrow> 'g once_state \<Rightarrow> 'g once_state \<Rightarrow> bool"
  for init :: "'g \<Rightarrow> 'g" where
  fast: "\<lbrakk>pcs s i = Enter; initialized s\<rbrakk> \<Longrightarrow> once_step init i s (s\<lparr>pcs := (pcs s)(i := Left)\<rparr>)"
| slow: "\<lbrakk>pcs s i = Enter; \<not> initialized s\<rbrakk> \<Longrightarrow> once_step init i s (s\<lparr>pcs := (pcs s)(i := Exchange)\<rparr>)"
| lost: "\<lbrakk>pcs s i = Exchange; initializing s\<rbrakk> \<Longrightarrow> once_step init i s (s\<lparr>pcs := (pcs s)(i := Spin)\<rparr>)"
| won: "\<lbrakk>pcs s i = Exchange; \<not> initializing s\<rbrakk> \<Longrightarrow>
    once_step init i s (s\<lparr>initializing := True, pcs := (pcs s)(i := Initing)\<rparr>)"
| spin: "\<lbrakk>pcs s i = Spin; \<not> initialized s\<rbrakk> \<Longrightarrow> once_step init i s s"
| seen: "\<lbrakk>pcs s i = Spin; initialized s\<rbrakk> \<Longrightarrow> once_step init i s (s\<lparr>pcs := (pcs s)(i := Left)\<rparr>)"
| run: "pcs s i = Initing \<Longrightarrow>
    once_step init i s (s\<lparr>globals := init (globals s), inits := Suc (inits s), pcs := (pcs s)(i := Publish)\<rparr>)"
| publish: "pcs s i = Publish \<Longrightarrow>
    once_step init i s (s\<lparr>initialized := True, pcs := (pcs s)(i := Left)\<rparr>)"

inductive_cases once_stepE: "once_step init i s t"

definition once_start :: "'g \<Rightarrow> 'g once_state" where
  "once_start g = \<lparr>initialized = False, initializing = False, globals = g, inits = 0, pcs = (\<lambda>_. Enter)\<rparr>"

inductive once_reach :: "('g \<Rightarrow> 'g) \<Rightarrow> 'g \<Rightarrow> 'g once_state \<Rightarrow> bool"
  for init :: "'g \<Rightarrow> 'g" and g :: 'g where
  start: "once_reach init g (once_start g)"
| step: "\<lbrakk>once_reach init g s; once_step init i s t\<rbrakk> \<Longrightarrow> once_reach init g t"

text \<open>A thread that is never interrupted initialises and leaves.\<close>

definition once_solo :: "('g \<Rightarrow> 'g) \<Rightarrow> 'g \<Rightarrow> nat \<Rightarrow> 'g once_state" where
  "once_solo init g i =
     \<lparr>initialized = True, initializing = True, globals = init g, inits = 1, pcs = (\<lambda>_. Enter)(i := Left)\<rparr>"

lemma once_solo_reach: "once_reach init g (once_solo init g i)"
proof -
  have "once_reach init g \<lparr>initialized = False, initializing = False, globals = g, inits = 0,
      pcs = (\<lambda>_. Enter)(i := Exchange)\<rparr>"
    using once_reach.step [OF once_reach.start once_step.slow [of "once_start g" i]]
    by (simp add: once_start_def)
  from once_reach.step [OF this once_step.won [of _ i]]
  have "once_reach init g \<lparr>initialized = False, initializing = True, globals = g, inits = 0,
      pcs = (\<lambda>_. Enter)(i := Initing)\<rparr>"
    by simp
  from once_reach.step [OF this once_step.run [of _ i]]
  have "once_reach init g \<lparr>initialized = False, initializing = True, globals = init g, inits = 1,
      pcs = (\<lambda>_. Enter)(i := Publish)\<rparr>"
    by simp
  from once_reach.step [OF this once_step.publish [of _ i]] show ?thesis
    by (simp add: once_solo_def)
qed

section \<open>The invariant\<close>

definition once_busy :: "once_pc \<Rightarrow> bool" where
  "once_busy pc \<longleftrightarrow> pc = Initing \<or> pc = Publish"

text \<open>Three phases: nobody has won the exchange; thread \<open>j\<close> has won and is initialising; done.\<close>

definition phase_before :: "'g \<Rightarrow> 'g once_state \<Rightarrow> bool" where
  "phase_before g s \<longleftrightarrow>
     \<not> initializing s \<and> \<not> initialized s \<and> inits s = 0 \<and> globals s = g \<and>
     (\<forall>i. pcs s i \<in> {Enter, Exchange})"

definition phase_during :: "('g \<Rightarrow> 'g) \<Rightarrow> 'g \<Rightarrow> nat \<Rightarrow> 'g once_state \<Rightarrow> bool" where
  "phase_during init g j s \<longleftrightarrow>
     initializing s \<and> \<not> initialized s \<and>
     (pcs s j = Initing \<and> inits s = 0 \<and> globals s = g \<or>
      pcs s j = Publish \<and> inits s = 1 \<and> globals s = init g) \<and>
     (\<forall>i. i \<noteq> j \<longrightarrow> pcs s i \<in> {Enter, Exchange, Spin})"

definition phase_after :: "('g \<Rightarrow> 'g) \<Rightarrow> 'g \<Rightarrow> 'g once_state \<Rightarrow> bool" where
  "phase_after init g s \<longleftrightarrow>
     initializing s \<and> initialized s \<and> inits s = 1 \<and> globals s = init g \<and>
     (\<forall>i. \<not> once_busy (pcs s i))"

definition once_inv :: "('g \<Rightarrow> 'g) \<Rightarrow> 'g \<Rightarrow> 'g once_state \<Rightarrow> bool" where
  "once_inv init g s \<longleftrightarrow> phase_before g s \<or> (\<exists>j. phase_during init g j s) \<or> phase_after init g s"

lemma before_pc: "phase_before g s \<Longrightarrow> pcs s i = Enter \<or> pcs s i = Exchange"
  by (simp add: phase_before_def)

lemma during_other: "phase_during init g j s \<Longrightarrow> i \<noteq> j \<Longrightarrow> \<not> once_busy (pcs s i) \<and> pcs s i \<noteq> Left"
  by (auto simp: phase_during_def once_busy_def)

lemma during_owner: "phase_during init g j s \<Longrightarrow> once_busy (pcs s j)"
  by (auto simp: phase_during_def once_busy_def)

lemma once_inv_start: "once_inv init g (once_start g)"
  by (simp add: once_inv_def phase_before_def once_start_def)

lemma step_before:
  assumes "once_step init i s t" "phase_before g s"
  shows "phase_before g t \<or> phase_during init g i t"
proof -
  have "pcs s i \<in> {Enter, Exchange}" using assms(2) by (simp add: phase_before_def)
  with assms show ?thesis
    by (elim once_stepE) (auto simp: phase_before_def phase_during_def)
qed

lemma step_during:
  assumes "once_step init i s t" "phase_during init g j s"
  shows "phase_during init g j t \<or> phase_after init g t"
proof (cases "i = j")
  case True
  with assms show ?thesis
    by (elim once_stepE) (auto simp: phase_during_def phase_after_def once_busy_def)
next
  case False
  then have "pcs s i \<in> {Enter, Exchange, Spin}" using assms(2) by (simp add: phase_during_def)
  with assms False show ?thesis
    by (elim once_stepE) (auto simp: phase_during_def)
qed

lemma step_after:
  assumes "once_step init i s t" "phase_after init g s"
  shows "phase_after init g t"
  using assms by (elim once_stepE) (auto simp: phase_after_def once_busy_def)

lemma once_inv_step: "once_step init i s t \<Longrightarrow> once_inv init g s \<Longrightarrow> once_inv init g t"
  unfolding once_inv_def using step_before step_during step_after by metis

lemma once_reach_inv: "once_reach init g s \<Longrightarrow> once_inv init g s"
  by (induction rule: once_reach.induct) (auto intro: once_inv_start once_inv_step)

section \<open>What EnsureInit guarantees\<close>

text \<open>
  \<open>init\<close> brings the globals into a state that is \<open>ready\<close> for the hooks. Then every thread
  that has returned finds them ready, and the initialiser has run exactly once.
\<close>

locale once_init =
  fixes init :: "'g \<Rightarrow> 'g"
    and g0 :: 'g
    and ready :: "'g \<Rightarrow> bool"
  assumes init_ready: "ready (init g0)"
begin

lemma left_ready:
  assumes "once_reach init g0 s" "pcs s i = Left"
  shows "ready (globals s) \<and> inits s = 1 \<and> initialized s"
proof -
  have "\<not> phase_before g0 s" using before_pc [of g0 s i] assms(2) by auto
  moreover have "\<not> phase_during init g0 j s" for j
    using during_owner [of init g0 j s] during_other [of init g0 j s i] assms(2)
    by (cases "i = j") (auto simp: once_busy_def)
  ultimately have "phase_after init g0 s"
    using once_reach_inv [OF assms(1)] by (simp add: once_inv_def)
  then show ?thesis by (simp add: phase_after_def init_ready)
qed

lemma at_most_once: "once_reach init g0 s \<Longrightarrow> inits s \<le> 1"
  by (drule once_reach_inv) (auto simp: once_inv_def phase_before_def phase_during_def phase_after_def)

lemma one_initialiser:
  assumes "once_reach init g0 s" "once_busy (pcs s i)" "once_busy (pcs s j)"
  shows "i = j"
proof -
  have "\<not> phase_before g0 s" using before_pc [of g0 s i] assms(2) by (auto simp: once_busy_def)
  moreover have "\<not> phase_after init g0 s" using assms(2) by (auto simp: phase_after_def)
  ultimately obtain k where "phase_during init g0 k s"
    using once_reach_inv [OF assms(1)] by (auto simp: once_inv_def)
  with during_other [OF this] assms(2,3) show ?thesis by metis
qed

end

section \<open>Progress\<close>

text \<open>Steps that change the state consume a bounded amount of work, and while a thread has not
  returned some thread can make such a step: the spin loop is never waiting for nobody.\<close>

fun once_work :: "once_pc \<Rightarrow> nat" where
  "once_work Enter = 4"
| "once_work Exchange = 3"
| "once_work Initing = 2"
| "once_work Publish = 1"
| "once_work Spin = 1"
| "once_work Left = 0"

lemma once_step_work:
  assumes "once_step init i s t" "s \<noteq> t"
  shows "once_work (pcs t i) < once_work (pcs s i)" and "k \<noteq> i \<Longrightarrow> pcs t k = pcs s k"
  using assms by (auto elim!: once_stepE)

lemma once_progress:
  assumes "once_reach init g s" "pcs s i \<noteq> Left"
  shows "\<exists>j t. once_step init j s t \<and> s \<noteq> t"
proof -
  have moves: "\<exists>t. once_step init j s t \<and> s \<noteq> t" if "pcs s j \<noteq> Left" "pcs s j = Spin \<Longrightarrow> initialized s" for j
  proof -
    have "\<exists>t. once_step init j s t \<and> pcs t j \<noteq> pcs s j"
      by (cases "pcs s j"; cases "initialized s"; cases "initializing s")
        (use that in \<open>auto intro!: exI once_step.intros\<close>)
    then show ?thesis by metis
  qed
  show ?thesis
  proof (cases "pcs s i = Spin \<and> \<not> initialized s")
    case True
    with before_pc [of g s i] have "\<not> phase_before g s" "\<not> phase_after init g s"
      by (auto simp: phase_after_def)
    with once_reach_inv [OF assms(1)] obtain j where "phase_during init g j s"
      by (auto simp: once_inv_def)
    from during_owner [OF this] moves [of j] show ?thesis by (auto simp: once_busy_def)
  next
    case False
    with moves [of i] assms(2) show ?thesis by blast
  qed
qed

end
