(* ===== verification/Alloc_Hooks.thy ===== *)
theory Alloc_Hooks
  imports Allocator Tracking Once_Init
begin

text \<open>
  The malloc-family interposition on Linux (src/memory/linux_alloc_hooks.cpp): resolution of the
  real functions, the bootstrap buffer that serves \<open>dlsym\<close>, the table of tracked allocations,
  and the six overriding functions.

  What is not in the repository is a parameter, the record \<open>host\<close>: the kernel, \<open>dlsym\<close> (which
  may call back into the hooks and so transforms their state) and the C library's heap
  functions on an abstract heap \<open>'h\<close>. The C library aborting on an invalid pointer is \<open>None\<close>.
  The hash map of tracked allocations is a finite map. \<open>track\<close> is
  \<open>DomovoyCore::GetConfig().enable_leak_detection\<close> at the time of the call.
\<close>

section \<open>State and host\<close>

record 'h hooks =
  real_malloc :: addr
  real_free :: addr
  real_calloc :: addr
  real_realloc :: addr
  real_memalign :: addr
  real_posix_memalign :: addr
  bootstrap_buf :: "u64 \<Rightarrow> 8 word"
  bootstrap_idx :: u64
  in_dlsym :: bool
  hooks_initialized :: bool
  hooks_initializing :: bool
  g_allocations :: "(addr \<Rightarrow> u64 option) option"
  isolated :: alloc_state \<comment> \<open>the \<open>IsolatedAllocator\<close> singleton\<close>
  heap :: 'h

record 'h host =
  host_os :: os_map
  host_dlsym :: "string \<Rightarrow> 'h hooks \<Rightarrow> (addr, 'h hooks) outcome"
  host_bootstrap :: addr \<comment> \<open>the address of \<open>bootstrap_buf\<close>\<close>
  host_map_layout :: "u64 \<times> u64" \<comment> \<open>\<open>sizeof\<close> and \<open>alignof\<close> of \<open>AllocMapType\<close>\<close>
  c_malloc :: "u64 \<Rightarrow> 'h \<Rightarrow> addr \<times> 'h"
  c_free :: "addr \<Rightarrow> 'h \<Rightarrow> 'h option"
  c_calloc :: "u64 \<Rightarrow> u64 \<Rightarrow> 'h \<Rightarrow> addr \<times> 'h"
  c_realloc :: "addr \<Rightarrow> u64 \<Rightarrow> 'h \<Rightarrow> (addr \<times> 'h) option"
  c_memalign :: "u64 \<Rightarrow> u64 \<Rightarrow> 'h \<Rightarrow> addr \<times> 'h"
  c_posix_memalign :: "addr \<Rightarrow> u64 \<Rightarrow> u64 \<Rightarrow> 'h \<Rightarrow> u32 \<times> addr \<times> 'h"
    \<comment> \<open>the result and what \<open>*memptr\<close> holds afterwards\<close>

definition bootstrap_size :: u64 where
  "bootstrap_size = 65536"

section \<open>Initialisation\<close>

definition InitHooks :: "'h host \<Rightarrow> 'h hooks \<Rightarrow> (unit, 'h hooks) outcome" where
  "InitHooks host st =
     obnd (host_dlsym host ''malloc'' (st\<lparr>in_dlsym := True\<rparr>)) (\<lambda>p s.
     obnd (host_dlsym host ''free'' (s\<lparr>real_malloc := p\<rparr>)) (\<lambda>p s.
     obnd (host_dlsym host ''calloc'' (s\<lparr>real_free := p\<rparr>)) (\<lambda>p s.
     obnd (host_dlsym host ''realloc'' (s\<lparr>real_calloc := p\<rparr>)) (\<lambda>p s.
     obnd (host_dlsym host ''memalign'' (s\<lparr>real_realloc := p\<rparr>)) (\<lambda>p s.
     obnd (host_dlsym host ''posix_memalign'' (s\<lparr>real_memalign := p\<rparr>)) (\<lambda>p s.
       let s' = s\<lparr>real_posix_memalign := p, in_dlsym := False\<rparr> in
       obind (Allocate (host_os host) (fst (host_map_layout host)) (snd (host_map_layout host)) (isolated s'))
         (\<lambda>map_memory al. Ret () (s'\<lparr>isolated := al, g_allocations := Some Map.empty\<rparr>))
         (\<lambda>al. s'\<lparr>isolated := al\<rparr>)))))))"

text \<open>\<open>EnsureInit\<close> as one thread sees it: if another thread, or the thread itself further up the stack,
  is initialising, it spins. (The interleaving of threads is the subject of \<open>Once_Init\<close>.)\<close>

definition EnsureInit :: "'h host \<Rightarrow> 'h hooks \<Rightarrow> (unit, 'h hooks) outcome" where
  "EnsureInit host st =
     (if hooks_initialized st then Ret () st
      else if hooks_initializing st then Hang
      else obnd (InitHooks host (st\<lparr>hooks_initializing := True\<rparr>))
             (\<lambda>_ s. Ret () (s\<lparr>hooks_initialized := True\<rparr>)))"

text \<open>The entry point for the core.\<close>

definition domovoy_linux_alloc_hooks_init :: "'h host \<Rightarrow> 'h hooks \<Rightarrow> (unit, 'h hooks) outcome" where
  [simp]: "domovoy_linux_alloc_hooks_init host st = EnsureInit host st"

section \<open>The table\<close>

definition AddAllocation :: "bool \<Rightarrow> addr \<Rightarrow> u64 \<Rightarrow> 'h hooks \<Rightarrow> 'h hooks" where
  "AddAllocation track ptr bytes st =
     (if ptr = nullptr \<or> \<not> track then st
      else case g_allocations st of
        None \<Rightarrow> st
      | Some m \<Rightarrow> st\<lparr>g_allocations := Some (m(ptr \<mapsto> bytes))\<rparr>)"

definition RemoveAllocation :: "bool \<Rightarrow> addr \<Rightarrow> 'h hooks \<Rightarrow> 'h hooks" where
  "RemoveAllocation track ptr st =
     (if ptr = nullptr \<or> \<not> track then st
      else case g_allocations st of
        None \<Rightarrow> st
      | Some m \<Rightarrow> st\<lparr>g_allocations := Some (m(ptr := None))\<rparr>)"

definition tracked :: "'h hooks \<Rightarrow> addr \<Rightarrow> u64 option" where
  "tracked st = (case g_allocations st of None \<Rightarrow> Map.empty | Some m \<Rightarrow> m)"

section \<open>The overriding functions\<close>

definition malloc_hook :: "'h host \<Rightarrow> bool \<Rightarrow> u64 \<Rightarrow> 'h hooks \<Rightarrow> (addr, 'h hooks) outcome" where
  "malloc_hook host track bytes st =
     (if real_malloc st = nullptr \<and> in_dlsym st then
        (if bootstrap_idx st + bytes \<le> bootstrap_size
         then Ret (host_bootstrap host + bootstrap_idx st)
                  (st\<lparr>bootstrap_idx := bootstrap_idx st + bytes\<rparr>)
         else Ret nullptr st)
      else obnd (if real_malloc st = nullptr then EnsureInit host st else Ret () st) (\<lambda>_ s.
        if real_malloc s = nullptr then Undefined
        else let (ptr, h) = c_malloc host bytes (heap s)
             in Ret ptr (AddAllocation track ptr bytes (s\<lparr>heap := h\<rparr>))))"

definition in_bootstrap :: "'h host \<Rightarrow> addr \<Rightarrow> bool" where
  "in_bootstrap host ptr \<longleftrightarrow> ptr \<ge> host_bootstrap host \<and> ptr < host_bootstrap host + bootstrap_size"

definition free_hook :: "'h host \<Rightarrow> bool \<Rightarrow> addr \<Rightarrow> 'h hooks \<Rightarrow> (unit, 'h hooks) outcome" where
  "free_hook host track ptr st =
     (if real_free st = nullptr \<and> in_bootstrap host ptr then Ret () st
      else obnd (if real_free st = nullptr then EnsureInit host st else Ret () st) (\<lambda>_ s.
        let s' = RemoveAllocation track ptr s in
        if real_free s' = nullptr then Undefined
        else case c_free host ptr (heap s') of
          None \<Rightarrow> Undefined
        | Some h \<Rightarrow> Ret () (s'\<lparr>heap := h\<rparr>)))"

text \<open>The zeroing loop of \<open>calloc\<close>: a write past the end of the buffer is out of bounds.\<close>

fun zero_bytes :: "u64 \<Rightarrow> nat \<Rightarrow> (u64 \<Rightarrow> 8 word) \<Rightarrow> (u64 \<Rightarrow> 8 word) option" where
  "zero_bytes off 0 buf = Some buf"
| "zero_bytes off (Suc n) buf =
     (if off < bootstrap_size then zero_bytes (off + 1) n (buf(off := 0)) else None)"

definition calloc_hook :: "'h host \<Rightarrow> bool \<Rightarrow> u64 \<Rightarrow> u64 \<Rightarrow> 'h hooks \<Rightarrow> (addr, 'h hooks) outcome" where
  "calloc_hook host track nmemb bytes st =
     (if real_calloc st = nullptr \<and> in_dlsym st then
        (let total = nmemb * bytes in
         if bootstrap_idx st + total \<le> bootstrap_size
         then (case zero_bytes (bootstrap_idx st) (unat total) (bootstrap_buf st) of
                 None \<Rightarrow> Undefined
               | Some buf \<Rightarrow> Ret (host_bootstrap host + bootstrap_idx st)
                   (st\<lparr>bootstrap_idx := bootstrap_idx st + total, bootstrap_buf := buf\<rparr>))
         else Ret nullptr st)
      else obnd (if real_calloc st = nullptr then EnsureInit host st else Ret () st) (\<lambda>_ s.
        if real_calloc s = nullptr then Undefined
        else let (ptr, h) = c_calloc host nmemb bytes (heap s)
             in Ret ptr (AddAllocation track ptr (nmemb * bytes) (s\<lparr>heap := h\<rparr>))))"

text \<open>\<open>realloc\<close>: the table is updated after the C library has already moved the block.\<close>

definition realloc_finish :: "bool \<Rightarrow> addr \<Rightarrow> u64 \<Rightarrow> addr \<Rightarrow> 'h hooks \<Rightarrow> 'h hooks" where
  "realloc_finish track ptr bytes new_ptr s =
     (let s2 = (if ptr \<noteq> nullptr then RemoveAllocation track ptr s else s)
      in AddAllocation track new_ptr bytes s2)"

definition realloc_hook :: "'h host \<Rightarrow> bool \<Rightarrow> addr \<Rightarrow> u64 \<Rightarrow> 'h hooks \<Rightarrow> (addr, 'h hooks) outcome" where
  "realloc_hook host track ptr bytes st =
     obnd (if real_realloc st = nullptr then EnsureInit host st else Ret () st) (\<lambda>_ s.
       if real_realloc s = nullptr then Undefined
       else case c_realloc host ptr bytes (heap s) of
         None \<Rightarrow> Undefined
       | Some (new_ptr, h) \<Rightarrow> Ret new_ptr (realloc_finish track ptr bytes new_ptr (s\<lparr>heap := h\<rparr>)))"

definition memalign_hook :: "'h host \<Rightarrow> bool \<Rightarrow> u64 \<Rightarrow> u64 \<Rightarrow> 'h hooks \<Rightarrow> (addr, 'h hooks) outcome" where
  "memalign_hook host track alignment bytes st =
     obnd (if real_memalign st = nullptr then EnsureInit host st else Ret () st) (\<lambda>_ s.
       if real_memalign s = nullptr then Undefined
       else let (ptr, h) = c_memalign host alignment bytes (heap s)
            in Ret ptr (AddAllocation track ptr bytes (s\<lparr>heap := h\<rparr>)))"

text \<open>\<open>posix_memalign\<close> returns the error code and what \<open>*memptr\<close> holds.\<close>

definition posix_memalign_hook ::
  "'h host \<Rightarrow> bool \<Rightarrow> addr \<Rightarrow> u64 \<Rightarrow> u64 \<Rightarrow> 'h hooks \<Rightarrow> (u32 \<times> addr, 'h hooks) outcome" where
  "posix_memalign_hook host track memptr alignment bytes st =
     obnd (if real_posix_memalign st = nullptr then EnsureInit host st else Ret () st) (\<lambda>_ s.
       if real_posix_memalign s = nullptr then Undefined
       else let (res, p, h) = c_posix_memalign host memptr alignment bytes (heap s);
                s1 = s\<lparr>heap := h\<rparr>
            in Ret (res, p)
                 (if res = 0 \<and> memptr \<noteq> nullptr \<and> p \<noteq> nullptr
                  then AddAllocation track p bytes s1 else s1))"

section \<open>The allocations handed to the leak detector\<close>

text \<open>The order in which the hash map is iterated is not specified: a parameter.\<close>

definition GetLinuxTrackedAllocations ::
  "((addr \<Rightarrow> u64 option) \<Rightarrow> (addr \<times> u64) list) \<Rightarrow> 'h hooks \<Rightarrow> alloc_record list \<Rightarrow> alloc_record list" where
  "GetLinuxTrackedAllocations iter st out_list =
     (case g_allocations st of
        None \<Rightarrow> out_list
      | Some m \<Rightarrow> out_list @
          map (\<lambda>(p, n). \<lparr>ar_address = p, ar_size = n, ar_marked = False\<rparr>) (iter m))"

definition iter_ok :: "((addr \<Rightarrow> u64 option) \<Rightarrow> (addr \<times> u64) list) \<Rightarrow> bool" where
  "iter_ok iter \<longleftrightarrow> (\<forall>m. finite (dom m) \<longrightarrow> distinct (map fst (iter m)) \<and> map_of (iter m) = m)"

definition fresh_hooks :: "'h \<Rightarrow> 'h hooks" where
  "fresh_hooks h =
     \<lparr>real_malloc = 0, real_free = 0, real_calloc = 0, real_realloc = 0, real_memalign = 0,
      real_posix_memalign = 0, bootstrap_buf = (\<lambda>_. 0), bootstrap_idx = 0, in_dlsym = False,
      hooks_initialized = False, hooks_initializing = False, g_allocations = None,
      isolated = \<lparr>head_block = [], maps = []\<rparr>, heap = h\<rparr>"

section \<open>The table is a gated table\<close>

interpretation alloc_table: gated_table "\<lambda>st. track \<and> g_allocations st \<noteq> None" tracked
    "\<lambda>p. p \<noteq> nullptr" "AddAllocation track" "RemoveAllocation track"
  for track
  by unfold_locales
    (auto simp: tracked_def AddAllocation_def RemoveAllocation_def split: option.splits)

section \<open>What is assumed of the C library\<close>

text \<open>\<open>live h\<close> is the abstract content of the heap: which blocks exist and the size asked for.\<close>

definition allocates :: "('h \<Rightarrow> addr \<Rightarrow> u64 option) \<Rightarrow> 'h \<Rightarrow> u64 \<Rightarrow> addr \<Rightarrow> 'h \<Rightarrow> bool" where
  "allocates live h n p h' \<longleftrightarrow>
     (if p = nullptr then live h' = live h else live h p = None \<and> live h' = (live h)(p \<mapsto> n))"

definition libc_ok :: "'h host \<Rightarrow> ('h \<Rightarrow> addr \<Rightarrow> u64 option) \<Rightarrow> bool" where
  "libc_ok host live \<longleftrightarrow>
     (\<forall>h. live h nullptr = None) \<and>
     (\<forall>n h p h'. c_malloc host n h = (p, h') \<longrightarrow> allocates live h n p h') \<and>
     (\<forall>m n h p h'. c_calloc host m n h = (p, h') \<longrightarrow>
        allocates live h (m * n) p h' \<and> (2 ^ 64 \<le> unat m * unat n \<longrightarrow> p = nullptr)) \<and>
     (\<forall>a n h p h'. c_memalign host a n h = (p, h') \<longrightarrow> allocates live h n p h') \<and>
     (\<forall>mp a n h r p h'. mp \<noteq> nullptr \<and> c_posix_memalign host mp a n h = (r, p, h') \<longrightarrow>
        (if r = 0 then allocates live h n p h' else live h' = live h)) \<and>
     (\<forall>p h. p = nullptr \<or> live h p \<noteq> None \<longrightarrow>
        (\<exists>h'. c_free host p h = Some h' \<and> live h' = (live h)(p := None))) \<and>
     (\<forall>p n h. p = nullptr \<or> live h p \<noteq> None \<longrightarrow>
        (\<exists>q h'. c_realloc host p n h = Some (q, h') \<and>
           (if q = nullptr then live h' = (if p \<noteq> nullptr \<and> n = 0 then (live h)(p := None) else live h)
            else (q = p \<or> live h q = None) \<and> live h' = (live h)(p := None, q \<mapsto> n))))"

definition hooks_ready :: "'h hooks \<Rightarrow> bool" where
  "hooks_ready st \<longleftrightarrow>
     real_malloc st \<noteq> nullptr \<and> real_free st \<noteq> nullptr \<and> real_calloc st \<noteq> nullptr \<and>
     real_realloc st \<noteq> nullptr \<and> real_memalign st \<noteq> nullptr \<and> real_posix_memalign st \<noteq> nullptr \<and>
     g_allocations st \<noteq> None"

section \<open>Programs that use the hooks\<close>

datatype heap_call =
    Malloc u64 | Free addr | Calloc u64 u64 | Realloc addr u64 | Memalign u64 u64
  | PosixMemalign addr u64 u64

text \<open>A call, with the pointer it yields (null for \<open>free\<close>).\<close>

fun hook_call :: "'h host \<Rightarrow> bool \<Rightarrow> heap_call \<Rightarrow> 'h hooks \<Rightarrow> (addr, 'h hooks) outcome" where
  "hook_call host track (Malloc n) st = malloc_hook host track n st"
| "hook_call host track (Free p) st = obnd (free_hook host track p st) (\<lambda>_ s. Ret nullptr s)"
| "hook_call host track (Calloc m n) st = calloc_hook host track m n st"
| "hook_call host track (Realloc p n) st = realloc_hook host track p n st"
| "hook_call host track (Memalign a n) st = memalign_hook host track a n st"
| "hook_call host track (PosixMemalign mp a n) st =
     obnd (posix_memalign_hook host track mp a n st) (\<lambda>(r, p) s. Ret (if r = 0 then p else nullptr) s)"

text \<open>The calls a correct program makes: it frees and reallocates only live blocks.\<close>

fun legal_call :: "(addr \<Rightarrow> u64 option) \<Rightarrow> heap_call \<Rightarrow> bool" where
  "legal_call live (Free p) = (p = nullptr \<or> live p \<noteq> None)"
| "legal_call live (Realloc p n) = (p = nullptr \<or> live p \<noteq> None)"
| "legal_call live (PosixMemalign mp a n) = (mp \<noteq> nullptr)"
| "legal_call live c = True"

fun failed_realloc :: "heap_call \<Rightarrow> addr \<Rightarrow> bool" where
  "failed_realloc (Realloc p n) r = (p \<noteq> nullptr \<and> n \<noteq> 0 \<and> r = nullptr)"
| "failed_realloc c r = False"

text \<open>The states a legal program reaches from a state, with leak detection on or off (\<open>track\<close>); with
  \<open>strict\<close>, without a failed \<open>realloc\<close>.\<close>

inductive hook_reach ::
  "'h host \<Rightarrow> ('h \<Rightarrow> addr \<Rightarrow> u64 option) \<Rightarrow> bool \<Rightarrow> bool \<Rightarrow> 'h hooks \<Rightarrow> 'h hooks \<Rightarrow> bool"
  for host :: "'h host" and live :: "'h \<Rightarrow> addr \<Rightarrow> u64 option" and track :: bool and strict :: bool and st :: "'h hooks" where
  refl: "hook_reach host live track strict st st"
| call: "\<lbrakk>hook_reach host live track strict st s; legal_call (live (heap s)) c;
          hook_call host track c s = Ret r t; strict \<Longrightarrow> \<not> failed_realloc c r\<rbrakk> \<Longrightarrow>
         hook_reach host live track strict st t"

section \<open>Lemmas\<close>

lemma tracked_Add [simp]:
  "hooks_ready st \<Longrightarrow> tracked (AddAllocation True p n st) = (if p = nullptr then tracked st else (tracked st)(p \<mapsto> n))"
  by (auto simp: hooks_ready_def tracked_def AddAllocation_def)

lemma tracked_Remove [simp]:
  "hooks_ready st \<Longrightarrow> tracked (RemoveAllocation True p st) = (if p = nullptr then tracked st else (tracked st)(p := None))"
  by (auto simp: hooks_ready_def tracked_def RemoveAllocation_def)

lemma heap_Add [simp]: "heap (AddAllocation track p n st) = heap st"
  by (simp add: AddAllocation_def split: option.splits)

lemma heap_Remove [simp]: "heap (RemoveAllocation track p st) = heap st"
  by (simp add: RemoveAllocation_def split: option.splits)

lemma ready_Add [simp]: "hooks_ready st \<Longrightarrow> hooks_ready (AddAllocation track p n st)"
  by (auto simp: hooks_ready_def AddAllocation_def)

lemma ready_Remove [simp]: "hooks_ready st \<Longrightarrow> hooks_ready (RemoveAllocation track p st)"
  by (auto simp: hooks_ready_def RemoveAllocation_def)

lemma ready_heap [simp]: "hooks_ready (st\<lparr>heap := h\<rparr>) = hooks_ready st"
  by (simp add: hooks_ready_def)

lemma tracked_heap [simp]: "tracked (st\<lparr>heap := h\<rparr>) = tracked st"
  by (simp add: tracked_def)

lemma real_Remove [simp]: "real_free (RemoveAllocation track p st) = real_free st"
  by (simp add: RemoveAllocation_def split: option.splits)

lemmas ready_defs = hooks_ready_def malloc_hook_def free_hook_def calloc_hook_def realloc_hook_def
  memalign_hook_def posix_memalign_hook_def

text \<open>Once initialised, each hook is the C library's function followed by the table update.\<close>

lemma ready_malloc:
  "hooks_ready st \<Longrightarrow> c_malloc host n (heap st) = (p, h) \<Longrightarrow>
   malloc_hook host track n st = Ret p (AddAllocation track p n (st\<lparr>heap := h\<rparr>))"
  by (simp add: ready_defs)

lemma ready_calloc:
  "hooks_ready st \<Longrightarrow> c_calloc host m n (heap st) = (p, h) \<Longrightarrow>
   calloc_hook host track m n st = Ret p (AddAllocation track p (m * n) (st\<lparr>heap := h\<rparr>))"
  by (simp add: ready_defs)

lemma ready_memalign:
  "hooks_ready st \<Longrightarrow> c_memalign host a n (heap st) = (p, h) \<Longrightarrow>
   memalign_hook host track a n st = Ret p (AddAllocation track p n (st\<lparr>heap := h\<rparr>))"
  by (simp add: ready_defs)

lemma ready_free:
  "hooks_ready st \<Longrightarrow> c_free host p (heap st) = Some h \<Longrightarrow>
   free_hook host track p st = Ret () ((RemoveAllocation track p st)\<lparr>heap := h\<rparr>)"
  by (simp add: ready_defs)

lemma ready_realloc:
  "hooks_ready st \<Longrightarrow> c_realloc host p n (heap st) = Some (q, h) \<Longrightarrow>
   realloc_hook host track p n st =
     Ret q (AddAllocation track q n
       (if p \<noteq> nullptr then RemoveAllocation track p (st\<lparr>heap := h\<rparr>) else st\<lparr>heap := h\<rparr>))"
  by (simp add: ready_defs realloc_finish_def)

lemma ready_posix_memalign:
  "hooks_ready st \<Longrightarrow> mp \<noteq> nullptr \<Longrightarrow> c_posix_memalign host mp a n (heap st) = (r, p, h) \<Longrightarrow>
   posix_memalign_hook host track mp a n st =
     Ret (r, p) (if r = 0 then AddAllocation track p n (st\<lparr>heap := h\<rparr>) else st\<lparr>heap := h\<rparr>)"
  by (auto simp: ready_defs AddAllocation_def Let_def)

text \<open>What a call that yielded \<open>r\<close> means for the set of live blocks.\<close>

fun call_update :: "heap_call \<Rightarrow> addr \<Rightarrow> (addr \<Rightarrow> u64 option) \<Rightarrow> addr \<Rightarrow> u64 option" where
  "call_update (Malloc n) r m = (if r = nullptr then m else m(r \<mapsto> n))"
| "call_update (Free p) r m = (if p = nullptr then m else m(p := None))"
| "call_update (Calloc k n) r m = (if r = nullptr then m else m(r \<mapsto> k * n))"
| "call_update (Realloc p n) r m =
     (if r \<noteq> nullptr then (if p = nullptr then m else m(p := None))(r \<mapsto> n)
      else if p \<noteq> nullptr \<and> n = 0 then m(p := None) else m)"
| "call_update (Memalign a n) r m = (if r = nullptr then m else m(r \<mapsto> n))"
| "call_update (PosixMemalign mp a n) r m = (if r = nullptr then m else m(r \<mapsto> n))"

fun untrack :: "heap_call \<Rightarrow> (addr \<Rightarrow> u64 option) \<Rightarrow> addr \<Rightarrow> u64 option" where
  "untrack (Realloc p n) m = m(p := None)"
| "untrack c m = m"

lemma call_update_mono: "m \<subseteq>\<^sub>m m' \<Longrightarrow> call_update c r m \<subseteq>\<^sub>m call_update c r m'"
  by (cases c) (auto simp: map_le_def)

lemma untrack_le: "m \<subseteq>\<^sub>m m' \<Longrightarrow> untrack c m \<subseteq>\<^sub>m m'"
  by (cases c) (auto simp: map_le_def)

lemma allocates_live: "allocates live h n p h' \<Longrightarrow> live h' = (if p = nullptr then live h else (live h)(p \<mapsto> n))"
  by (simp add: allocates_def)

lemma live_null: "libc_ok host live \<Longrightarrow> (live h)(nullptr := None) = live h"
  by (simp add: libc_ok_def fun_upd_idem_iff)

lemma libc_free:
  "libc_ok host live \<Longrightarrow> p = nullptr \<or> live h p \<noteq> None \<Longrightarrow>
   \<exists>h'. c_free host p h = Some h' \<and> live h' = (live h)(p := None)"
  unfolding libc_ok_def by blast

lemma libc_realloc:
  "libc_ok host live \<Longrightarrow> p = nullptr \<or> live h p \<noteq> None \<Longrightarrow>
   \<exists>q h'. c_realloc host p n h = Some (q, h') \<and>
     (if q = nullptr then live h' = (if p \<noteq> nullptr \<and> n = 0 then (live h)(p := None) else live h)
      else (q = p \<or> live h q = None) \<and> live h' = (live h)(p := None, q \<mapsto> n))"
  unfolding libc_ok_def by blast

lemma libc_posix_memalign:
  assumes "libc_ok host live" "mp \<noteq> nullptr" "c_posix_memalign host mp a n h = (r, p, h')"
  shows "if r = 0 then allocates live h n p h' else live h' = live h"
proof -
  from assms(1) have "\<forall>mp a n h r p h'. mp \<noteq> nullptr \<and> c_posix_memalign host mp a n h = (r, p, h') \<longrightarrow>
        (if r = 0 then allocates live h n p h' else live h' = live h)"
    unfolding libc_ok_def by (elim conjE)
  with assms(2,3) show ?thesis by (elim allE impE) (rule conjI)
qed

lemma failed_realloc_update: "failed_realloc c r \<Longrightarrow> call_update c r m = m"
  by (cases c) simp_all

text \<open>A legal call returns, updates the live blocks by \<open>call_update\<close>, and updates the table in the same
  way, unless it is a failed \<open>realloc\<close>, which drops the block's entry.\<close>

definition call_effect :: "('h \<Rightarrow> addr \<Rightarrow> u64 option) \<Rightarrow> 'h hooks \<Rightarrow> heap_call \<Rightarrow> addr \<Rightarrow> 'h hooks \<Rightarrow> bool" where
  "call_effect live st c r t \<longleftrightarrow>
     hooks_ready t \<and> live (heap t) = call_update c r (live (heap st)) \<and>
     tracked t = (if failed_realloc c r then untrack c (tracked st) else call_update c r (tracked st))"

lemma legal_call_returns:
  assumes ok: "libc_ok host live" and ready: "hooks_ready st" and legal: "legal_call (live (heap st)) c"
  shows "\<exists>r t. hook_call host True c st = Ret r t \<and> call_effect live st c r t"
proof (cases c)
  case (Malloc n)
  obtain p h where c: "c_malloc host n (heap st) = (p, h)" by fastforce
  with ok have "allocates live (heap st) n p h" by (simp add: libc_ok_def)
  from allocates_live [OF this] ready_malloc [OF ready c, of True] Malloc ready show ?thesis
    by (simp add: call_effect_def)
next
  case (Free p)
  with legal have "p = nullptr \<or> live (heap st) p \<noteq> None" by simp
  from libc_free [OF ok this] obtain h where
    c: "c_free host p (heap st) = Some h" "live h = (live (heap st))(p := None)" by blast
  with live_null [OF ok, of "heap st"] ready_free [OF ready c(1), of True] Free ready show ?thesis
    by (cases "p = nullptr") (simp_all add: call_effect_def)
next
  case (Calloc m n)
  obtain p h where c: "c_calloc host m n (heap st) = (p, h)" by fastforce
  with ok have "allocates live (heap st) (m * n) p h" by (simp add: libc_ok_def)
  from allocates_live [OF this] ready_calloc [OF ready c, of True] Calloc ready show ?thesis
    by (simp add: call_effect_def)
next
  case (Realloc p n)
  with legal have "p = nullptr \<or> live (heap st) p \<noteq> None" by simp
  from libc_realloc [OF ok this, of n] obtain q h where c: "c_realloc host p n (heap st) = Some (q, h)"
    and l: "if q = nullptr then live h = (if p \<noteq> nullptr \<and> n = 0 then (live (heap st))(p := None) else live (heap st))
            else (q = p \<or> live (heap st) q = None) \<and> live h = (live (heap st))(p := None, q \<mapsto> n)"
    by blast
  have lv: "live h = call_update (Realloc p n) q (live (heap st))"
    using l live_null [OF ok, of "heap st"] by (cases "q = nullptr"; cases "p = nullptr") simp_all
  define t where "t = AddAllocation True q n
    (if p \<noteq> nullptr then RemoveAllocation True p (st\<lparr>heap := h\<rparr>) else st\<lparr>heap := h\<rparr>)"
  have "heap t = h" "hooks_ready t" using ready by (simp_all add: t_def)
  moreover have "tracked t = (if failed_realloc (Realloc p n) q then untrack (Realloc p n) (tracked st)
      else call_update (Realloc p n) q (tracked st))"
    using ready by (simp add: t_def)
  ultimately have "call_effect live st c q t" using lv Realloc by (simp only: call_effect_def)
  then show ?thesis using ready_realloc [OF ready c, of True, folded t_def] Realloc
    by (metis hook_call.simps(4))
next
  case (Memalign a n)
  obtain p h where c: "c_memalign host a n (heap st) = (p, h)" by fastforce
  with ok have "allocates live (heap st) n p h" by (simp add: libc_ok_def)
  from allocates_live [OF this] ready_memalign [OF ready c, of True] Memalign ready show ?thesis
    by (simp add: call_effect_def)
next
  case (PosixMemalign mp a n)
  obtain r p h where c: "c_posix_memalign host mp a n (heap st) = (r, p, h)" by (metis prod_cases3)
  have mp: "mp \<noteq> nullptr" using legal PosixMemalign by simp
  note law = libc_posix_memalign [OF ok mp c] and R = ready_posix_memalign [OF ready mp c, of True]
  show ?thesis
  proof (cases "r = 0")
    case True
    with law have "allocates live (heap st) n p h" by simp
    from allocates_live [OF this] R PosixMemalign ready True show ?thesis by (simp add: call_effect_def)
  next
    case False
    with law R PosixMemalign ready show ?thesis by (simp add: call_effect_def)
  qed
qed

lemma hook_reach_inv:
  assumes ok: "libc_ok host live" and reach: "hook_reach host live True strict st s"
    and ready: "hooks_ready st" and sub: "tracked st \<subseteq>\<^sub>m live (heap st)"
  shows "hooks_ready s \<and> tracked s \<subseteq>\<^sub>m live (heap s)"
  using reach
proof (induction rule: hook_reach.induct)
  case (call s c r t)
  with legal_call_returns [OF ok, of s c] have "call_effect live s c r t" by auto
  with call.IH call_update_mono [of "tracked s" "live (heap s)" c r] untrack_le [of "tracked s" "live (heap s)" c]
  show ?case
    by (cases "failed_realloc c r") (simp_all add: call_effect_def failed_realloc_update)
qed (use ready sub in simp)

text \<open>The addresses whose entry a call sets or clears. Blocks that were live before tracking began
  (\<open>old\<close>) are not in the table; a call that frees or moves one makes it an ordinary address.\<close>

fun call_keys :: "heap_call \<Rightarrow> addr \<Rightarrow> addr set" where
  "call_keys (Free p) r = (if p = nullptr then {} else {p})"
| "call_keys (Realloc p n) r =
     (if r \<noteq> nullptr then (if p = nullptr then {r} else {p, r})
      else if p \<noteq> nullptr \<and> n = 0 then {p} else {})"
| "call_keys c r = (if r = nullptr then {} else {r})"

lemma call_update_keys: "call_update c r m k = (if k \<in> call_keys c r then call_update c r Map.empty k else m k)"
  by (cases c) auto

lemma call_update_restrict: "call_update c r (m |` (- old)) = call_update c r m |` (- (old - call_keys c r))"
proof
  fix k
  show "call_update c r (m |` (- old)) k = (call_update c r m |` (- (old - call_keys c r))) k"
    using call_update_keys [of c r "m |` (- old)" k] call_update_keys [of c r m k]
    by (cases "k \<in> call_keys c r") (simp_all add: restrict_map_def)
qed

lemma hook_reach_since:
  assumes ok: "libc_ok host live" and reach: "hook_reach host live True True st s"
    and ready: "hooks_ready st" and eq: "tracked st = live (heap st) |` (- old)"
  shows "hooks_ready s \<and>
    (\<exists>rest \<subseteq> old. tracked s = live (heap s) |` (- rest) \<and> (\<forall>p \<in> rest. live (heap s) p = live (heap st) p))"
  using reach
proof (induction rule: hook_reach.induct)
  case (call s c r t)
  with legal_call_returns [OF ok, of s c] have e: "call_effect live s c r t" by auto
  from call.IH obtain rest where rest: "rest \<subseteq> old" "tracked s = live (heap s) |` (- rest)"
    "\<forall>p \<in> rest. live (heap s) p = live (heap st) p" by blast
  let ?rest = "rest - call_keys c r"
  have "tracked t = live (heap t) |` (- ?rest)"
    using e call.hyps rest(2) by (simp add: call_effect_def call_update_restrict)
  moreover have "live (heap t) p = live (heap st) p" if "p \<in> ?rest" for p
    using e rest(3) that call_update_keys [of c r "live (heap s)" p] by (simp add: call_effect_def)
  moreover have "?rest \<subseteq> old" "hooks_ready t" using rest(1) e by (auto simp: call_effect_def)
  ultimately show ?case by blast
qed (use ready eq in auto)

text \<open>The records handed to the leak detector are the table.\<close>

definition record_map :: "alloc_record list \<Rightarrow> addr \<Rightarrow> u64 option" where
  "record_map rs = map_of (map (\<lambda>r. (ar_address r, ar_size r)) rs)"

lemma tracked_records:
  assumes "iter_ok iter" "hooks_ready s"
  defines "rs \<equiv> GetLinuxTrackedAllocations iter s []"
  shows "record_map rs = tracked s" and "distinct (map ar_address rs)"
    and "\<forall>r \<in> set rs. \<not> ar_marked r"
proof -
  obtain m where m: "g_allocations s = Some m" using assms(2) by (auto simp: hooks_ready_def)
  then have t: "tracked s = m" by (simp add: tracked_def)
  have rs: "rs = map (\<lambda>(p, n). \<lparr>ar_address = p, ar_size = n, ar_marked = False\<rparr>) (iter m)"
    by (simp add: rs_def GetLinuxTrackedAllocations_def m)
  have "finite (dom m)" by (rule finite)
  then have it: "distinct (map fst (iter m))" "map_of (iter m) = m"
    using assms(1) by (simp_all add: iter_ok_def)
  show "record_map rs = tracked s"
    using it(2) by (simp add: record_map_def rs t case_prod_beta comp_def)
  show "distinct (map ar_address rs)"
    using it(1) by (simp add: rs case_prod_beta comp_def)
  show "\<forall>r \<in> set rs. \<not> ar_marked r" by (auto simp: rs)
qed

section \<open>The bootstrap buffer is an arena\<close>

definition bootstrapping :: "'h host \<Rightarrow> 'h hooks \<Rightarrow> bool" where
  "bootstrapping host st \<longleftrightarrow>
     real_malloc st = nullptr \<and> in_dlsym st \<and> bootstrap_idx st \<le> bootstrap_size \<and>
     host_bootstrap host \<noteq> nullptr \<and> unat (host_bootstrap host) + 65536 < 2 ^ 64"

text \<open>\<open>malloc\<close> while \<open>dlsym\<close> runs, with its null result read as the failure it reports.\<close>

definition bootstrap_malloc :: "'h host \<Rightarrow> bool \<Rightarrow> u64 \<Rightarrow> u64 \<Rightarrow> 'h hooks \<Rightarrow> (addr, 'h hooks) outcome" where
  "bootstrap_malloc host track n a st =
     obnd (malloc_hook host track n st) (\<lambda>p t. if p = nullptr then Throw t else Ret p t)"

definition bootstrap_good :: "u64 \<Rightarrow> u64 \<Rightarrow> bool" where
  "bootstrap_good n a \<longleftrightarrow> unat n \<le> 2 ^ 63 \<and> a = 1"

lemma bootstrap_malloc_cases:
  assumes "bootstrapping host st" "bootstrap_good n a"
  shows "bootstrap_malloc host track n a st =
     (if unat (bootstrap_idx st) + unat n \<le> 65536
      then Ret (host_bootstrap host + bootstrap_idx st) (st\<lparr>bootstrap_idx := bootstrap_idx st + n\<rparr>)
      else Throw st)"
    and "unat (host_bootstrap host + bootstrap_idx st) = unat (host_bootstrap host) + unat (bootstrap_idx st)"
    and "unat (bootstrap_idx st) + unat n \<le> 65536 \<Longrightarrow> unat (bootstrap_idx st + n) = unat (bootstrap_idx st) + unat n"
proof -
  have idx: "unat (bootstrap_idx st) \<le> 65536"
    using assms(1) by (auto simp: bootstrapping_def bootstrap_size_def word_le_nat_alt)
  have n: "unat n \<le> 2 ^ 63" using assms(2) by (simp add: bootstrap_good_def)
  have sum: "unat (bootstrap_idx st + n) = unat (bootstrap_idx st) + unat n"
    using idx n by (intro unat_add_nowrap) simp
  show base: "unat (host_bootstrap host + bootstrap_idx st) = unat (host_bootstrap host) + unat (bootstrap_idx st)"
    using assms(1) idx by (intro unat_add_nowrap) (simp add: bootstrapping_def)
  have "unat (host_bootstrap host) \<noteq> 0" using assms(1) by (simp add: bootstrapping_def unat_eq_0)
  with base have "host_bootstrap host + bootstrap_idx st \<noteq> nullptr" by auto
  with assms(1) sum show "bootstrap_malloc host track n a st =
     (if unat (bootstrap_idx st) + unat n \<le> 65536
      then Ret (host_bootstrap host + bootstrap_idx st) (st\<lparr>bootstrap_idx := bootstrap_idx st + n\<rparr>)
      else Throw st)"
    by (simp add: bootstrap_malloc_def malloc_hook_def bootstrapping_def bootstrap_size_def word_le_nat_alt)
  show "unat (bootstrap_idx st + n) = unat (bootstrap_idx st) + unat n"
    if "unat (bootstrap_idx st) + unat n \<le> 65536" by (rule sum)
qed

definition bootstrap_used :: "'h host \<Rightarrow> 'h hooks \<Rightarrow> nat set" where
  "bootstrap_used host st = span (host_bootstrap host) (bootstrap_idx st)"

interpretation bootstrap: arena "bootstrapping host" "bootstrap_used host" bootstrap_good
    "bootstrap_malloc host track"
  for host :: "'h host" and track
proof unfold_locales
  fix s t :: "'h hooks" and n a p
  assume s: "bootstrapping host s" and g: "bootstrap_good n a"
  note B = bootstrap_malloc_cases [OF s g]
  {
    assume "bootstrap_malloc host track n a s = Ret p t"
    with B(1) have fit: "unat (bootstrap_idx s) + unat n \<le> 65536"
      and p: "p = host_bootstrap host + bootstrap_idx s"
      and t: "t = s\<lparr>bootstrap_idx := bootstrap_idx s + n\<rparr>"
      by (auto split: if_splits)
    show "bootstrapping host t"
      using s fit B(3) [OF fit] by (simp add: bootstrapping_def t bootstrap_size_def word_le_nat_alt)
    show "bootstrap_used host s \<subseteq> bootstrap_used host t"
      using B(3) [OF fit] by (auto simp: bootstrap_used_def t)
    show "span p n \<subseteq> bootstrap_used host t - bootstrap_used host s"
      using B(3) [OF fit] B(2) by (auto simp: bootstrap_used_def t p)
    show "unat p mod unat a = 0" using g by (simp add: bootstrap_good_def)
    have "unat (host_bootstrap host) \<noteq> 0" using s by (simp add: bootstrapping_def unat_eq_0)
    with B(2) p show "p \<noteq> nullptr" by auto
  }
  show "bootstrapping host t \<and> bootstrap_used host t = bootstrap_used host s"
    if "bootstrap_malloc host track n a s = Throw t"
    using that B(1) s by (auto split: if_splits)
  show "bootstrap_malloc host track n a s \<noteq> Hang \<and> bootstrap_malloc host track n a s \<noteq> Undefined"
    using B(1) by simp
qed

section \<open>Initialisation\<close>

text \<open>What \<open>InitHooks\<close> needs of \<open>dlsym\<close>: it finds the symbol, and the calls it makes to the hooks
  only consume the bootstrap buffer and, once the real functions are known, the heap.\<close>

definition dlsym_ok :: "'h host \<Rightarrow> bool" where
  "dlsym_ok host \<longleftrightarrow>
     (\<forall>name s. \<exists>p i b h. p \<noteq> nullptr \<and>
        host_dlsym host name s = Ret p (s\<lparr>bootstrap_idx := i, bootstrap_buf := b, heap := h\<rparr>))"

text \<open>What \<open>InitHooks\<close> leaves alone until its last step.\<close>

definition same_tables :: "'h hooks \<Rightarrow> 'h hooks \<Rightarrow> bool" where
  "same_tables s t \<longleftrightarrow> isolated t = isolated s \<and> g_allocations t = g_allocations s \<and>
     hooks_initialized t = hooks_initialized s \<and> hooks_initializing t = hooks_initializing s"

lemma InitHooks_result:
  assumes ok: "dlsym_ok host"
  obtains s where "hooks_ready (s\<lparr>g_allocations := Some Map.empty\<rparr>)" "same_tables st s" "\<not> in_dlsym s"
    "InitHooks host st =
       obind (Allocate (host_os host) (fst (host_map_layout host)) (snd (host_map_layout host)) (isolated st))
         (\<lambda>_ al. Ret () (s\<lparr>isolated := al, g_allocations := Some Map.empty\<rparr>))
         (\<lambda>al. s\<lparr>isolated := al\<rparr>)"
proof -
  have D: "\<exists>p i b h. p \<noteq> nullptr \<and>
      host_dlsym host name s = Ret p (s\<lparr>bootstrap_idx := i, bootstrap_buf := b, heap := h\<rparr>)" for name s
    using ok by (simp add: dlsym_ok_def)
  obtain p1 i1 b1 h1 where 1: "p1 \<noteq> nullptr" "host_dlsym host ''malloc'' (st\<lparr>in_dlsym := True\<rparr>) =
      Ret p1 (st\<lparr>in_dlsym := True, bootstrap_idx := i1, bootstrap_buf := b1, heap := h1\<rparr>)" (is "_ = Ret _ ?s1")
    using D by fastforce
  obtain p2 i2 b2 h2 where 2: "p2 \<noteq> nullptr" "host_dlsym host ''free'' (?s1\<lparr>real_malloc := p1\<rparr>) =
      Ret p2 (?s1\<lparr>real_malloc := p1, bootstrap_idx := i2, bootstrap_buf := b2, heap := h2\<rparr>)" (is "_ = Ret _ ?s2")
    using D by fastforce
  obtain p3 i3 b3 h3 where 3: "p3 \<noteq> nullptr" "host_dlsym host ''calloc'' (?s2\<lparr>real_free := p2\<rparr>) =
      Ret p3 (?s2\<lparr>real_free := p2, bootstrap_idx := i3, bootstrap_buf := b3, heap := h3\<rparr>)" (is "_ = Ret _ ?s3")
    using D by fastforce
  obtain p4 i4 b4 h4 where 4: "p4 \<noteq> nullptr" "host_dlsym host ''realloc'' (?s3\<lparr>real_calloc := p3\<rparr>) =
      Ret p4 (?s3\<lparr>real_calloc := p3, bootstrap_idx := i4, bootstrap_buf := b4, heap := h4\<rparr>)" (is "_ = Ret _ ?s4")
    using D by fastforce
  obtain p5 i5 b5 h5 where 5: "p5 \<noteq> nullptr" "host_dlsym host ''memalign'' (?s4\<lparr>real_realloc := p4\<rparr>) =
      Ret p5 (?s4\<lparr>real_realloc := p4, bootstrap_idx := i5, bootstrap_buf := b5, heap := h5\<rparr>)" (is "_ = Ret _ ?s5")
    using D by fastforce
  obtain p6 i6 b6 h6 where 6: "p6 \<noteq> nullptr" "host_dlsym host ''posix_memalign'' (?s5\<lparr>real_memalign := p5\<rparr>) =
      Ret p6 (?s5\<lparr>real_memalign := p5, bootstrap_idx := i6, bootstrap_buf := b6, heap := h6\<rparr>)" (is "_ = Ret _ ?s6")
    using D by fastforce
  let ?s = "?s6\<lparr>real_posix_memalign := p6, in_dlsym := False\<rparr>"
  show thesis
  proof (rule that [of ?s])
    show "hooks_ready (?s\<lparr>g_allocations := Some Map.empty\<rparr>)"
      using 1 2 3 4 5 6 by (simp add: hooks_ready_def)
    show "InitHooks host st =
       obind (Allocate (host_os host) (fst (host_map_layout host)) (snd (host_map_layout host)) (isolated st))
         (\<lambda>_ al. Ret () (?s\<lparr>isolated := al, g_allocations := Some Map.empty\<rparr>))
         (\<lambda>al. ?s\<lparr>isolated := al\<rparr>)"
      unfolding InitHooks_def 1(2) 2(2) 3(2) 4(2) 5(2) 6(2) obind.simps Let_def by simp
  qed (simp_all add: same_tables_def)
qed

end
