(* ===== verification/Alloc_Hooks_Correct.thy ===== *)
theory Alloc_Hooks_Correct
  imports Alloc_Hooks
begin

text \<open>
  What the allocation hooks of \<open>Alloc_Hooks\<close> guarantee: initialisation under any interleaving of
  threads, the agreement of the tracking table with the C library's heap, the bootstrap buffer,
  and the situations in which the code loses or invents a block. \<open>demo_host\<close> is a concrete host
  on which the properties are instantiated.
\<close>

section \<open>Initialisation by many threads\<close>

definition init_globals :: "'h host \<Rightarrow> 'h hooks \<Rightarrow> 'h hooks" where
  "init_globals host g = final_state (InitHooks host g) g"

definition init_succeeds :: "'h host \<Rightarrow> 'h hooks \<Rightarrow> bool" where
  "init_succeeds host g \<longleftrightarrow> dlsym_ok host \<and> (\<exists>t. InitHooks host g = Ret () t)"

lemma InitHooks_ready:
  assumes "dlsym_ok host" "InitHooks host st = Ret () t"
  shows "hooks_ready t \<and> tracked t = Map.empty \<and> \<not> in_dlsym t"
proof -
  obtain s where s: "hooks_ready (s\<lparr>g_allocations := Some Map.empty\<rparr>)" "\<not> in_dlsym s"
    and r: "InitHooks host st =
       obind (Allocate (host_os host) (fst (host_map_layout host)) (snd (host_map_layout host)) (isolated st))
         (\<lambda>_ al. Ret () (s\<lparr>isolated := al, g_allocations := Some Map.empty\<rparr>))
         (\<lambda>al. s\<lparr>isolated := al\<rparr>)"
    by (rule InitHooks_result [OF assms(1)])
  from trans [OF r [symmetric] assms(2)] obtain al where "t = s\<lparr>isolated := al, g_allocations := Some Map.empty\<rparr>"
    by (auto simp: obind_Ret_iff)
  with s show ?thesis by (simp add: hooks_ready_def tracked_def)
qed

interpretation hooks_once: once_init "init_globals host" g0
    "\<lambda>g. init_succeeds host g0 \<longrightarrow> hooks_ready g \<and> tracked g = Map.empty"
  for host :: "'h host" and g0
  by unfold_locales (auto simp: init_succeeds_def init_globals_def InitHooks_ready)

lemma InitHooks_outcome:
  assumes "dlsym_ok host" "os_ok (host_os host)" "alloc_inv (isolated st)"
    "good_request (fst (host_map_layout host)) (snd (host_map_layout host))"
  shows "(\<exists>t. InitHooks host st = Ret () t \<and> hooks_ready t \<and> tracked t = Map.empty) \<or>
         (\<exists>t. InitHooks host st = Throw t \<and> same_tables (st\<lparr>isolated := isolated t\<rparr>) t)"
proof -
  obtain s where s: "same_tables st s"
    and r: "InitHooks host st =
       obind (Allocate (host_os host) (fst (host_map_layout host)) (snd (host_map_layout host)) (isolated st))
         (\<lambda>_ al. Ret () (s\<lparr>isolated := al, g_allocations := Some Map.empty\<rparr>))
         (\<lambda>al. s\<lparr>isolated := al\<rparr>)" (is "_ = obind ?a _ _")
    by (rule InitHooks_result [OF assms(1)])
  have "?a \<noteq> Hang \<and> ?a \<noteq> Undefined" using assms by (intro iso.alloc_total) simp
  then show ?thesis
  proof (cases ?a)
    case (Ret p al)
    with r have "InitHooks host st = Ret () (s\<lparr>isolated := al, g_allocations := Some Map.empty\<rparr>)" by simp
    with InitHooks_ready [OF assms(1) this] show ?thesis by blast
  next
    case (Throw al)
    with r s show ?thesis by (simp add: same_tables_def)
  qed simp_all
qed

section \<open>A concrete host\<close>

text \<open>A heap that hands out increasing addresses, from the block at the given next address on.\<close>

type_synonym demo_heap = "(addr \<Rightarrow> u64 option) \<times> addr"

definition demo_live :: "demo_heap \<Rightarrow> addr \<Rightarrow> u64 option" where
  "demo_live h = (fst h)(nullptr := None)"

definition demo_alloc :: "u64 \<Rightarrow> demo_heap \<Rightarrow> addr \<times> demo_heap" where
  "demo_alloc n h =
     (if snd h = nullptr \<or> fst h (snd h) \<noteq> None \<or> n > 1000000 then (nullptr, h)
      else (snd h, (fst h)(snd h \<mapsto> n), snd h + n + 16))"

definition demo_free :: "addr \<Rightarrow> demo_heap \<Rightarrow> demo_heap option" where
  "demo_free p h =
     (if p = nullptr then Some h
      else if fst h p = None then None else Some ((fst h)(p := None), snd h))"

definition demo_realloc :: "addr \<Rightarrow> u64 \<Rightarrow> demo_heap \<Rightarrow> (addr \<times> demo_heap) option" where
  "demo_realloc p n h =
     (if p = nullptr then Some (demo_alloc n h)
      else if fst h p = None then None
      else if n = 0 then Some (nullptr, (fst h)(p := None), snd h)
      else let (q, h') = demo_alloc n h
           in Some (if q = nullptr then (nullptr, h) else (q, (fst h')(p := None), snd h')))"

definition demo_host :: "demo_heap host" where
  "demo_host =
     \<lparr>host_os = linear_os, host_dlsym = (\<lambda>name s. Ret 1 s), host_bootstrap = 65536,
      host_map_layout = (1024, 8), c_malloc = demo_alloc, c_free = demo_free,
      c_calloc = (\<lambda>m n h. if 2 ^ 64 \<le> unat m * unat n then (nullptr, h) else demo_alloc (m * n) h),
      c_realloc = demo_realloc, c_memalign = (\<lambda>a n h. demo_alloc n h),
      c_posix_memalign = (\<lambda>mp a n h. case demo_alloc n h of (p, h') \<Rightarrow>
        (if p = nullptr then 12 else 0, p, h'))\<rparr>"

lemma demo_alloc_allocates: "demo_alloc n h = (p, h') \<Longrightarrow> allocates demo_live h n p h'"
  by (auto simp: demo_alloc_def allocates_def demo_live_def fun_eq_iff split: if_splits)

lemma demo_alloc_null: "demo_alloc n h = (nullptr, h') \<Longrightarrow> h' = h"
  by (auto simp: demo_alloc_def split: if_splits)

lemma demo_live_upd: "q \<noteq> nullptr \<Longrightarrow> demo_live (m(q := v), a) = (demo_live (m, b))(q := v)"
  by (simp add: demo_live_def fun_upd_twist)

lemma demo_free_ok:
  assumes "p = nullptr \<or> demo_live h p \<noteq> None"
  shows "\<exists>h'. demo_free p h = Some h' \<and> demo_live h' = (demo_live h)(p := None)"
proof (cases "p = nullptr")
  case False
  obtain m a where h: "h = (m, a)" by (cases h)
  from False assms h have "demo_free p h = Some (m(p := None), a)" by (auto simp: demo_free_def demo_live_def)
  with demo_live_upd [OF False, of m None a a] h show ?thesis by simp
qed (simp add: demo_free_def demo_live_def)

lemma demo_realloc_ok:
  assumes "p = nullptr \<or> demo_live h p \<noteq> None"
  shows "\<exists>q h'. demo_realloc p n h = Some (q, h') \<and>
     (if q = nullptr then demo_live h' = (if p \<noteq> nullptr \<and> n = 0 then (demo_live h)(p := None) else demo_live h)
      else (q = p \<or> demo_live h q = None) \<and> demo_live h' = (demo_live h)(p := None, q \<mapsto> n))"
proof -
  obtain q h' where a: "demo_alloc n h = (q, h')" using surj_pair [of "demo_alloc n h"] by blast
  note A = demo_alloc_allocates [OF this, unfolded allocates_def]
  obtain m b where h: "h = (m, b)" by (cases h)
  show ?thesis
  proof (cases "p = nullptr")
    case True
    with a A show ?thesis by (auto simp: demo_realloc_def demo_live_def fun_eq_iff split: if_splits)
  next
    case False
    with assms have live: "m p \<noteq> None" by (simp add: demo_live_def h)
    consider "n = 0" | "n \<noteq> 0" "q = nullptr" | "n \<noteq> 0" "q \<noteq> nullptr" by blast
    then show ?thesis
    proof cases
      case 1
      with False live have "demo_realloc p n h = Some (nullptr, m(p := None), b)"
        by (auto simp: demo_realloc_def h)
      with demo_live_upd [OF False, of m None b b] 1 False h show ?thesis by simp
    next
      case 2
      with False live a have "demo_realloc p n h = Some (nullptr, h)" by (auto simp: demo_realloc_def h)
      with 2 False show ?thesis by simp
    next
      case 3
      with False live a have "demo_realloc p n h = Some (q, (fst h')(p := None), snd h')"
        by (auto simp: demo_realloc_def h)
      moreover have "demo_live ((fst h')(p := None), snd h') = (demo_live h')(p := None)"
        using demo_live_upd [OF False, of "fst h'" None "snd h'" "snd h'"] by simp
      moreover have "demo_live h q = None" "demo_live h' = (demo_live h)(q \<mapsto> n)" using A 3 by simp_all
      moreover have "q \<noteq> p" using calculation(3) False live by (auto simp: demo_live_def h)
      ultimately show ?thesis using 3 by (simp add: fun_upd_twist)
    qed
  qed
qed

lemma demo_libc_ok: "libc_ok demo_host demo_live"
  unfolding libc_ok_def
proof (intro conjI allI impI)
  fix m n h p h'
  assume c: "c_calloc demo_host m n h = (p, h')"
  then show "allocates demo_live h (m * n) p h'"
    by (auto simp: demo_host_def allocates_def dest!: demo_alloc_allocates split: if_splits)
  assume "2 ^ 64 \<le> unat m * unat n"
  with c show "p = nullptr" by (simp add: demo_host_def)
next
  fix p h
  assume "p = nullptr \<or> demo_live h p \<noteq> None"
  from demo_free_ok [OF this]
  show "\<exists>h'. c_free demo_host p h = Some h' \<and> demo_live h' = (demo_live h)(p := None)"
    by (simp add: demo_host_def)
next
  fix p n h
  assume "p = nullptr \<or> demo_live h p \<noteq> None"
  from demo_realloc_ok [OF this, of n] show "\<exists>q h'. c_realloc demo_host p n h = Some (q, h') \<and>
     (if q = nullptr then demo_live h' = (if p \<noteq> nullptr \<and> n = 0 then (demo_live h)(p := None) else demo_live h)
      else (q = p \<or> demo_live h q = None) \<and> demo_live h' = (demo_live h)(p := None, q \<mapsto> n))"
    by (simp add: demo_host_def)
next
  fix mp a n h r p h'
  assume "mp \<noteq> nullptr \<and> c_posix_memalign demo_host mp a n h = (r, p, h')"
  then have c: "demo_alloc n h = (p, h')" "r = (if p = nullptr then 12 else 0)"
    by (auto simp: demo_host_def split: prod.splits)
  from demo_alloc_allocates [OF c(1)] c(2)
  show "if r = 0 then allocates demo_live h n p h' else demo_live h' = demo_live h"
    by (auto simp: allocates_def)
qed (auto simp: demo_host_def demo_live_def dest: demo_alloc_allocates)

lemma demo_dlsym_ok: "dlsym_ok demo_host"
proof -
  have "host_dlsym demo_host name s =
      Ret 1 (s\<lparr>bootstrap_idx := bootstrap_idx s, bootstrap_buf := bootstrap_buf s, heap := heap s\<rparr>)"
    for name s
    by (simp add: demo_host_def)
  moreover have "(1 :: addr) \<noteq> nullptr" by simp
  ultimately show ?thesis unfolding dlsym_ok_def by blast
qed

lemma libc_ok_realloc:
  assumes "libc_ok host live"
    and "\<And>p n h. p = nullptr \<or> live h p \<noteq> None \<Longrightarrow> \<exists>q h'. R p n h = Some (q, h') \<and>
       (if q = nullptr then live h' = (if p \<noteq> nullptr \<and> n = 0 then (live h)(p := None) else live h)
        else (q = p \<or> live h q = None) \<and> live h' = (live h)(p := None, q \<mapsto> n))"
  shows "libc_ok (host\<lparr>c_realloc := R\<rparr>) live"
proof -
  have R: "\<forall>p n h. p = nullptr \<or> live h p \<noteq> None \<longrightarrow> (\<exists>q h'. R p n h = Some (q, h') \<and>
       (if q = nullptr then live h' = (if p \<noteq> nullptr \<and> n = 0 then (live h)(p := None) else live h)
        else (q = p \<or> live h q = None) \<and> live h' = (live h)(p := None, q \<mapsto> n)))"
    using assms(2) by blast
  show ?thesis
    using assms(1) R unfolding libc_ok_def
    by (cases host, hypsubst_thin, unfold host.simps, elim conjE) (intro conjI; assumption)
qed

text \<open>Initialised hooks over an empty heap.\<close>

definition demo_hooks :: "demo_heap hooks" where
  "demo_hooks = (fresh_hooks (Map.empty, 4096))
     \<lparr>real_malloc := 1, real_free := 1, real_calloc := 1, real_realloc := 1, real_memalign := 1,
      real_posix_memalign := 1, hooks_initialized := True, hooks_initializing := True,
      g_allocations := Some Map.empty\<rparr>"

lemma demo_hooks_ready: "hooks_ready demo_hooks"
  by (simp add: hooks_ready_def demo_hooks_def fresh_hooks_def)

lemma demo_hooks_exact: "tracked demo_hooks = demo_live (heap demo_hooks)"
  by (simp add: tracked_def demo_hooks_def fresh_hooks_def demo_live_def)

text \<open>An iteration order: by address.\<close>

definition demo_iter :: "(addr \<Rightarrow> u64 option) \<Rightarrow> (addr \<times> u64) list" where
  "demo_iter m = map (\<lambda>k. (k, the (m k))) (sorted_list_of_set (dom m))"

lemma demo_iter_ok: "iter_ok demo_iter"
  unfolding iter_ok_def
proof (intro allI impI)
  fix m :: "addr \<Rightarrow> u64 option"
  assume fin: "finite (dom m)"
  have "map_of (demo_iter m) k = m k" for k
    using fin by (cases "m k") (auto simp: demo_iter_def map_of_map_restrict restrict_map_def)
  then show "distinct (map fst (demo_iter m)) \<and> map_of (demo_iter m) = m"
    using fin by (auto simp: demo_iter_def comp_def)
qed

text \<open>The state \<open>demo_hooks\<close> after \<open>malloc(100)\<close>.\<close>

definition demo_one :: "demo_heap hooks" where
  "demo_one = demo_hooks\<lparr>g_allocations := Some [4096 \<mapsto> 100], heap := ([4096 \<mapsto> 100], 4212)\<rparr>"

lemma demo_one_call: "hook_call demo_host True (Malloc 100) demo_hooks = Ret 4096 demo_one"
  by (simp add: malloc_hook_def demo_hooks_def fresh_hooks_def demo_host_def demo_alloc_def
      AddAllocation_def demo_one_def)

lemma demo_one_reach: "hook_reach demo_host demo_live True strict demo_hooks demo_one"
  by (rule hook_reach.call [OF hook_reach.refl _ demo_one_call]) simp_all

lemma demo_one_ready: "hooks_ready demo_one"
  by (simp add: demo_one_def hooks_ready_def demo_hooks_def fresh_hooks_def)

lemma demo_one_maps:
  "tracked demo_one = [4096 \<mapsto> 100]" "demo_live (heap demo_one) = [4096 \<mapsto> 100]"
  by (simp_all add: demo_one_def tracked_def demo_live_def fun_upd_twist)

text \<open>Initialisation on the demo host.\<close>

lemma demo_layout: "good_request (fst (host_map_layout demo_host)) (snd (host_map_layout demo_host))"
  by (rule good_requestI [where k = 3]) (simp_all add: demo_host_def)

lemma demo_os_ok: "os_ok (host_os demo_host)"
  by (simp add: demo_host_def linear_os_ok)

lemma demo_Allocate: "\<exists>al. Allocate (host_os demo_host) (fst (host_map_layout demo_host))
    (snd (host_map_layout demo_host)) \<lparr>head_block = [], maps = []\<rparr> = Ret 4128 al"
  by (simp add: demo_host_def Allocate_def ensure_head_def AllocateOSBlock_def linear_os_def
      alloc_in_chain_def Let_def try_block_def align_addr_def sizeof_Block_def)

lemma demo_InitHooks: "\<exists>t. InitHooks demo_host (fresh_hooks h) = Ret () t"
proof -
  obtain s where "InitHooks demo_host (fresh_hooks h) =
       obind (Allocate (host_os demo_host) (fst (host_map_layout demo_host)) (snd (host_map_layout demo_host))
           (isolated (fresh_hooks h)))
         (\<lambda>_ al. Ret () (s\<lparr>isolated := al, g_allocations := Some Map.empty\<rparr>))
         (\<lambda>al. s\<lparr>isolated := al\<rparr>)"
    by (rule InitHooks_result [OF demo_dlsym_ok])
  moreover have "isolated (fresh_hooks h) = \<lparr>head_block = [], maps = []\<rparr>" by (simp add: fresh_hooks_def)
  ultimately show ?thesis using demo_Allocate by auto
qed

text \<open>The bootstrap buffer: zeroing, and what happens at its end.\<close>

lemma zero_bytes_in:
  "unat off + n \<le> 65536 \<Longrightarrow>
   zero_bytes off n buf = Some (\<lambda>i. if off \<le> i \<and> unat i < unat off + n then 0 else buf i)"
proof (induction n arbitrary: off buf)
  case 0
  then show ?case by (auto simp: word_le_nat_alt fun_eq_iff)
next
  case (Suc n)
  have next_off: "unat (off + 1) = unat off + 1" using Suc.prems by (subst unat_add_nowrap) simp_all
  have inside: "off < bootstrap_size" using Suc.prems by (simp add: bootstrap_size_def word_less_nat_alt)
  have eq: "(if off + 1 \<le> i \<and> unat i < unat (off + 1) + n then 0 else (buf(off := 0)) i) =
      (if off \<le> i \<and> unat i < unat off + Suc n then 0 else buf i)" for i
    using next_off by (auto simp: word_le_nat_alt word_unat_eq_iff)
  have "zero_bytes (off + 1) n (buf(off := 0)) =
      Some (\<lambda>i. if off + 1 \<le> i \<and> unat i < unat (off + 1) + n then 0 else (buf(off := 0)) i)"
    by (rule Suc.IH) (use Suc.prems next_off in simp)
  with inside show ?case unfolding zero_bytes.simps eq by (rule trans [OF if_P])
qed

lemma zero_bytes_out: "65536 < unat off + n \<Longrightarrow> unat off \<le> 65536 \<Longrightarrow> zero_bytes off n buf = None"
proof (induction n arbitrary: off buf)
  case (Suc n)
  show ?case
  proof (cases "off < bootstrap_size")
    case True
    then have "unat (off + 1) = unat off + 1"
      by (subst unat_add_nowrap) (simp_all add: bootstrap_size_def word_less_nat_alt)
    with Suc True show ?thesis by (simp add: bootstrap_size_def word_less_nat_alt)
  qed simp
qed simp

definition demo_bootstrapping :: "demo_heap hooks" where
  "demo_bootstrapping = (fresh_hooks (Map.empty, 4096))\<lparr>in_dlsym := True, bootstrap_idx := 100\<rparr>"

lemma demo_bootstrapping_ok: "bootstrapping demo_host demo_bootstrapping"
  by (simp add: bootstrapping_def demo_bootstrapping_def fresh_hooks_def demo_host_def bootstrap_size_def)

section \<open>Properties\<close>

text \<open>C1: The leak detector sees exactly the heap: let \<open>old\<close> be the blocks that were already live when
  tracking began (after \<open>Init\<close>, with an empty table: all of them). After any sequence of calls a
  correct program can make (\<open>malloc\<close>, \<open>free\<close>, \<open>calloc\<close>, \<open>realloc\<close>, \<open>memalign\<close>, \<open>posix_memalign\<close>, failing
  allocations included, but no failing \<open>realloc\<close>), the records handed to the leak detector are the
  live blocks of the C library with the sizes asked for, each once and unmarked, except for those
  of the old blocks that have stayed as they were.\<close>

theorem enumerated_are_live:
  assumes "libc_ok host live" and "iter_ok iter" and "hooks_ready st"
    and "tracked st = live (heap st) |` (- old)"
    and "hook_reach host live True True st s"
  shows "(\<exists>rest \<subseteq> old. record_map (GetLinuxTrackedAllocations iter s []) = live (heap s) |` (- rest) \<and>
            (\<forall>p \<in> rest. live (heap s) p = live (heap st) p)) \<and>
         distinct (map ar_address (GetLinuxTrackedAllocations iter s [])) \<and>
         (\<forall>r \<in> set (GetLinuxTrackedAllocations iter s []). \<not> ar_marked r)"
  using hook_reach_since [OF assms(1,5,3,4)] tracked_records [OF assms(2), of s] by simp

text \<open>A program that had a block of 10 bytes before tracking began, and then allocates 100.\<close>

definition demo_late :: "demo_heap hooks" where
  "demo_late = demo_hooks\<lparr>heap := ([2048 \<mapsto> 10], 4096)\<rparr>"

definition demo_later :: "demo_heap hooks" where
  "demo_later = demo_late\<lparr>g_allocations := Some [4096 \<mapsto> 100], heap := ([2048 \<mapsto> 10, 4096 \<mapsto> 100], 4212)\<rparr>"

lemma demo_later_reach: "hook_reach demo_host demo_live True strict demo_late demo_later"
proof -
  have "hook_call demo_host True (Malloc 100) demo_late = Ret 4096 demo_later"
    by (simp add: malloc_hook_def demo_late_def demo_later_def demo_hooks_def fresh_hooks_def demo_host_def
        demo_alloc_def AddAllocation_def)
  then show ?thesis by (rule hook_reach.call [OF hook_reach.refl, rotated]) simp_all
qed

lemma enumerated_are_live_witness:
  "\<exists>rest \<subseteq> {2048}. record_map (GetLinuxTrackedAllocations demo_iter demo_later []) =
     [2048 \<mapsto> 10, 4096 \<mapsto> 100] |` (- rest)"
proof -
  have ready: "hooks_ready demo_late" by (simp add: demo_late_def demo_hooks_ready)
  have "tracked demo_late = demo_live (heap demo_late) |` (- {2048})"
    by (auto simp: tracked_def demo_late_def demo_hooks_def fresh_hooks_def demo_live_def restrict_map_def fun_eq_iff)
  from enumerated_are_live [OF demo_libc_ok demo_iter_ok ready this demo_later_reach]
  have "\<exists>rest \<subseteq> {2048}. record_map (GetLinuxTrackedAllocations demo_iter demo_later []) =
      demo_live (heap demo_later) |` (- rest)" by blast
  moreover have "demo_live (heap demo_later) = [2048 \<mapsto> 10, 4096 \<mapsto> 100]"
    by (simp add: demo_later_def demo_live_def fun_eq_iff)
  ultimately show ?thesis by simp
qed

text \<open>C22: No false leak: also with failing \<open>realloc\<close>s every call a correct program makes returns, and
  every record handed to the leak detector is a live block with its size.\<close>

theorem calls_return_without_false_leaks:
  assumes "libc_ok host live" and "iter_ok iter" and "hooks_ready st"
    and "tracked st \<subseteq>\<^sub>m live (heap st)"
    and "hook_reach host live True False st s" and "legal_call (live (heap s)) c"
  shows "\<exists>r t. hook_call host True c s = Ret r t \<and>
           record_map (GetLinuxTrackedAllocations iter t []) \<subseteq>\<^sub>m live (heap t)"
proof -
  have s: "hooks_ready s" using hook_reach_inv [OF assms(1,5,3,4)] by simp
  from legal_call_returns [OF assms(1) s assms(6)] obtain r t where
    c: "hook_call host True c s = Ret r t" by blast
  have reach: "hook_reach host live True False st t"
    using hook_reach.call [OF assms(5,6) c] by simp
  have t: "hooks_ready t" "tracked t \<subseteq>\<^sub>m live (heap t)"
    using hook_reach_inv [OF assms(1) reach assms(3,4)] by simp_all
  from tracked_records(1) [OF assms(2) t(1)] t(2) c show ?thesis by auto
qed

lemma calls_return_without_false_leaks_witness:
  "\<exists>r t. hook_call demo_host True (Realloc 4096 (2 ^ 40)) demo_one = Ret r t \<and>
     record_map (GetLinuxTrackedAllocations demo_iter t []) \<subseteq>\<^sub>m demo_live (heap t)"
  using calls_return_without_false_leaks [OF demo_libc_ok demo_iter_ok demo_hooks_ready _
      demo_one_reach, of "Realloc 4096 (2 ^ 40)"]
  by (simp add: demo_one_maps demo_hooks_exact)

text \<open>A \<open>realloc\<close> that fails leaves the block alive but removes its record: from then on
  the block can leak without being reported.\<close>

theorem failed_realloc_loses_block:
  assumes "libc_ok host live" and "hooks_ready st" and "live (heap st) p = Some k" and "n \<noteq> 0"
    and "c_realloc host p n (heap st) = Some (nullptr, h)"
  shows "\<exists>t. realloc_hook host True p n st = Ret nullptr t \<and> live (heap t) p = Some k \<and> tracked t p = None"
proof -
  have p: "p \<noteq> nullptr" using assms(1,3) by (auto simp: libc_ok_def)
  have "live h = live (heap st)"
    using libc_realloc [OF assms(1), of p "heap st" n] assms(3,4,5) by auto
  with ready_realloc [OF assms(2,5), of True] p assms(2,3) show ?thesis by simp
qed

lemma failed_realloc_loses_block_witness:
  "\<exists>t. realloc_hook demo_host True 4096 (2 ^ 40) demo_one = Ret nullptr t \<and>
     demo_live (heap t) 4096 = Some 100 \<and> tracked t 4096 = None"
proof -
  have "c_realloc demo_host 4096 (2 ^ 40) (heap demo_one) = Some (nullptr, heap demo_one)"
    by (simp add: demo_host_def demo_realloc_def demo_one_def demo_alloc_def)
  from failed_realloc_loses_block [OF demo_libc_ok demo_one_ready _ _ this, of 100]
  show ?thesis by (simp add: demo_one_maps)
qed


text \<open>The \<open>realloc\<close> race: while one thread is between the C library's \<open>realloc\<close> and its table
  update, another thread can be given the freed address; the first thread's
  \<open>RemoveAllocation\<close> then erases the second thread's record of a live block.\<close>

theorem realloc_race_loses_block:
  assumes "libc_ok host live" and "hooks_ready st"
    and "c_realloc host p n (heap st) = Some (q, h)" and "p \<noteq> nullptr" and "q \<noteq> p"
    and "c_malloc host m h = (p, h')"
  shows "\<exists>u. malloc_hook host True m (st\<lparr>heap := h\<rparr>) = Ret p u \<and>
           live (heap (realloc_finish True p n q u)) p = Some m \<and>
           tracked (realloc_finish True p n q u) p = None"
proof -
  have ready: "hooks_ready (st\<lparr>heap := h\<rparr>)" using assms(2) by simp
  have "allocates live h m p h'" using assms(1,6) by (simp add: libc_ok_def)
  with ready_malloc [OF ready, of host m p h' True] assms(2,4,5,6) show ?thesis
    by (simp add: realloc_finish_def allocates_def)
qed

text \<open>A host whose \<open>realloc\<close> moves a block and whose \<open>malloc\<close> hands the address out again.\<close>

definition moving_realloc :: "addr \<Rightarrow> u64 \<Rightarrow> demo_heap \<Rightarrow> (addr \<times> demo_heap) option" where
  "moving_realloc p n h =
     (if p = 4096 \<and> n = 200 \<and> h = ([4096 \<mapsto> 100], 4212) then Some (8192, ([8192 \<mapsto> 200], 4096))
      else demo_realloc p n h)"

definition moving_host :: "demo_heap host" where
  "moving_host = demo_host\<lparr>c_realloc := moving_realloc\<rparr>"

lemma moving_libc_ok: "libc_ok moving_host demo_live"
  unfolding moving_host_def
proof (rule libc_ok_realloc [OF demo_libc_ok])
  fix p n h assume a: "p = nullptr \<or> demo_live h p \<noteq> None"
  show "\<exists>q h'. moving_realloc p n h = Some (q, h') \<and>
     (if q = nullptr then demo_live h' = (if p \<noteq> nullptr \<and> n = 0 then (demo_live h)(p := None) else demo_live h)
      else (q = p \<or> demo_live h q = None) \<and> demo_live h' = (demo_live h)(p := None, q \<mapsto> n))"
  proof (cases "p = 4096 \<and> n = 200 \<and> h = ([4096 \<mapsto> 100], 4212)")
    case True
    then show ?thesis by (auto simp: moving_realloc_def demo_live_def fun_eq_iff)
  next
    case False
    then have "moving_realloc p n h = demo_realloc p n h" by (auto simp: moving_realloc_def)
    with demo_realloc_ok [OF a, of n] show ?thesis by simp
  qed
qed

lemma moving_steps:
  "c_realloc moving_host 4096 200 ([4096 \<mapsto> 100], 4212) = Some (8192, ([8192 \<mapsto> 200], 4096))"
  "c_malloc moving_host 50 ([8192 \<mapsto> 200], 4096) = (4096, ([8192 \<mapsto> 200, 4096 \<mapsto> 50], 4162))"
  by (simp_all add: moving_host_def moving_realloc_def demo_host_def demo_alloc_def)

lemma realloc_race_loses_block_witness:
  "\<exists>u. malloc_hook moving_host True 50 (demo_one\<lparr>heap := ([8192 \<mapsto> 200], 4096)\<rparr>) = Ret 4096 u \<and>
       demo_live (heap (realloc_finish True 4096 200 8192 u)) 4096 = Some 50 \<and>
       tracked (realloc_finish True 4096 200 8192 u) 4096 = None"
proof -
  have "heap demo_one = ([4096 \<mapsto> 100], 4212)" by (simp add: demo_one_def)
  then show ?thesis
    using realloc_race_loses_block [OF moving_libc_ok demo_one_ready, of 4096 200 8192 "([8192 \<mapsto> 200], 4096)" 50]
      moving_steps by simp
qed

text \<open>The table is what is outstanding: after any sequence of \<open>AddAllocation\<close> and
  \<open>RemoveAllocation\<close> calls an address is in it with the size of its last call, if that was an
  \<open>AddAllocation\<close>; with leak detection off the calls change nothing, so that blocks freed
  meanwhile stay recorded.\<close>

theorem table_is_outstanding:
  "(g_allocations st \<noteq> None \<and> p \<noteq> nullptr \<longrightarrow>
      tracked (apply_events (AddAllocation True) (RemoveAllocation True) es st) p =
        outstanding (tracked st p) es p) \<and>
   tracked (apply_events (AddAllocation False) (RemoveAllocation False) es st) = tracked st"
  using alloc_table.table_events [of True st p es] alloc_table.table_unarmed [of False st es] by simp

lemma table_is_outstanding_witness:
  "tracked (apply_events (AddAllocation True) (RemoveAllocation True)
     [Acquire 8 100, Release 4096, Acquire 8 200] demo_one) 8 = Some 200"
  using table_is_outstanding [of demo_one 8 "[Acquire 8 100, Release 4096, Acquire 8 200]"]
  by (simp add: demo_one_def)

text \<open>C14: Initialisation among threads: in every interleaving the initialiser runs at most once, a
  thread that has returned from \<open>EnsureInit\<close> finds all six real functions and the table in
  place, and as long as some thread has not returned some thread can make progress.\<close>

theorem EnsureInit_threads:
  assumes "dlsym_ok host" and "InitHooks host g = Ret () g'" and "once_reach (init_globals host) g s"
  shows "inits s \<le> 1 \<and>
         (\<forall>i. pcs s i = Left \<longrightarrow> hooks_ready (globals s) \<and> tracked (globals s) = Map.empty) \<and>
         (\<forall>i j. once_busy (pcs s i) \<longrightarrow> once_busy (pcs s j) \<longrightarrow> i = j) \<and>
         (\<forall>i. pcs s i \<noteq> Left \<longrightarrow> (\<exists>j t. once_step (init_globals host) j s t \<and> s \<noteq> t))"
proof -
  have "init_succeeds host g" using assms(1,2) by (simp add: init_succeeds_def)
  with hooks_once.left_ready [OF assms(3)] hooks_once.at_most_once [OF assms(3)]
    hooks_once.one_initialiser [OF assms(3)] once_progress [OF assms(3)]
  show ?thesis by blast
qed

lemma EnsureInit_threads_witness:
  "\<exists>s :: demo_heap hooks once_state. pcs s 5 = Left \<and> hooks_ready (globals s) \<and> inits s \<le> 1"
proof -
  obtain t where t: "InitHooks demo_host (fresh_hooks (Map.empty, 4096)) = Ret () t"
    using demo_InitHooks by blast
  have "pcs (once_solo (init_globals demo_host) (fresh_hooks (Map.empty, 4096)) 5) 5 = Left"
    by (simp add: once_solo_def)
  with EnsureInit_threads [OF demo_dlsym_ok t once_solo_reach [of _ _ 5]] show ?thesis by blast
qed

text \<open>C37: If the arena cannot map memory for the table, \<open>EnsureInit\<close> throws through the C
  interface it was called from and leaves \<open>hooks_initializing\<close> set: every later \<open>EnsureInit\<close>
  spins forever. Otherwise it returns with the hooks in place.\<close>

theorem EnsureInit_outcome:
  assumes "dlsym_ok host" and "os_ok (host_os host)" and "alloc_inv (isolated st)"
    and "good_request (fst (host_map_layout host)) (snd (host_map_layout host))"
    and "\<not> hooks_initialized st" and "\<not> hooks_initializing st"
  shows "(\<exists>t. EnsureInit host st = Ret () t \<and> hooks_ready t \<and> tracked t = Map.empty \<and>
            EnsureInit host t = Ret () t) \<or>
         (\<exists>t. EnsureInit host st = Throw t \<and> EnsureInit host t = Hang)"
proof -
  have "(\<exists>t. InitHooks host (st\<lparr>hooks_initializing := True\<rparr>) = Ret () t \<and> hooks_ready t \<and> tracked t = Map.empty) \<or>
    (\<exists>t. InitHooks host (st\<lparr>hooks_initializing := True\<rparr>) = Throw t \<and>
       same_tables (st\<lparr>hooks_initializing := True, isolated := isolated t\<rparr>) t)"
    using InitHooks_outcome [OF assms(1,2), of "st\<lparr>hooks_initializing := True\<rparr>"] assms(3,4) by simp
  then show ?thesis
  proof (elim disjE exE conjE)
    fix t assume t: "InitHooks host (st\<lparr>hooks_initializing := True\<rparr>) = Ret () t" "hooks_ready t" "tracked t = Map.empty"
    then have "EnsureInit host st = Ret () (t\<lparr>hooks_initialized := True\<rparr>)"
      using assms(5,6) by (simp add: EnsureInit_def)
    with t show ?thesis by (simp add: hooks_ready_def tracked_def EnsureInit_def)
  next
    fix t assume t: "InitHooks host (st\<lparr>hooks_initializing := True\<rparr>) = Throw t"
      "same_tables (st\<lparr>hooks_initializing := True, isolated := isolated t\<rparr>) t"
    then have "EnsureInit host st = Throw t" using assms(5,6) by (simp add: EnsureInit_def)
    moreover have "EnsureInit host t = Hang"
      using t(2) assms(5) by (simp add: same_tables_def EnsureInit_def)
    ultimately show ?thesis by blast
  qed
qed


lemma EnsureInit_outcome_witness:
  "\<exists>t. EnsureInit demo_host (fresh_hooks (Map.empty, 4096)) = Ret () t \<and> hooks_ready t"
proof -
  let ?st = "fresh_hooks (Map.empty, 4096) :: demo_heap hooks"
  have "isolated ?st = \<lparr>head_block = [], maps = []\<rparr>" by (simp add: fresh_hooks_def)
  then have "alloc_inv (isolated ?st)" by (simp add: alloc_inv_def)
  from EnsureInit_outcome [OF demo_dlsym_ok demo_os_ok this demo_layout]
  consider t where "EnsureInit demo_host ?st = Ret () t" "hooks_ready t"
    | t where "EnsureInit demo_host ?st = Throw t"
    by (auto simp: fresh_hooks_def)
  then show ?thesis
  proof cases
    case (2 t)
    obtain s where "InitHooks demo_host (?st\<lparr>hooks_initializing := True\<rparr>) =
       obind (Allocate (host_os demo_host) (fst (host_map_layout demo_host)) (snd (host_map_layout demo_host))
           (isolated (?st\<lparr>hooks_initializing := True\<rparr>)))
         (\<lambda>_ al. Ret () (s\<lparr>isolated := al, g_allocations := Some Map.empty\<rparr>))
         (\<lambda>al. s\<lparr>isolated := al\<rparr>)"
      by (rule InitHooks_result [OF demo_dlsym_ok])
    with 2 demo_Allocate show ?thesis by (auto simp: EnsureInit_def fresh_hooks_def)
  qed blast
qed

text \<open>The bootstrap buffer is an arena: while \<open>dlsym\<close> runs before \<open>malloc\<close> is known, any sequence
  of requests is served without fault by pairwise disjoint pieces inside the buffer, or by null.\<close>

theorem bootstrap_blocks_disjoint:
  assumes "bootstrapping host st" and "\<forall>(n, a) \<in> set reqs. bootstrap_good n a"
  shows "\<exists>rs t. arena_run (bootstrap_malloc host track) reqs st = Ret rs t \<and> disjoint_blocks rs \<and>
           (\<forall>(p, n) \<in> set rs. span p n \<subseteq> span (host_bootstrap host) bootstrap_size)"
proof -
  obtain rs t where run: "arena_run (bootstrap_malloc host track) reqs st = Ret rs t"
    using bootstrap.run_total [OF assms] by blast
  have t: "bootstrapping host t" using bootstrap.run_inv [OF assms run] by simp
  then have "bootstrap_used host t \<subseteq> span (host_bootstrap host) bootstrap_size"
    by (auto simp: bootstrap_used_def bootstrapping_def word_le_nat_alt)
  with bootstrap.run_blocks_fresh [OF assms run] bootstrap.run_disjoint [OF assms run] run show ?thesis by blast
qed

lemma bootstrap_blocks_disjoint_witness:
  "\<exists>rs t. arena_run (bootstrap_malloc demo_host True) [(32, 1), (70000, 1), (64, 1)] demo_bootstrapping = Ret rs t \<and>
     disjoint_blocks rs"
proof -
  have "\<forall>(n, a) \<in> set [(32, 1), (70000, 1), (64, 1)]. bootstrap_good n a" by (simp add: bootstrap_good_def)
  from bootstrap_blocks_disjoint [OF demo_bootstrapping_ok this] show ?thesis by blast
qed

text \<open>\<open>calloc\<close> while \<open>dlsym\<close> runs: a request that fits returns the next piece of the buffer,
  zeroed, and changes no byte outside that piece.\<close>

theorem bootstrap_calloc_zeroed:
  assumes "bootstrapping host st" and "real_calloc st = nullptr"
    and "unat (bootstrap_idx st) + unat m * unat n \<le> 65536"
  shows "\<exists>t. calloc_hook host track m n st = Ret (host_bootstrap host + bootstrap_idx st) t \<and>
     unat (bootstrap_idx t) = unat (bootstrap_idx st) + unat m * unat n \<and>
     (\<forall>i. bootstrap_buf t i = (if bootstrap_idx st \<le> i \<and> i < bootstrap_idx t then 0 else bootstrap_buf st i))"
proof -
  have total: "unat (m * n) = unat m * unat n" using assms(3) by (intro unat_mult_nowrap) simp
  with assms(3) have idx: "unat (bootstrap_idx st + m * n) = unat (bootstrap_idx st) + unat m * unat n"
    by (subst unat_add_nowrap) simp_all
  note zero_bytes_in [of "bootstrap_idx st" "unat m * unat n" "bootstrap_buf st", OF assms(3)]
  with assms total idx show ?thesis
    by (simp add: calloc_hook_def bootstrapping_def bootstrap_size_def word_le_nat_alt word_less_nat_alt)
qed

lemma bootstrap_calloc_zeroed_witness:
  "\<exists>t. calloc_hook demo_host True 4 25 demo_bootstrapping = Ret 65636 t \<and> unat (bootstrap_idx t) = 200"
  using bootstrap_calloc_zeroed [OF demo_bootstrapping_ok, of 4 25 True]
  by (auto simp: demo_bootstrapping_def fresh_hooks_def demo_host_def)

text \<open>The bound test of the bootstrap buffer wraps around: a request of \<open>2^64 - bootstrap_idx\<close>
  bytes is granted and resets the index, so that the next request is served from the start of
  the buffer again; the same request to \<open>calloc\<close> writes past the end of the buffer.\<close>

theorem bootstrap_test_wraps:
  assumes "bootstrapping host st" and "real_calloc st = nullptr" and "0 < bootstrap_idx st" and "n \<le> bootstrap_size"
  shows "(\<exists>t u. malloc_hook host track (- bootstrap_idx st) st = Ret (host_bootstrap host + bootstrap_idx st) t \<and>
            malloc_hook host track n t = Ret (host_bootstrap host) u) \<and>
         calloc_hook host track 1 (- bootstrap_idx st) st = Undefined"
proof -
  have idx: "unat (bootstrap_idx st) \<le> 65536" "0 < unat (bootstrap_idx st)"
    using assms(1,3) by (auto simp: bootstrapping_def bootstrap_size_def word_le_nat_alt word_less_nat_alt)
  have "unat (- bootstrap_idx st) = 2 ^ 64 - unat (bootstrap_idx st)"
    using idx unat_sub_if' [of 0 "bootstrap_idx st"] by simp
  with idx have "zero_bytes (bootstrap_idx st) (unat (- bootstrap_idx st)) (bootstrap_buf st) = None"
    by (intro zero_bytes_out) simp_all
  with assms show ?thesis
    by (simp add: malloc_hook_def calloc_hook_def bootstrapping_def bootstrap_size_def)
qed

lemma bootstrap_test_wraps_witness:
  "(\<exists>t u. malloc_hook demo_host True (- 100) demo_bootstrapping = Ret 65636 t \<and>
      malloc_hook demo_host True 50 t = Ret 65536 u) \<and>
   calloc_hook demo_host True 1 (- 100) demo_bootstrapping = Undefined"
  using bootstrap_test_wraps [OF demo_bootstrapping_ok, of 50 True]
  by (simp add: demo_bootstrapping_def fresh_hooks_def demo_host_def bootstrap_size_def)

text \<open>Only \<open>malloc\<close>, \<open>calloc\<close> and the \<open>free\<close> of a bootstrap block are prepared for being called
  while the hooks initialise: a \<open>realloc\<close>, a \<open>memalign\<close> or the \<open>free\<close> of any other pointer by
  \<open>dlsym\<close> waits for the initialisation it is part of, forever; and a bootstrap block freed after
  initialisation goes to the C library's \<open>free\<close>, which does not know it.\<close>

theorem unprepared_reentry:
  assumes "hooks_initializing st" and "\<not> hooks_initialized st" and "\<not> in_bootstrap host p"
    and "hooks_ready s" and "c_free host b (heap s) = None" and "in_bootstrap host b"
  shows "(real_realloc st = nullptr \<longrightarrow> realloc_hook host track p n st = Hang) \<and>
         (real_memalign st = nullptr \<longrightarrow> memalign_hook host track a n st = Hang) \<and>
         (real_free st = nullptr \<longrightarrow> free_hook host track p st = Hang \<and> free_hook host track b st = Ret () st) \<and>
         free_hook host track b s = Undefined"
  using assms by (simp add: realloc_hook_def memalign_hook_def free_hook_def EnsureInit_def hooks_ready_def)

lemma unprepared_reentry_witness:
  "free_hook demo_host True 4096 ((fresh_hooks (Map.empty, 4096))\<lparr>hooks_initializing := True\<rparr>) = Hang \<and>
   free_hook demo_host True 65600 demo_hooks = Undefined"
  using unprepared_reentry [of "(fresh_hooks (Map.empty, 4096))\<lparr>hooks_initializing := True\<rparr>" demo_host 4096
      demo_hooks 65600 True 0 0] demo_hooks_ready
  by (simp add: fresh_hooks_def in_bootstrap_def demo_host_def bootstrap_size_def demo_free_def demo_hooks_def)

end
