(* ===== verification/Texts.thy ===== *)
theory Texts
  imports Prelude
begin

text \<open>
  Strings as the C++ code passes them on: a \<open>std::string\<close> read as a C string, and which byte strings are
  UTF-8 (RFC 3629), which \<open>nlohmann::json\<close> demands when it serialises a document.
\<close>

section \<open>C strings\<close>

definition c_str :: "string \<Rightarrow> string" where
  "c_str s = takeWhile (\<lambda>c. c \<noteq> CHR 0x00) s"

section \<open>UTF-8\<close>

text \<open>\<open>after_char\<close> is what follows the first character of a text, \<open>None\<close> if the text does not begin with a
  well-formed one.\<close>

definition byte_in :: "nat \<Rightarrow> nat \<Rightarrow> char \<Rightarrow> bool" where
  "byte_in lo hi c \<longleftrightarrow> lo \<le> (of_char c :: nat) \<and> (of_char c :: nat) \<le> hi"

fun continued :: "nat \<Rightarrow> string \<Rightarrow> string option" where
  "continued 0 s = Some s"
| "continued (Suc n) [] = None"
| "continued (Suc n) (c # cs) = (if byte_in 128 191 c then continued n cs else None)"

definition second_byte :: "nat \<Rightarrow> nat \<Rightarrow> nat \<Rightarrow> string \<Rightarrow> string option" where
  "second_byte lo hi n s = (case s of [] \<Rightarrow> None | c # cs \<Rightarrow> if byte_in lo hi c then continued n cs else None)"

definition after_char :: "char \<Rightarrow> string \<Rightarrow> string option" where
  "after_char c s =
     (if byte_in 0 127 c then Some s
      else if byte_in 194 223 c then second_byte 128 191 0 s
      else if byte_in 224 224 c then second_byte 160 191 1 s
      else if byte_in 237 237 c then second_byte 128 159 1 s
      else if byte_in 225 239 c then second_byte 128 191 1 s
      else if byte_in 240 240 c then second_byte 144 191 2 s
      else if byte_in 241 243 c then second_byte 128 191 2 s
      else if byte_in 244 244 c then second_byte 128 143 2 s
      else None)"

lemma continued_shorter: "continued n s = Some t \<Longrightarrow> length t \<le> length s"
  by (induction n s rule: continued.induct) (auto split: if_splits)

lemma after_char_shorter: "after_char c s = Some t \<Longrightarrow> length t \<le> length s"
  using continued_shorter
  by (fastforce simp: after_char_def second_byte_def split: if_splits list.splits)

function utf8_ok :: "string \<Rightarrow> bool" where
  "utf8_ok [] = True"
| "utf8_ok (c # cs) = (case after_char c cs of None \<Rightarrow> False | Some rest \<Rightarrow> utf8_ok rest)"
  by pat_completeness auto
termination
  by (relation "measure length") (auto simp: less_Suc_eq_le after_char_shorter)

lemma utf8_ascii: "\<forall>c \<in> set s. byte_in 0 127 c \<Longrightarrow> utf8_ok (s @ t) = utf8_ok t"
  by (induction s) (simp_all add: after_char_def)

lemma utf8_all_ascii: "\<forall>c \<in> set s. byte_in 0 127 c \<Longrightarrow> utf8_ok s"
  using utf8_ascii [of s "[]"] by simp

end
