(* ===== verification/Type_Resolver.thy ===== *)
theory Type_Resolver
  imports Texts
begin

text \<open>
  The lambda \<open>resolve_type\<close> of \<open>MemoryAnalyzer::RunLeakDetection\<close> (src/memory/memory_analyzer.cpp):
  the dynamic type of a leaked block, read through its virtual-table pointer. The process
  memory, the loader, the demangler and \<open>cpptrace\<close>'s symbol resolution are the record
  \<open>process\<close>. A read of unmapped memory is \<open>None\<close>: a crash, except inside the \<open>__try\<close> block of the
  MSVC build.
\<close>

section \<open>The process\<close>

datatype toolchain = MSVC | MSVC_32 | MinGW | Posix | OtherToolchain

text \<open>\<open>sizeof(void*)\<close>. In the 32-bit build an address is a zero-extended 32-bit word.\<close>

definition word_bytes :: "toolchain \<Rightarrow> u64" where
  "word_bytes tc = (if tc = MSVC_32 then 4 else 8)"

definition slot_before :: "bool \<Rightarrow> addr \<Rightarrow> addr" where
  "slot_before win64 vptr = (if win64 then vptr - 8 else ucast (ucast vptr - 4 :: u32))"

record process =
  mem_word :: "addr \<Rightarrow> addr option" \<comment> \<open>an aligned pointer-sized read\<close>
  mem_dword :: "addr \<Rightarrow> u32 option" \<comment> \<open>an aligned 32-bit read\<close>
  msvc_name :: "addr \<Rightarrow> addr option" \<comment> \<open>\<open>pType->name()\<close>\<close>
  mem_text :: "addr \<Rightarrow> string option" \<comment> \<open>the C string at an address\<close>
  module_of :: "addr \<Rightarrow> bool" \<comment> \<open>\<open>GetModuleHandleExA\<close> by address succeeds\<close>
  header_of :: "addr \<Rightarrow> addr" \<comment> \<open>\<open>RtlPcToFileHeader\<close>, null if none\<close>
  bad_read :: "addr \<Rightarrow> u64 \<Rightarrow> bool" \<comment> \<open>\<open>IsBadReadPtr\<close>\<close>
  dl_addr :: "addr \<Rightarrow> string option option" \<comment> \<open>\<open>dladdr\<close>: \<open>None\<close> if it fails, else \<open>dli_sname\<close>\<close>
  demangle :: "string \<Rightarrow> string option" \<comment> \<open>\<open>abi::__cxa_demangle\<close>, if the status is 0\<close>
  symbolize :: "addr \<Rightarrow> string option" \<comment> \<open>the symbol of the first frame \<open>cpptrace\<close> resolves\<close>

section \<open>Strings\<close>

fun str_contains :: "string \<Rightarrow> string \<Rightarrow> bool" where
  "str_contains pat [] = (pat = [])"
| "str_contains pat (c # cs) = (prefix pat (c # cs) \<or> str_contains pat cs)"

lemma str_contains_sublist: "str_contains pat s \<longleftrightarrow> sublist pat s"
  by (induction s) (auto simp: sublist_Cons_right)

definition is_alnum :: "char \<Rightarrow> bool" where
  "is_alnum c \<longleftrightarrow>
     (let n = (of_char c :: nat) in (48 \<le> n \<and> n \<le> 57) \<or> (65 \<le> n \<and> n \<le> 90) \<or> (97 \<le> n \<and> n \<le> 122))"

section \<open>The three RTTI layouts\<close>

text \<open>\<open>RTTICompleteObjectLocator\<close>: 32-bit words in both builds (in the 32-bit one the pointers
  \<open>pTypeDescriptor\<close> and \<open>pClassDescriptor\<close> are such words, and there is no \<open>pSelf\<close>).\<close>

datatype locator_field = Signature | Offset | CdOffset | PTypeDescriptor | PClassDescriptor | PSelf

fun offset_of :: "locator_field \<Rightarrow> addr" where
  "offset_of Signature = 0"
| "offset_of Offset = 4"
| "offset_of CdOffset = 8"
| "offset_of PTypeDescriptor = 12"
| "offset_of PClassDescriptor = 16"
| "offset_of PSelf = 20"

definition read_locator :: "process \<Rightarrow> addr \<Rightarrow> locator_field \<Rightarrow> u32 option" where
  "read_locator pr p f = mem_dword pr (p + offset_of f)"

text \<open>\<open>RTTICompleteObjectLocator\<close>: the name of the type it describes. \<open>None\<close> if a read raises, \<open>Some None\<close>
  if \<open>type_name_str\<close> stays empty. The descriptor is relative to the module in the 64-bit layout, and
  a pointer in the 32-bit one.\<close>

definition locator_name64 :: "process \<Rightarrow> addr \<Rightarrow> addr option option" where
  "locator_name64 pr rtti_ptr =
     (case read_locator pr rtti_ptr Signature of
        None \<Rightarrow> None
      | Some sig \<Rightarrow>
          if sig \<noteq> 1 then Some None
          else let base_address = header_of pr rtti_ptr
               in if base_address = nullptr then Some None
                  else case read_locator pr rtti_ptr PTypeDescriptor of
                    None \<Rightarrow> None
                  | Some d \<Rightarrow> map_option Some (msvc_name pr (base_address + ucast d)))"

definition locator_name32 :: "process \<Rightarrow> addr \<Rightarrow> addr option option" where
  "locator_name32 pr rtti_ptr =
     (case read_locator pr rtti_ptr Signature of
        None \<Rightarrow> None
      | Some sig \<Rightarrow>
          if sig \<noteq> 0 then Some None
          else case read_locator pr rtti_ptr PTypeDescriptor of
            None \<Rightarrow> None
          | Some d \<Rightarrow> map_option Some (msvc_name pr (ucast d)))"

text \<open>The body of the \<open>__try\<close>: \<open>None\<close> if it raises. The result is the pointer \<open>type_name_str\<close>.\<close>

definition msvc_type_name :: "bool \<Rightarrow> process \<Rightarrow> addr \<Rightarrow> addr option option" where
  "msvc_type_name win64 pr vptr =
     (case mem_word pr (slot_before win64 vptr) of
        None \<Rightarrow> None
      | Some rtti_ptr \<Rightarrow>
          if rtti_ptr = nullptr then Some None
          else if win64 then locator_name64 pr rtti_ptr else locator_name32 pr rtti_ptr)"

definition strip_tag :: "string \<Rightarrow> string" where
  "strip_tag class_name =
     (if prefix ''class '' class_name then drop 6 class_name
      else if prefix ''struct '' class_name then drop 7 class_name
      else class_name)"

text \<open>Each layout returns \<open>None\<close> for a fault, \<open>Some None\<close> to go on to the symbol table.\<close>

definition resolve_msvc :: "bool \<Rightarrow> process \<Rightarrow> addr \<Rightarrow> string option option" where
  "resolve_msvc win64 pr vptr =
     (case msvc_type_name win64 pr vptr of
        None \<Rightarrow> Some None \<comment> \<open>\<open>__except\<close>: the name is still empty\<close>
      | Some None \<Rightarrow> Some None
      | Some (Some name) \<Rightarrow>
          if name = nullptr then Some None
          else (case mem_text pr name of
                  None \<Rightarrow> None
                | Some s \<Rightarrow> if s = [] then Some None else Some (Some (strip_tag s))))"

definition resolve_mingw :: "process \<Rightarrow> addr \<Rightarrow> string option option" where
  "resolve_mingw pr vptr =
     (if bad_read pr (vptr - 8) 8 then Some None
      else case mem_word pr (vptr - 8) of
        None \<Rightarrow> None
      | Some ti \<Rightarrow>
          if ti = nullptr \<or> bad_read pr ti 16 then Some None
          else case mem_word pr (ti + 8) of
            None \<Rightarrow> None
          | Some name \<Rightarrow>
              if name = nullptr \<or> bad_read pr name 1 then Some None
              else case mem_text pr name of
                None \<Rightarrow> None
              | Some s \<Rightarrow>
                  if s \<noteq> [] \<and> (is_alnum (hd s) \<or> hd s = CHR ''N'' \<or> hd s = CHR ''Z'')
                  then Some (demangle pr s)
                  else Some None)"

definition resolve_posix :: "process \<Rightarrow> addr \<Rightarrow> string option option" where
  "resolve_posix pr vptr =
     (if dl_addr pr vptr = None then Some None
      else case mem_word pr (vptr - 8) of
        None \<Rightarrow> None
      | Some ti \<Rightarrow>
          if dl_addr pr ti = None then Some None
          else case mem_word pr ti of
            None \<Rightarrow> None
          | Some ti_vptr \<Rightarrow>
              (case dl_addr pr ti_vptr of
                 Some (Some sname) \<Rightarrow>
                   if str_contains ''class_type_info'' sname \<or> str_contains ''type_info'' sname
                   then (case mem_word pr (ti + 8) of
                           None \<Rightarrow> None
                         | Some name \<Rightarrow>
                             if dl_addr pr name = None then Some None
                             else (case mem_text pr name of
                                     None \<Rightarrow> None
                                   | Some s \<Rightarrow> Some (Some (case demangle pr s of Some d \<Rightarrow> d | None \<Rightarrow> s))))
                   else Some None
               | _ \<Rightarrow> Some None))"

section \<open>The resolver\<close>

definition resolve_symbol :: "process \<Rightarrow> addr \<Rightarrow> string" where
  "resolve_symbol pr vptr =
     (case symbolize pr vptr of
        None \<Rightarrow> ''''
      | Some name \<Rightarrow>
          if name = [] then ''''
          else if prefix ''vtable for '' name then c_str (drop 11 name)
          else c_str name)"

text \<open>The conditional compilation.\<close>

definition resolve_layout :: "toolchain \<Rightarrow> process \<Rightarrow> addr \<Rightarrow> string option option" where
  "resolve_layout tc pr vptr =
     (case tc of
        MSVC \<Rightarrow> resolve_msvc True pr vptr
      | MSVC_32 \<Rightarrow> resolve_msvc False pr vptr
      | MinGW \<Rightarrow> resolve_mingw pr vptr
      | Posix \<Rightarrow> resolve_posix pr vptr
      | OtherToolchain \<Rightarrow> Some None)"

definition resolve_type :: "toolchain \<Rightarrow> process \<Rightarrow> addr \<Rightarrow> u64 \<Rightarrow> string option" where
  "resolve_type tc pr address n =
     (if n < word_bytes tc then Some ''''
      else case mem_word pr address of
        None \<Rightarrow> None
      | Some vptr \<Rightarrow>
          if (tc = MSVC \<or> tc = MSVC_32 \<or> tc = MinGW) \<and> \<not> module_of pr vptr then Some ''''
          else case resolve_layout tc pr vptr of
            None \<Rightarrow> None
          | Some (Some t) \<Rightarrow> Some t
          | Some None \<Rightarrow> Some (resolve_symbol pr vptr))"

section \<open>What the checks let through\<close>















text \<open>The Itanium layout of an object of a class with the mangled name \<open>s\<close>.\<close>

definition itanium_object :: "process \<Rightarrow> addr \<Rightarrow> string \<Rightarrow> bool" where
  "itanium_object pr obj s \<longleftrightarrow>
     (\<exists>vptr ti tv name sname.
        mem_word pr obj = Some vptr \<and> mem_word pr (vptr - 8) = Some ti \<and> mem_word pr ti = Some tv \<and>
        mem_word pr (ti + 8) = Some name \<and> mem_text pr name = Some s \<and>
        ti \<noteq> nullptr \<and> name \<noteq> nullptr \<and> module_of pr vptr \<and>
        dl_addr pr vptr \<noteq> None \<and> dl_addr pr ti \<noteq> None \<and> dl_addr pr name \<noteq> None \<and>
        dl_addr pr tv = Some (Some sname) \<and> sublist ''type_info'' sname \<and>
        \<not> bad_read pr (vptr - 8) 8 \<and> \<not> bad_read pr ti 16 \<and> \<not> bad_read pr name 1)"

text \<open>The layout of an object of a class that MSVC names \<open>s\<close>.\<close>

definition msvc_object :: "bool \<Rightarrow> process \<Rightarrow> addr \<Rightarrow> string \<Rightarrow> bool" where
  "msvc_object win64 pr obj s \<longleftrightarrow>
     (\<exists>vptr loc d name.
        mem_word pr obj = Some vptr \<and> module_of pr vptr \<and>
        mem_word pr (slot_before win64 vptr) = Some loc \<and> loc \<noteq> nullptr \<and>
        read_locator pr loc Signature = Some (if win64 then 1 else 0) \<and> read_locator pr loc PTypeDescriptor = Some d \<and>
        (win64 \<longrightarrow> header_of pr loc \<noteq> nullptr) \<and>
        msvc_name pr ((if win64 then header_of pr loc else 0) + ucast d) = Some name \<and>
        name \<noteq> nullptr \<and> mem_text pr name = Some s)"

lemma resolve_msvc_object:
  assumes "msvc_object win64 pr obj s" "s \<noteq> []"
  shows "\<exists>vptr. mem_word pr obj = Some vptr \<and> module_of pr vptr \<and>
    resolve_msvc win64 pr vptr = Some (Some (strip_tag s))"
  using assms
  by (auto simp: msvc_object_def resolve_msvc_def msvc_type_name_def locator_name64_def locator_name32_def Let_def
      split: if_splits)

text \<open>A process with one object, at 4096, of class \<open>Widget\<close>.\<close>

definition demo_process :: process where
  "demo_process =
     \<lparr>mem_word = (\<lambda>a. if a = 4096 then Some 8192 else if a = 8184 then Some 8256
         else if a = 8256 then Some 8320 else if a = 8264 then Some 8384 else Some 0),
      mem_dword = (\<lambda>a. Some 0), msvc_name = (\<lambda>a. Some 0),
      mem_text = (\<lambda>a. if a = 8384 then Some ''6Widget'' else Some ''''),
      module_of = (\<lambda>a. 8192 \<le> a \<and> a < 12288), header_of = (\<lambda>a. 8192),
      bad_read = (\<lambda>a n. False),
      dl_addr = (\<lambda>a. if 8192 \<le> a \<and> a < 12288 then Some (Some ''_ZTVN10__cxxabiv117__class_type_infoE'') else None),
      demangle = (\<lambda>s. if s = ''6Widget'' then Some ''Widget'' else None),
      symbolize = (\<lambda>a. None)\<rparr>"

lemma demo_itanium: "itanium_object demo_process 4096 ''6Widget''"
proof -
  have "sublist ''type_info'' ''_ZTVN10__cxxabiv117__class_type_infoE''"
    by (simp add: str_contains_sublist [symmetric])
  then show ?thesis
    unfolding itanium_object_def
    by (intro exI [of _ 8192] exI [of _ 8256] exI [of _ 8320] exI [of _ 8384]) (simp add: demo_process_def)
qed

section \<open>Properties\<close>




text \<open>What the checks do not establish: \<open>dladdr\<close> accepts every address inside an image, its first one included,
  and says nothing about the slot before it. A block whose first word is the load address of an image makes the
  resolver read the word below that image; where nothing is mapped there, the leak
  report faults.\<close>

theorem resolver_faults_below_an_image:
  assumes "mem_word pr address = Some base" and "dl_addr pr base \<noteq> None" and "mem_word pr (base - 8) = None" and "8 \<le> n"
  shows "resolve_type Posix pr address n = None"
  using assms by (auto simp: resolve_type_def word_bytes_def resolve_layout_def resolve_posix_def not_less)

lemma resolver_faults_below_an_image_witness:
  "resolve_type Posix (demo_process\<lparr>mem_word := [4096 \<mapsto> 8192, 8192 \<mapsto> 0]\<rparr>) 4096 64 = None"
  using resolver_faults_below_an_image [of "demo_process\<lparr>mem_word := [4096 \<mapsto> 8192, 8192 \<mapsto> 0]\<rparr>" 4096 8192 64]
  by (simp add: demo_process_def)

text \<open>C35: On both Itanium toolchains a leaked object of a polymorphic class is reported under its
  demangled class name; a block too small for a virtual-table pointer has no type.\<close>

theorem resolve_type_itanium:
  assumes "itanium_object pr obj s" and "demangle pr s = Some d" and "s \<noteq> []" and "is_alnum (hd s)"
    and "tc = Posix \<or> tc = MinGW"
  shows "resolve_type tc pr obj n = Some (if n < 8 then '''' else d)"
proof -
  obtain vptr ti tv name sname where o:
    "mem_word pr obj = Some vptr" "mem_word pr (vptr - 8) = Some ti" "mem_word pr ti = Some tv"
    "mem_word pr (ti + 8) = Some name" "mem_text pr name = Some s"
    "ti \<noteq> nullptr" "name \<noteq> nullptr" "module_of pr vptr"
    "dl_addr pr vptr \<noteq> None" "dl_addr pr ti \<noteq> None" "dl_addr pr name \<noteq> None"
    "dl_addr pr tv = Some (Some sname)" "str_contains ''type_info'' sname"
    "\<not> bad_read pr (vptr - 8) 8" "\<not> bad_read pr ti 16" "\<not> bad_read pr name 1"
    using assms(1) by (auto simp: itanium_object_def str_contains_sublist)
  have "resolve_posix pr vptr = Some (Some d)" using o assms(2) by (simp add: resolve_posix_def)
  moreover have "resolve_mingw pr vptr = Some (Some d)"
    using o assms(2-4) by (simp add: resolve_mingw_def)
  ultimately show ?thesis using o(1,8) assms(5) by (auto simp: resolve_type_def resolve_layout_def word_bytes_def)
qed

lemma resolve_type_itanium_witness:
  "resolve_type MinGW demo_process 4096 64 = Some ''Widget''"
  using resolve_type_itanium [OF demo_itanium, of "''Widget''" MinGW 64]
  by (simp add: demo_process_def is_alnum_def)

text \<open>C36: With MSVC a leaked object of a polymorphic class is reported under its class name, without the tag
  \<open>class\<close> or \<open>struct\<close>, in the 64-bit and in the 32-bit layout.\<close>

theorem resolve_type_msvc:
  assumes "msvc_object (tc = MSVC) pr obj (tag @ name)" and "tc = MSVC \<or> tc = MSVC_32"
    and "tag = ''class '' \<or> tag = ''struct ''"
  shows "resolve_type tc pr obj n = Some (if n < word_bytes tc then '''' else name)"
proof -
  have s: "tag @ name \<noteq> []" "strip_tag (tag @ name) = name" using assms(3) by (auto simp: strip_tag_def)
  obtain vptr where "mem_word pr obj = Some vptr" "module_of pr vptr"
    "resolve_msvc (tc = MSVC) pr vptr = Some (Some name)"
    using resolve_msvc_object [OF assms(1) s(1)] s(2) by auto
  with assms(2) show ?thesis by (auto simp: resolve_type_def resolve_layout_def)
qed

text \<open>An object, at 4096, whose class MSVC names \<open>class Widget\<close>.\<close>

definition demo_msvc :: "bool \<Rightarrow> process" where
  "demo_msvc win64 = demo_process
     \<lparr>mem_word := (\<lambda>a. if a = 4096 then Some 8192 else if a = slot_before win64 8192 then Some 8256 else None),
      mem_dword := (\<lambda>a. if a = 8256 then Some (if win64 then 1 else 0)
        else if a = 8268 then Some (if win64 then 128 else 8320) else None),
      msvc_name := (\<lambda>a. if a = 8320 then Some 8384 else None),
      mem_text := (\<lambda>a. if a = 8384 then Some ''class Widget'' else None)\<rparr>"

lemma resolve_type_msvc_witness:
  "resolve_type MSVC (demo_msvc True) 4096 64 = Some ''Widget'' \<and>
   resolve_type MSVC_32 (demo_msvc False) 4096 64 = Some ''Widget''"
proof -
  have "msvc_object win64 (demo_msvc win64) 4096 (''class '' @ ''Widget'')" for win64
    by (simp add: msvc_object_def demo_msvc_def demo_process_def slot_before_def read_locator_def)
  then have o: "msvc_object (MSVC = MSVC) (demo_msvc True) 4096 (''class '' @ ''Widget'')"
    "msvc_object (MSVC_32 = MSVC) (demo_msvc False) 4096 (''class '' @ ''Widget'')" by simp_all
  show ?thesis
    using resolve_type_msvc [OF o(1), of 64] resolve_type_msvc [OF o(2), of 64] by (simp add: word_bytes_def)
qed

end
