(* ===== verification/Text_Numbers.thy ===== *)
theory Text_Numbers
  imports Texts
begin

text \<open>
  Numbers as text: what \<open>snprintf("%zx")\<close>, \<open>std::to_string\<close> print, and what
  \<open>std::istringstream >> x\<close> and \<open>std::stoull\<close> read back in the C locale. A string is a list
  of bytes (\<open>char\<close>).
\<close>

section \<open>Printing\<close>

function digits :: "nat \<Rightarrow> nat \<Rightarrow> nat list" where
  "digits b n = (if b < 2 \<or> n < b then [n] else digits b (n div b) @ [n mod b])"
  by pat_completeness auto
termination
  by (relation "measure snd") auto

declare digits.simps [simp del]

definition digit_char :: "nat \<Rightarrow> char" where
  "digit_char d = (if d < 10 then char_of (48 + d) else char_of (87 + d))"

definition dec_string :: "nat \<Rightarrow> string" where
  "dec_string n = map digit_char (digits 10 n)"

definition hex_string :: "nat \<Rightarrow> string" where
  "hex_string n = map digit_char (digits 16 n)"

definition to_string_int :: "int \<Rightarrow> string" where
  "to_string_int i = (if i < 0 then CHR ''-'' # dec_string (nat (- i)) else dec_string (nat i))"

text \<open>\<open>snprintf(addr_buf, 32, "0x%zx", p)\<close>: at most 31 bytes are kept.\<close>

definition addr_string :: "addr \<Rightarrow> string" where
  "addr_string p = take 31 (''0x'' @ hex_string (unat p))"

section \<open>Reading\<close>

definition is_digit :: "char \<Rightarrow> bool" where
  "is_digit c \<longleftrightarrow> 48 \<le> (of_char c :: nat) \<and> (of_char c :: nat) \<le> 57"

definition digit_val :: "char \<Rightarrow> nat" where
  "digit_val c = of_char c - 48"

definition is_space :: "char \<Rightarrow> bool" where
  "is_space c \<longleftrightarrow> (of_char c :: nat) \<in> {32, 9, 10, 11, 12, 13}"

definition skip_ws :: "string \<Rightarrow> string" where
  "skip_ws s = dropWhile is_space s"

definition digits_value :: "nat \<Rightarrow> nat list \<Rightarrow> nat" where
  "digits_value b ds = foldl (\<lambda>a d. a * b + d) 0 ds"

text \<open>\<open>>> std::string\<close>: a maximal run of non-space bytes, at least one.\<close>

definition read_word :: "string \<Rightarrow> (string \<times> string) option" where
  "read_word s =
     (let t = skip_ws s; w = takeWhile (\<lambda>c. \<not> is_space c) t
      in if w = [] then None else Some (w, dropWhile (\<lambda>c. \<not> is_space c) t))"

text \<open>An optional sign and a maximal run of decimal digits, at least one.\<close>

definition read_signed :: "string \<Rightarrow> (bool \<times> nat \<times> string) option" where
  "read_signed s =
     (let t = skip_ws s;
          neg = (t \<noteq> [] \<and> hd t = CHR ''-'');
          u = (if t \<noteq> [] \<and> (hd t = CHR ''-'' \<or> hd t = CHR ''+'') then tl t else t);
          w = takeWhile is_digit u
      in if w = [] then None
         else Some (neg, digits_value 10 (map digit_val w), dropWhile is_digit u))"

text \<open>\<open>>> long\<close>: out of range sets \<open>failbit\<close>.\<close>

definition read_long :: "string \<Rightarrow> (int \<times> string) option" where
  "read_long s =
     (case read_signed s of
        None \<Rightarrow> None
      | Some (neg, n, rest) \<Rightarrow>
          (let i = (if neg then - int n else int n)
           in if - (2 ^ 63) \<le> i \<and> i < 2 ^ 63 then Some (i, rest) else None))"

text \<open>\<open>>> unsigned long\<close>, and \<open>std::stoull\<close>: a minus sign negates modulo \<open>2^64\<close>; a magnitude of
  \<open>2^64\<close> or more fails.\<close>

definition read_ulong :: "string \<Rightarrow> (u64 \<times> string) option" where
  "read_ulong s =
     (case read_signed s of
        None \<Rightarrow> None
      | Some (neg, n, rest) \<Rightarrow>
          (if n < 2 ^ 64 then Some (if neg then - of_nat n else of_nat n, rest) else None))"

section \<open>Printing then reading\<close>

lemma digits_bound: "2 \<le> b \<Longrightarrow> d \<in> set (digits b n) \<Longrightarrow> d < b"
proof (induction b n rule: digits.induct)
  case (1 b n)
  then show ?case by (subst (asm) (2) digits.simps) (auto split: if_splits)
qed

lemma digits_value_snoc: "digits_value b (ds @ [d]) = digits_value b ds * b + d"
  by (simp add: digits_value_def)

lemma digits_value_digits: "2 \<le> b \<Longrightarrow> digits_value b (digits b n) = n"
proof (induction b n rule: digits.induct)
  case (1 b n)
  show ?case
  proof (cases "n < b")
    case True
    then show ?thesis by (subst digits.simps) (simp add: digits_value_def)
  next
    case False
    with 1 show ?thesis by (subst digits.simps) (simp add: digits_value_snoc)
  qed
qed

lemma digits_length: "2 \<le> b \<Longrightarrow> n < b ^ Suc k \<Longrightarrow> length (digits b n) \<le> Suc k"
proof (induction k arbitrary: n)
  case 0
  then show ?case by (subst digits.simps) simp
next
  case (Suc k)
  from Suc.prems have "n div b < b ^ Suc k"
    by (simp add: less_mult_imp_div_less mult.commute)
  with Suc show ?case by (subst digits.simps) auto
qed

lemma digits_nonempty: "digits b n \<noteq> []"
  by (subst digits.simps) auto

lemma of_char_digit_char: "d < 16 \<Longrightarrow> (of_char (digit_char d) :: nat) = (if d < 10 then 48 + d else 87 + d)"
  by (simp add: digit_char_def)

lemma digit_char_dec: "d < 10 \<Longrightarrow> is_digit (digit_char d) \<and> digit_val (digit_char d) = d"
  by (simp add: is_digit_def digit_val_def of_char_digit_char)

lemma digit_char_inj:
  assumes "d < 16" "e < 16" "digit_char d = digit_char e"
  shows "d = e"
proof -
  have "(if d < 10 then 48 + d else 87 + d) = (if e < 10 then 48 + e else 87 + e)"
    using of_char_digit_char [OF assms(1)] of_char_digit_char [OF assms(2)] assms(3) by metis
  with assms(1,2) show ?thesis by (simp split: if_splits)
qed

lemma dec_string_digits:
  "\<forall>c \<in> set (dec_string n). is_digit c" "map digit_val (dec_string n) = digits 10 n" "dec_string n \<noteq> []"
proof -
  have d: "d < 10" if "d \<in> set (digits 10 n)" for d
    using digits_bound [of 10 d n] that by simp
  then show "\<forall>c \<in> set (dec_string n). is_digit c"
    by (auto simp: dec_string_def digit_char_dec)
  show "map digit_val (dec_string n) = digits 10 n"
    using d by (simp add: dec_string_def digit_char_dec map_idI)
  show "dec_string n \<noteq> []" by (simp add: dec_string_def digits_nonempty)
qed

lemma dec_string_value: "digits_value 10 (map digit_val (dec_string n)) = n"
  by (simp add: dec_string_digits(2) digits_value_digits)

lemma dec_string_inj: "dec_string m = dec_string n \<longleftrightarrow> m = n"
  using dec_string_value [of m] dec_string_value [of n] by metis

lemma length_hex_string: "length (hex_string (unat (p :: addr))) \<le> 16"
  using digits_length [of 16 "unat p" 15] unat_u64_less [of p] by (simp add: hex_string_def)

lemma addr_string_full: "addr_string p = ''0x'' @ hex_string (unat p)"
  using length_hex_string [of p] by (simp add: addr_string_def)

lemma map_inj_on_eq:
  assumes "inj_on f A" "set xs \<subseteq> A" "set ys \<subseteq> A" "map f xs = map f ys"
  shows "xs = ys"
  using assms by (metis inj_on_map_eq_map inj_on_subset le_sup_iff)

lemma hex_string_inj: "hex_string m = hex_string n \<longleftrightarrow> m = n"
proof
  assume eq: "hex_string m = hex_string n"
  have "inj_on digit_char {..<16}" by (rule inj_onI) (auto intro: digit_char_inj)
  moreover have "set (digits 16 k) \<subseteq> {..<16}" for k using digits_bound [of 16 _ k] by auto
  ultimately have "digits 16 m = digits 16 n"
    using eq by (metis hex_string_def map_inj_on_eq)
  then show "m = n" by (metis digits_value_digits one_le_numeral numeral_le_iff semiring_norm(68,69,71,76))
qed simp

text \<open>Two addresses print alike only if they are equal; the text always fits the buffer.\<close>

lemma addr_string_inj: "addr_string p = addr_string q \<longleftrightarrow> p = q"
  by (auto simp: addr_string_full hex_string_inj dest: unsigned_word_eqI)

lemma takeWhile_run: "\<lbrakk>\<forall>x \<in> set xs. P x; ys = [] \<or> \<not> P (hd ys)\<rbrakk> \<Longrightarrow> takeWhile P (xs @ ys) = xs"
  by (induction xs) (auto simp: takeWhile_eq_Nil_iff)

lemma dropWhile_run: "\<lbrakk>\<forall>x \<in> set xs. P x; ys = [] \<or> \<not> P (hd ys)\<rbrakk> \<Longrightarrow> dropWhile P (xs @ ys) = ys"
  by (induction xs) (cases ys; auto)+

lemma digit_not_space: "is_digit c \<Longrightarrow> \<not> is_space c \<and> c \<noteq> CHR ''-'' \<and> c \<noteq> CHR ''+''"
  by (auto simp: is_digit_def is_space_def)

text \<open>Reading back a printed number that is followed by something that is not a digit.\<close>

lemma read_signed_dec:
  assumes "rest = [] \<or> \<not> is_digit (hd rest)"
  shows "read_signed (dec_string n @ rest) = Some (False, n, rest)"
    and "read_signed (CHR '' '' # dec_string n @ rest) = Some (False, n, rest)"
    and "read_signed (CHR '' '' # CHR ''-'' # dec_string n @ rest) = Some (True, n, rest)"
proof -
  obtain c cs where d: "dec_string n = c # cs" using dec_string_digits(3) [of n] by (cases "dec_string n") auto
  have c: "is_digit c" using dec_string_digits(1) [of n] d by simp
  have sp: "is_space CHR '' ''" "\<not> is_space CHR ''-''" by (simp_all add: is_space_def)
  have ws: "skip_ws (dec_string n @ rest) = dec_string n @ rest"
    using digit_not_space [OF c] by (simp add: skip_ws_def d)
  have run: "takeWhile is_digit (dec_string n @ rest) = dec_string n"
    "dropWhile is_digit (dec_string n @ rest) = rest"
    using assms dec_string_digits(1) by (blast intro: takeWhile_run dropWhile_run)+
  have hd: "hd (dec_string n @ rest) \<noteq> CHR ''-''" "hd (dec_string n @ rest) \<noteq> CHR ''+''"
    using digit_not_space [OF c] by (simp_all add: d)
  have ne: "dec_string n @ rest \<noteq> []" by (simp add: d)
  have core: "read_signed s = Some (False, n, rest)" if "skip_ws s = dec_string n @ rest" for s
    using that run hd ne by (simp add: read_signed_def Let_def dec_string_value dec_string_digits(3))
  show "read_signed (dec_string n @ rest) = Some (False, n, rest)" by (rule core) (rule ws)
  show "read_signed (CHR '' '' # dec_string n @ rest) = Some (False, n, rest)"
    using ws by (intro core) (simp add: skip_ws_def sp)
  show "read_signed (CHR '' '' # CHR ''-'' # dec_string n @ rest) = Some (True, n, rest)"
    using run by (simp add: read_signed_def Let_def skip_ws_def sp dec_string_value dec_string_digits(3))
qed

end
