(* ===== verification/Reporter.thy ===== *)
theory Reporter
  imports Text_Numbers
begin

text \<open>
  \<open>Reporter\<close> and \<open>JsonFileReporter\<close> (include/domovoy/reporter.h, src/reporter.cpp).

  A report is a value of type \<open>json\<close>: the document the code assembles with nlohmann/json. The
  order of an object's keys carries no meaning. The serialiser \<open>dump(4)\<close>, the wall clock and
  the question whether a file can be opened belong to the environment and are parameters. The
  serialiser throws on a text that is not UTF-8 (\<open>type_error\<close> 316).
\<close>

section \<open>Documents\<close>

datatype json =
    JNull
  | JBool bool
  | JUInt u64
  | JInt int
  | JStr string
  | JArr "json list"
  | JObj "(string \<times> json) list"

fun json_field :: "string \<Rightarrow> json \<Rightarrow> json option" where
  "json_field k (JObj kvs) = map_of kvs k"
| "json_field k _ = None"

text \<open>One frame of a \<open>cpptrace\<close> stack trace and its rendering, the same in the crash handler and in the
  CPU monitor.\<close>

record frame =
  fr_symbol :: string
  fr_filename :: string
  fr_line :: "u32 option"

definition or_unknown :: "string \<Rightarrow> string" where
  "or_unknown s = (if s = [] then ''<unknown>'' else c_str s)"

definition frame_json :: "frame \<Rightarrow> json" where
  "frame_json fr = JObj
     [(''symbol'', JStr (or_unknown (fr_symbol fr))),
      (''filename'', JStr (or_unknown (fr_filename fr))),
      (''line'', JUInt (case fr_line fr of Some l \<Rightarrow> ucast l | None \<Rightarrow> 0))]"

section \<open>The file reporter\<close>

type_synonym files = "string \<Rightarrow> string option"

datatype report_kind = Leaks | HighCpu | IoLeak | CrashReport

record environment =
  env_dump :: "json \<Rightarrow> string option" \<comment> \<open>\<open>data.dump(4)\<close>; \<open>None\<close> if it throws\<close>
  env_can_open :: "string \<Rightarrow> bool" \<comment> \<open>\<open>std::ofstream file(filename); file.is_open()\<close>\<close>

text \<open>What \<open>nlohmann::json\<close> documents: \<open>dump\<close> throws exactly if a text or a key is not UTF-8.\<close>

fun dumpable :: "json \<Rightarrow> bool" where
  "dumpable (JStr s) = utf8_ok s"
| "dumpable (JArr ds) = list_all dumpable ds"
| "dumpable (JObj kvs) = list_all (\<lambda>(k, d). utf8_ok k \<and> dumpable d) kvs"
| "dumpable _ = True"

definition dump_ok :: "environment \<Rightarrow> bool" where
  "dump_ok env \<longleftrightarrow> (\<forall>d. env_dump env d \<noteq> None \<longleftrightarrow> dumpable d)"

definition report_filename :: "string \<Rightarrow> string \<Rightarrow> int \<Rightarrow> string" where
  "report_filename output_dir pref ms = output_dir @ ''/'' @ pref @ ''_'' @ to_string_int ms @ ''.json''"

text \<open>Opening the file truncates it; if the serialiser throws, it stays empty.\<close>

definition WriteToFile :: "environment \<Rightarrow> string \<Rightarrow> string \<Rightarrow> int \<Rightarrow> json \<Rightarrow> files \<Rightarrow> (unit, files) outcome" where
  "WriteToFile env output_dir pref ms data fs =
     (let filename = report_filename output_dir pref ms
      in if env_can_open env filename
         then (case env_dump env data of
                 None \<Rightarrow> Throw (fs(filename \<mapsto> ''''))
               | Some contents \<Rightarrow> Ret () (fs(filename \<mapsto> contents)))
         else Ret () fs)"

definition ReportLeaks :: "environment \<Rightarrow> string \<Rightarrow> int \<Rightarrow> json \<Rightarrow> files \<Rightarrow> (unit, files) outcome" where
  "ReportLeaks env dir ms leak_data = WriteToFile env dir ''domovoy_leaks'' ms leak_data"

definition ReportHighCpu :: "environment \<Rightarrow> string \<Rightarrow> int \<Rightarrow> json \<Rightarrow> files \<Rightarrow> (unit, files) outcome" where
  "ReportHighCpu env dir ms cpu_data = WriteToFile env dir ''domovoy_cpu'' ms cpu_data"

definition ReportIoLeak :: "environment \<Rightarrow> string \<Rightarrow> int \<Rightarrow> json \<Rightarrow> files \<Rightarrow> (unit, files) outcome" where
  "ReportIoLeak env dir ms report = WriteToFile env dir ''domovoy_io_leak'' ms report"

definition ReportCrash :: "environment \<Rightarrow> string \<Rightarrow> int \<Rightarrow> json \<Rightarrow> files \<Rightarrow> (unit, files) outcome" where
  "ReportCrash env dir ms crash_data = WriteToFile env dir ''domovoy_crash'' ms crash_data"

text \<open>The virtual dispatch of the \<open>Reporter\<close> interface.\<close>

fun report :: "environment \<Rightarrow> string \<Rightarrow> report_kind \<Rightarrow> int \<Rightarrow> json \<Rightarrow> files \<Rightarrow> (unit, files) outcome" where
  "report env dir Leaks ms d fs = ReportLeaks env dir ms d fs"
| "report env dir HighCpu ms d fs = ReportHighCpu env dir ms d fs"
| "report env dir IoLeak ms d fs = ReportIoLeak env dir ms d fs"
| "report env dir CrashReport ms d fs = ReportCrash env dir ms d fs"

section \<open>The contract of a report sink\<close>

text \<open>
  What the subsystems rely on when they hand a report to the \<open>Reporter\<close>: it returns or throws; a report
  that can be written and rendered is stored under its kind and time stamp; and the reports of other
  kinds or times are left alone. \<open>emit_all\<close> is a sequence of reports made by different callers: one
  that throws does not keep the others from being made.
\<close>

fun emit_all :: "('k \<Rightarrow> int \<Rightarrow> json \<Rightarrow> 'f \<Rightarrow> (unit, 'f) outcome) \<Rightarrow> ('k \<times> int \<times> json) list \<Rightarrow> 'f \<Rightarrow> 'f" where
  "emit_all emit [] f = f"
| "emit_all emit ((k, ms, d) # evs) f =
     (case emit k ms d f of
        Ret _ f' \<Rightarrow> emit_all emit evs f'
      | Throw f' \<Rightarrow> emit_all emit evs f'
      | _ \<Rightarrow> f)"

locale report_sink =
  fixes emit :: "'k \<Rightarrow> int \<Rightarrow> json \<Rightarrow> 'f \<Rightarrow> (unit, 'f) outcome"
    and stored :: "'f \<Rightarrow> 'k \<Rightarrow> int \<Rightarrow> string option"
    and writable :: "'k \<Rightarrow> int \<Rightarrow> bool"
    and render :: "json \<Rightarrow> string option"
  assumes emit_ends: "\<exists>f'. emit k ms d f = Ret () f' \<or> emit k ms d f = Throw f'"
    and emit_stores: "writable k ms \<Longrightarrow> render d = Some contents \<Longrightarrow>
      \<exists>f'. emit k ms d f = Ret () f' \<and> stored f' k ms = Some contents"
    and emit_frame: "emit k ms d f = Ret () f' \<or> emit k ms d f = Throw f' \<Longrightarrow> (k', ms') \<noteq> (k, ms) \<Longrightarrow>
      stored f' k' ms' = stored f k' ms'"
begin

lemma emit_all_Cons:
  obtains f' where "emit k ms d f = Ret () f' \<or> emit k ms d f = Throw f'"
    "emit_all emit ((k, ms, d) # evs) f = emit_all emit evs f'"
  using emit_ends [of k ms d f] by auto

lemma emit_all_frame:
  "(k, ms) \<notin> set (map (\<lambda>(k, ms, d). (k, ms)) evs) \<Longrightarrow>
   stored (emit_all emit evs f) k ms = stored f k ms"
proof (induction evs arbitrary: f)
  case (Cons e evs)
  obtain k' ms' d where e: "e = (k', ms', d)" by (cases e)
  obtain f' where f': "emit k' ms' d f = Ret () f' \<or> emit k' ms' d f = Throw f'"
    "emit_all emit (e # evs) f = emit_all emit evs f'" unfolding e by (rule emit_all_Cons)
  from Cons e have "(k, ms) \<noteq> (k', ms')" by auto
  from emit_frame [OF f'(1) this] have "stored f' k ms = stored f k ms" .
  moreover have "stored (emit_all emit evs f') k ms = stored f' k ms" using Cons by simp
  ultimately show ?case unfolding f'(2) by simp
qed simp

lemma emit_all_append: "emit_all emit (es @ fs) f = emit_all emit fs (emit_all emit es f)"
proof (induction es arbitrary: f)
  case (Cons e es)
  obtain k ms d where e: "e = (k, ms, d)" by (cases e)
  with emit_ends [of k ms d f] Cons show ?case by auto
qed simp

lemma emit_all_last:
  assumes "writable k ms" "render d = Some contents" "(k, ms) \<notin> set (map (\<lambda>(k, ms, d). (k, ms)) evs)"
  shows "stored (emit_all emit (pre @ (k, ms, d) # evs) f) k ms = Some contents"
  using emit_stores [OF assms(1,2), of "emit_all emit pre f"] emit_all_frame [OF assms(3)]
  by (auto simp: emit_all_append)

end

section \<open>The file reporter is such a sink\<close>

definition report_prefix :: "report_kind \<Rightarrow> string" where
  "report_prefix k =
     (case k of Leaks \<Rightarrow> ''domovoy_leaks'' | HighCpu \<Rightarrow> ''domovoy_cpu''
      | IoLeak \<Rightarrow> ''domovoy_io_leak'' | CrashReport \<Rightarrow> ''domovoy_crash'')"

lemma report_prefix_inj: "report_prefix k = report_prefix k' \<longleftrightarrow> k = k'"
  by (cases k; cases k') (simp_all add: report_prefix_def)

lemma report_WriteToFile: "report env dir k ms d fs = WriteToFile env dir (report_prefix k) ms d fs"
  by (cases k) (simp_all add: report_prefix_def ReportLeaks_def ReportHighCpu_def ReportIoLeak_def ReportCrash_def)

lemma dec_string_no_minus: "dec_string n \<noteq> CHR ''-'' # cs"
  using dec_string_digits(1) [of n] by (auto simp: is_digit_def)

lemma to_string_int_inj: "to_string_int i = to_string_int j \<longleftrightarrow> i = j"
proof
  assume eq: "to_string_int i = to_string_int j"
  show "i = j"
  proof (cases "i < 0"; cases "j < 0")
    assume "i < 0" "j < 0"
    with eq show ?thesis by (simp add: to_string_int_def dec_string_inj)
  next
    assume "\<not> i < 0" "\<not> j < 0"
    with eq show ?thesis by (simp add: to_string_int_def dec_string_inj)
  qed (use eq dec_string_no_minus in \<open>simp_all add: to_string_int_def, metis\<close>)
qed simp

lemma to_string_int_no_underscore: "CHR ''_'' \<notin> set (to_string_int i)"
proof -
  have "CHR ''_'' \<notin> set (dec_string n)" for n
    using dec_string_digits(1) [of n] by (auto simp: is_digit_def)
  then show ?thesis by (simp add: to_string_int_def)
qed

lemma split_at_last:
  assumes "xs @ c # ys = xs' @ c # ys'" "c \<notin> set ys" "c \<notin> set ys'"
  shows "xs = xs' \<and> ys = ys'"
proof -
  have tail: "takeWhile (\<lambda>d. d \<noteq> c) (rev (us @ c # vs)) = rev vs" if "c \<notin> set vs" for us vs
    using takeWhile_run [of "rev vs" "\<lambda>d. d \<noteq> c" "c # rev us"] that by auto
  from tail [OF assms(2), of xs] tail [OF assms(3), of xs'] assms(1) have "rev ys = rev ys'"
    by simp
  with assms(1) show ?thesis by simp
qed

lemma report_filename_inj:
  "report_filename dir p ms = report_filename dir p' ms' \<longleftrightarrow> p = p' \<and> ms = ms'"
proof
  assume "report_filename dir p ms = report_filename dir p' ms'"
  then have "p @ CHR ''_'' # (to_string_int ms @ ''.json'') = p' @ CHR ''_'' # (to_string_int ms' @ ''.json'')"
    by (simp add: report_filename_def)
  from split_at_last [OF this] have "p = p' \<and> to_string_int ms = to_string_int ms'"
    using to_string_int_no_underscore by simp
  then show "p = p' \<and> ms = ms'" by (simp add: to_string_int_inj)
qed simp

definition stored_report :: "string \<Rightarrow> files \<Rightarrow> report_kind \<Rightarrow> int \<Rightarrow> string option" where
  "stored_report dir fs k ms = fs (report_filename dir (report_prefix k) ms)"

lemma report_outcomes:
  "report env dir k ms d fs =
     (if env_can_open env (report_filename dir (report_prefix k) ms)
      then (case env_dump env d of
              None \<Rightarrow> Throw (fs(report_filename dir (report_prefix k) ms \<mapsto> ''''))
            | Some contents \<Rightarrow> Ret () (fs(report_filename dir (report_prefix k) ms \<mapsto> contents)))
      else Ret () fs)"
  by (simp add: report_WriteToFile WriteToFile_def Let_def)

lemma report_ends:
  "\<exists>fs'. report env dir k ms d fs = Ret () fs' \<or> report env dir k ms d fs = Throw fs'"
  by (auto simp: report_outcomes split: option.split)

lemma report_returns:
  assumes "env_dump env d \<noteq> None"
  shows "\<exists>fs'. report env dir k ms d fs = Ret () fs'"
  using assms by (auto simp: report_outcomes)

lemma report_serialised:
  assumes "dump_ok env" "dumpable d"
  shows "report env dir k ms d fs \<noteq> Throw fs'"
proof -
  have "env_dump env d \<noteq> None" using assms by (simp only: dump_ok_def)
  from report_returns [OF this, of dir k ms fs] show ?thesis by auto
qed

interpretation json_file: report_sink "report env dir" "stored_report dir"
    "\<lambda>k ms. env_can_open env (report_filename dir (report_prefix k) ms)" "env_dump env"
  for env dir
proof (unfold_locales, goal_cases)
  case (1 k ms d f)
  show ?case by (rule report_ends)
qed (auto simp: report_outcomes stored_report_def report_filename_inj report_prefix_inj split: option.splits if_splits)

section \<open>Properties\<close>

text \<open>C33: Reports do not get in each other's way: in any sequence of reports of the four kinds, some of which may
  throw, the document of a report that can be serialised is in its file afterwards unless a later report
  has the same kind and the same millisecond.\<close>

theorem report_is_kept:
  assumes "env_can_open env (report_filename dir (report_prefix k) ms)" and "env_dump env d = Some contents"
    and "(k, ms) \<notin> set (map (\<lambda>(k, ms, d). (k, ms)) later)"
  shows "stored_report dir (emit_all (report env dir) (earlier @ (k, ms, d) # later) fs) k ms = Some contents"
  using json_file.emit_all_last [OF assms] .

text \<open>A serialiser that knows nothing but texts, for the examples.\<close>

definition demo_dump :: "json \<Rightarrow> string option" where
  "demo_dump d = (if \<not> dumpable d then None else case d of JStr s \<Rightarrow> Some s | _ \<Rightarrow> Some ''object'')"

definition demo_env :: environment where
  "demo_env = \<lparr>env_dump = demo_dump, env_can_open = (\<lambda>_. True)\<rparr>"

lemma demo_env_fields: "env_can_open demo_env f" "env_dump demo_env d = demo_dump d"
  by (simp_all add: demo_env_def)

lemma demo_dump_ok: "dump_ok demo_env"
  by (simp add: dump_ok_def demo_env_def demo_dump_def split: json.split)

lemma report_is_kept_witness:
  "stored_report ''/tmp''
     (emit_all (report demo_env ''/tmp'')
       ([(Leaks, 7, JStr [CHR 0xC3])] @ (Leaks, 7, JStr ''a'') # [(HighCpu, 7, JStr ''b''), (Leaks, 8, JStr ''c'')]) Map.empty)
     Leaks 7 = Some ''a''"
  by (rule report_is_kept)
    (simp_all add: demo_env_fields demo_dump_def after_char_def byte_in_def)

text \<open>Two reports of one kind in the same millisecond share one file name, and the second
  overwrites the first: the first leaves no trace at all.\<close>

theorem same_millisecond_overwrites:
  assumes "report env dir k ms d1 fs = Ret () fs1 \<or> report env dir k ms d1 fs = Throw fs1"
  shows "report env dir k ms d2 fs1 = report env dir k ms d2 fs"
  using assms by (auto simp: report_outcomes split: option.splits if_splits)

end
