(* ===== verification/Io_Monitor.thy ===== *)
theory Io_Monitor
  imports Tracking Reporter
begin

text \<open>
  \<open>IoMonitor\<close> (src/io/io_monitor.cpp): the table of open descriptors, its mutex, the report of the
  descriptors that were never closed, and the interposed functions of macOS and Windows. (Those of
  Linux are in \<open>Io_Hooks\<close>.)

  \<open>int\<close> is a 32-bit word read with its sign. The mutex is not recursive: the model has one thread
  here, and what C++ says of locking a \<open>std::mutex\<close> that the thread already holds is that the behaviour is
  undefined (\<open>Undefined\<close>; some libraries throw, some wait). The unordered map is a finite map; its iteration
  order is a parameter.
\<close>

section \<open>State\<close>

record fd_info =
  fi_path :: string
  fi_is_socket :: bool

record io_state =
  enabled :: bool
  locked :: bool
  open_fds :: "u32 \<Rightarrow> fd_info option"
  detoured :: bool \<comment> \<open>the three Detours are attached (Windows)\<close>

definition io_start :: io_state where
  "io_start = \<lparr>enabled = False, locked = False, open_fds = Map.empty, detoured = False\<rparr>"

section \<open>Operations\<close>

text \<open>\<open>std::lock_guard\<close> around a body that cannot fail.\<close>

definition with_lock :: "(io_state \<Rightarrow> io_state) \<Rightarrow> io_state \<Rightarrow> (unit, io_state) outcome" where
  "with_lock body st = (if locked st then Undefined else Ret () (body st))"

definition Enable :: "platform \<Rightarrow> io_state \<Rightarrow> io_state" where
  "Enable pf st =
     (if enabled st then st
      else let st1 = st\<lparr>enabled := True\<rparr> in if pf = Windows then st1\<lparr>detoured := True\<rparr> else st1)"

definition Disable :: "platform \<Rightarrow> io_state \<Rightarrow> (unit, io_state) outcome" where
  "Disable pf st =
     (if \<not> enabled st then Ret () st
      else let st1 = st\<lparr>enabled := False\<rparr>;
               st2 = (if pf = Windows then st1\<lparr>detoured := False\<rparr> else st1)
           in with_lock (\<lambda>s. s\<lparr>open_fds := Map.empty\<rparr>) st2)"

definition IsEnabled :: "io_state \<Rightarrow> bool" where
  "IsEnabled st = enabled st"

text \<open>\<open>snprintf\<close> into \<open>path[1024]\<close>.\<close>

definition fit_path :: "string \<Rightarrow> string" where
  "fit_path s = take 1023 s"

text \<open>The common part of \<open>OnOpen\<close> and \<open>OnSocket\<close>.\<close>

definition store_fd :: "u32 \<Rightarrow> fd_info \<Rightarrow> io_state \<Rightarrow> (unit, io_state) outcome" where
  "store_fd fd info st =
     (if \<not> enabled st \<or> sint fd < 0 then Ret () st
      else with_lock (\<lambda>s. s\<lparr>open_fds := (open_fds s)(fd \<mapsto> info)\<rparr>) st)"

definition OnOpen :: "u32 \<Rightarrow> string option \<Rightarrow> io_state \<Rightarrow> (unit, io_state) outcome" where
  "OnOpen fd path st =
     store_fd fd \<lparr>fi_path = (case path of Some p \<Rightarrow> fit_path p | None \<Rightarrow> ''''), fi_is_socket = False\<rparr> st"

definition OnSocket :: "u32 \<Rightarrow> io_state \<Rightarrow> (unit, io_state) outcome" where
  "OnSocket fd st = store_fd fd \<lparr>fi_path = fit_path ''socket'', fi_is_socket = True\<rparr> st"

definition OnClose :: "u32 \<Rightarrow> io_state \<Rightarrow> (unit, io_state) outcome" where
  "OnClose fd st =
     (if \<not> enabled st \<or> sint fd < 0 then Ret () st
      else with_lock (\<lambda>s. s\<lparr>open_fds := (open_fds s)(fd := None)\<rparr>) st)"

definition fd_json :: "u32 \<Rightarrow> fd_info \<Rightarrow> json" where
  "fd_json fd info =
     JObj [(''fd'', JInt (sint fd)), (''path'', JStr (fi_path info)), (''is_socket'', JBool (fi_is_socket info))]"

definition io_report :: "(u32 \<times> fd_info) list \<Rightarrow> json" where
  "io_report entries =
     JObj [(''type'', JStr ''fd_leak''), (''fds'', JArr (map (\<lambda>(fd, info). fd_json fd info) entries))]"

text \<open>The reporter has a state \<open>'f\<close> of its own. It runs while the mutex is held, and may itself call
  into the monitor.\<close>

definition ReportLeakedFds ::
  "((u32 \<Rightarrow> fd_info option) \<Rightarrow> (u32 \<times> fd_info) list) \<Rightarrow>
   (json \<Rightarrow> io_state \<times> 'f \<Rightarrow> (unit, io_state \<times> 'f) outcome) option \<Rightarrow>
   io_state \<times> 'f \<Rightarrow> (unit, io_state \<times> 'f) outcome" where
  "ReportLeakedFds iter reporter st =
     (let mon = fst st; unlock = map_prod (\<lambda>s. s\<lparr>locked := False\<rparr>) id in
      if \<not> enabled mon then Ret () st
      else if locked mon then Undefined
      else if iter (open_fds mon) = [] then Ret () st
      else case reporter of
        None \<Rightarrow> Ret () st
      | Some emit \<Rightarrow>
          obind (emit (io_report (iter (open_fds mon))) (mon\<lparr>locked := True\<rparr>, snd st))
            (\<lambda>_ s. Ret () (unlock s)) unlock)"

definition fd_iter_ok :: "((u32 \<Rightarrow> fd_info option) \<Rightarrow> (u32 \<times> fd_info) list) \<Rightarrow> bool" where
  "fd_iter_ok iter \<longleftrightarrow> (\<forall>m. finite (dom m) \<longrightarrow> distinct (map fst (iter m)) \<and> map_of (iter m) = m)"

section \<open>The interposed functions of macOS\<close>

text \<open>The system calls are parameters acting on the kernel's state \<open>'k\<close>. \<open>vararg\<close> is the variadic
  argument, read only with \<open>O_CREAT\<close>.\<close>

definition my_open ::
  "(string option \<Rightarrow> u32 \<Rightarrow> u32 \<Rightarrow> 'k \<Rightarrow> u32 \<times> 'k) \<Rightarrow> string option \<Rightarrow> u32 \<Rightarrow> u32 \<Rightarrow> io_state \<times> 'k \<Rightarrow>
   (u32, io_state \<times> 'k) outcome" where
  "my_open sys path oflag vararg st =
     (let mode = (if oflag AND 0x200 \<noteq> 0 then vararg else 0);
          (fd, k) = sys path oflag mode (snd st)
      in if 0 \<le> sint fd
         then obind (OnOpen fd path (fst st)) (\<lambda>_ s. Ret fd (s, k)) (\<lambda>s. (s, k))
         else Ret fd (fst st, k))"

definition my_close :: "(u32 \<Rightarrow> 'k \<Rightarrow> u32 \<times> 'k) \<Rightarrow> u32 \<Rightarrow> io_state \<times> 'k \<Rightarrow> (u32, io_state \<times> 'k) outcome" where
  "my_close sys fd st =
     obind (OnClose fd (fst st)) (\<lambda>_ s. let (r, k) = sys fd (snd st) in Ret r (s, k)) (\<lambda>s. (s, snd st))"

definition my_socket ::
  "(u32 \<Rightarrow> u32 \<Rightarrow> u32 \<Rightarrow> 'k \<Rightarrow> u32 \<times> 'k) \<Rightarrow> u32 \<Rightarrow> u32 \<Rightarrow> u32 \<Rightarrow> io_state \<times> 'k \<Rightarrow> (u32, io_state \<times> 'k) outcome" where
  "my_socket sys dmn typ protocol st =
     (let (fd, k) = sys dmn typ protocol (snd st)
      in if 0 \<le> sint fd
         then obind (OnSocket fd (fst st)) (\<lambda>_ s. Ret fd (s, k)) (\<lambda>s. (s, k))
         else Ret fd (fst st, k))"

section \<open>The detoured functions of Windows\<close>

text \<open>A handle is a 64-bit word; \<open>(int)(intptr_t)h\<close> keeps its low half.\<close>

definition INVALID_HANDLE_VALUE :: u64 where
  "INVALID_HANDLE_VALUE = - 1"

definition HookedCreateFileA ::
  "(string \<Rightarrow> 'k \<Rightarrow> u64 \<times> 'k) \<Rightarrow> string \<Rightarrow> io_state \<times> 'k \<Rightarrow> (u64, io_state \<times> 'k) outcome" where
  "HookedCreateFileA sys name st =
     (let (h, k) = sys name (snd st)
      in if h \<noteq> INVALID_HANDLE_VALUE
         then obind (OnOpen (ucast h) (Some name) (fst st)) (\<lambda>_ s. Ret h (s, k)) (\<lambda>s. (s, k))
         else Ret h (fst st, k))"

definition HookedCreateFileW ::
  "('w \<Rightarrow> 'k \<Rightarrow> u64 \<times> 'k) \<Rightarrow> 'w \<Rightarrow> io_state \<times> 'k \<Rightarrow> (u64, io_state \<times> 'k) outcome" where
  "HookedCreateFileW sys name st =
     (let (h, k) = sys name (snd st)
      in if h \<noteq> INVALID_HANDLE_VALUE
         then obind (OnOpen (ucast h) (Some ''<wide path>'') (fst st)) (\<lambda>_ s. Ret h (s, k)) (\<lambda>s. (s, k))
         else Ret h (fst st, k))"

definition HookedCloseHandle ::
  "(u64 \<Rightarrow> 'k \<Rightarrow> bool \<times> 'k) \<Rightarrow> u64 \<Rightarrow> io_state \<times> 'k \<Rightarrow> (bool, io_state \<times> 'k) outcome" where
  "HookedCloseHandle sys h st =
     obind (OnClose (ucast h) (fst st)) (\<lambda>_ s. let (r, k) = sys h (snd st) in Ret r (s, k)) (\<lambda>s. (s, snd st))"

section \<open>The table is a gated table\<close>

definition io_armed :: "io_state \<Rightarrow> bool" where
  "io_armed st \<longleftrightarrow> enabled st \<and> \<not> locked st"

definition add_fd :: "u32 \<Rightarrow> fd_info \<Rightarrow> io_state \<Rightarrow> io_state" where
  "add_fd fd info st = (case store_fd fd info st of Ret _ s \<Rightarrow> s | _ \<Rightarrow> st)"

definition del_fd :: "u32 \<Rightarrow> io_state \<Rightarrow> io_state" where
  "del_fd fd st = (case OnClose fd st of Ret _ s \<Rightarrow> s | _ \<Rightarrow> st)"

interpretation fd_table: gated_table io_armed open_fds "\<lambda>fd. 0 \<le> sint fd" add_fd del_fd
  by unfold_locales
    (auto simp: io_armed_def add_fd_def del_fd_def store_fd_def OnClose_def with_lock_def)

text \<open>The events of a history of callbacks.\<close>

datatype io_event = Opened u32 "string option" | Socketed u32 | Closed u32

fun io_event_call :: "io_event \<Rightarrow> io_state \<Rightarrow> (unit, io_state) outcome" where
  "io_event_call (Opened fd path) st = OnOpen fd path st"
| "io_event_call (Socketed fd) st = OnSocket fd st"
| "io_event_call (Closed fd) st = OnClose fd st"

fun io_events :: "io_event list \<Rightarrow> io_state \<Rightarrow> (unit, io_state) outcome" where
  "io_events [] st = Ret () st"
| "io_events (e # es) st = obnd (io_event_call e st) (\<lambda>_ s. io_events es s)"

fun as_track :: "io_event \<Rightarrow> (u32, fd_info) track_event" where
  "as_track (Opened fd path) =
     Acquire fd \<lparr>fi_path = (case path of Some p \<Rightarrow> fit_path p | None \<Rightarrow> ''''), fi_is_socket = False\<rparr>"
| "as_track (Socketed fd) = Acquire fd \<lparr>fi_path = ''socket'', fi_is_socket = True\<rparr>"
| "as_track (Closed fd) = Release fd"

lemma store_fd_armed: "\<not> locked st \<Longrightarrow> store_fd fd info st = Ret () (add_fd fd info st)"
  by (simp add: store_fd_def add_fd_def with_lock_def)

lemma OnClose_armed: "\<not> locked st \<Longrightarrow> OnClose fd st = Ret () (del_fd fd st)"
  by (simp add: OnClose_def del_fd_def with_lock_def)

lemma unlocked_kept [simp]:
  "locked (add_fd fd info st) = locked st" "locked (del_fd fd st) = locked st"
  "enabled (add_fd fd info st) = enabled st" "enabled (del_fd fd st) = enabled st"
  by (auto simp: add_fd_def del_fd_def store_fd_def OnClose_def with_lock_def)

lemma io_event_call_track:
  "\<not> locked st \<Longrightarrow> io_event_call e st = Ret () (apply_event add_fd del_fd (as_track e) st)"
  by (cases e)
    (simp_all add: OnOpen_def OnSocket_def store_fd_armed OnClose_armed apply_event_def fit_path_def)

lemma io_events_track:
  "\<not> locked st \<Longrightarrow> io_events es st = Ret () (apply_events add_fd del_fd (map as_track es) st)"
proof (induction es arbitrary: st)
  case (Cons e es)
  have "\<not> locked (apply_event add_fd del_fd (as_track e) st)"
    using Cons.prems by (cases "as_track e") (simp_all add: apply_event_def)
  with Cons io_event_call_track [OF Cons.prems, of e] show ?case by (simp add: apply_events_def)
qed (simp add: apply_events_def)

text \<open>An iteration order: by descriptor.\<close>

definition demo_fd_iter :: "(u32 \<Rightarrow> fd_info option) \<Rightarrow> (u32 \<times> fd_info) list" where
  "demo_fd_iter m = map (\<lambda>k. (k, the (m k))) (sorted_list_of_set (dom m))"

lemma demo_fd_iter_ok: "fd_iter_ok demo_fd_iter"
  unfolding fd_iter_ok_def
proof (intro allI impI)
  fix m :: "u32 \<Rightarrow> fd_info option"
  assume fin: "finite (dom m)"
  have "map_of (demo_fd_iter m) k = m k" for k
    using fin by (cases "m k") (auto simp: demo_fd_iter_def map_of_map_restrict restrict_map_def)
  then show "distinct (map fst (demo_fd_iter m)) \<and> map_of (demo_fd_iter m) = m"
    using fin by (auto simp: demo_fd_iter_def comp_def)
qed

text \<open>A history of \<open>Enable\<close> (true) and \<open>Disable\<close> (false) calls.\<close>

fun switch_all :: "platform \<Rightarrow> bool list \<Rightarrow> io_state \<Rightarrow> (unit, io_state) outcome" where
  "switch_all pf [] st = Ret () st"
| "switch_all pf (on # ons) st =
     obnd (if on then Ret () (Enable pf st) else Disable pf st) (\<lambda>_ s. switch_all pf ons s)"

section \<open>Properties\<close>

text \<open>After any history of callbacks on an enabled monitor every callback has returned, and a
  descriptor is in the table exactly if the last callback about it opened it, with the path
  (its first 1023 bytes) or \<open>socket\<close>; negative descriptors never are. On a disabled monitor the
  callbacks change nothing.\<close>

theorem io_table_is_outstanding:
  assumes "\<not> locked st"
  shows "\<exists>t. io_events es st = Ret () t \<and>
     (enabled st \<longrightarrow> (\<forall>fd. open_fds t fd =
        (if 0 \<le> sint fd then outstanding (open_fds st fd) (map as_track es) fd else open_fds st fd))) \<and>
     (\<not> enabled st \<longrightarrow> open_fds t = open_fds st)"
  using io_events_track [OF assms, of es] assms fd_table.table_events [of st _ "map as_track es"]
    fd_table.table_bad_key [of _ "map as_track es" st] fd_table.table_unarmed [of st "map as_track es"]
  by (simp add: io_armed_def)

lemma io_table_is_outstanding_witness:
  "\<exists>t. io_events [Opened 3 (Some ''/etc/hosts''), Socketed 4, Closed 3, Opened (- 1) None] (Enable Linux io_start) = Ret () t \<and>
     open_fds t 3 = None \<and> open_fds t 4 = Some \<lparr>fi_path = ''socket'', fi_is_socket = True\<rparr>"
proof -
  have "\<not> locked (Enable Linux io_start)" by (simp add: Enable_def io_start_def)
  from io_table_is_outstanding
    [OF this, of "[Opened 3 (Some ''/etc/hosts''), Socketed 4, Closed 3, Opened (- 1) None]"]
  show ?thesis by (auto simp: Enable_def io_start_def)
qed

text \<open>With a reporter that stays away from the monitor, \<open>ReportLeakedFds\<close> returns, releases the
  mutex, keeps the table and hands over one report that lists every open descriptor once, or none
  if no descriptor is open.\<close>

theorem fd_report_lists_open_fds:
  assumes "fd_iter_ok iter" and "finite (dom (open_fds st))" and "enabled st" and "\<not> locked st"
    and "\<And>d s. emit d s = Ret () (fst s, sink d (snd s))"
  shows "(open_fds st = Map.empty \<longrightarrow> ReportLeakedFds iter (Some emit) (st, f) = Ret () (st, f)) \<and>
         (open_fds st \<noteq> Map.empty \<longrightarrow>
            (\<exists>entries. ReportLeakedFds iter (Some emit) (st, f) = Ret () (st, sink (io_report entries) f) \<and>
               distinct (map fst entries) \<and> map_of entries = open_fds st))"
proof -
  have it: "distinct (map fst (iter (open_fds st)))" "map_of (iter (open_fds st)) = open_fds st"
    using assms(1,2) by (simp_all add: fd_iter_ok_def)
  then have "iter (open_fds st) = [] \<longleftrightarrow> open_fds st = Map.empty" by (metis map_of_eq_empty_iff)
  moreover have "st\<lparr>locked := False\<rparr> = st" using assms(4) by simp
  ultimately show ?thesis
    using it assms(3,4) by (auto simp: ReportLeakedFds_def assms(5) intro!: exI [of _ "iter (open_fds st)"])
qed

lemma fd_report_lists_open_fds_witness:
  "\<exists>entries. ReportLeakedFds demo_fd_iter (Some (\<lambda>d s. Ret () (fst s, d # snd s)))
       (add_fd 3 \<lparr>fi_path = ''a'', fi_is_socket = False\<rparr> (Enable Linux io_start), []) =
     Ret () (add_fd 3 \<lparr>fi_path = ''a'', fi_is_socket = False\<rparr> (Enable Linux io_start), [io_report entries]) \<and>
     map_of entries = [3 \<mapsto> \<lparr>fi_path = ''a'', fi_is_socket = False\<rparr>]"
proof -
  define st where "st = add_fd 3 \<lparr>fi_path = ''a'', fi_is_socket = False\<rparr> (Enable Linux io_start)"
  have st: "open_fds st = [3 \<mapsto> \<lparr>fi_path = ''a'', fi_is_socket = False\<rparr>]" "enabled st" "\<not> locked st"
    by (simp_all add: st_def add_fd_def store_fd_def Enable_def io_start_def with_lock_def)
  from fd_report_lists_open_fds [OF demo_fd_iter_ok _ st(2,3), of "\<lambda>d s. Ret () (fst s, d # snd s)" "\<lambda>d f. d # f" "[]"]
  show ?thesis unfolding st_def [symmetric] st(1) by auto
qed

text \<open>The report is made with the mutex held. If the reporter opens its file through the detoured
  \<open>CreateFileW\<close>, the thread locks the mutex that it holds: undefined behaviour.\<close>

theorem fd_report_relocks:
  assumes "enabled st" and "iter (open_fds st) \<noteq> []"
    and "\<And>d s. emit d s = obind (HookedCreateFileW sys name (fst s, k)) (\<lambda>h t. Ret () (fst t, snd s)) (\<lambda>t. (fst t, snd s))"
    and "fst (sys name k) \<noteq> INVALID_HANDLE_VALUE" and "0 \<le> sint (ucast (fst (sys name k)) :: u32)"
  shows "ReportLeakedFds iter (Some emit) (st, f) = Undefined"
  using assms by (auto simp: ReportLeakedFds_def HookedCreateFileW_def OnOpen_def store_fd_def with_lock_def
      case_prod_beta Let_def)

lemma fd_report_relocks_witness:
  "ReportLeakedFds demo_fd_iter
     (Some (\<lambda>d s. obind (HookedCreateFileW (\<lambda>name k. (64, k)) ''r.json'' (fst s, ()))
        (\<lambda>h t. Ret () (fst t, snd s)) (\<lambda>t. (fst t, snd s))))
     (add_fd 3 \<lparr>fi_path = ''a'', fi_is_socket = False\<rparr> (Enable Windows io_start), f) = Undefined"
proof -
  define st where "st = add_fd 3 \<lparr>fi_path = ''a'', fi_is_socket = False\<rparr> (Enable Windows io_start)"
  have st: "open_fds st = [3 \<mapsto> \<lparr>fi_path = ''a'', fi_is_socket = False\<rparr>]" "enabled st"
    by (simp_all add: st_def add_fd_def store_fd_def Enable_def io_start_def with_lock_def)
  then have iter: "demo_fd_iter (open_fds st) \<noteq> []" by (simp add: demo_fd_iter_def)
  show ?thesis
    unfolding st_def [symmetric]
    by (rule fd_report_relocks [where iter = demo_fd_iter and sys = "\<lambda>name k. (64, k)" and
          name = "''r.json''" and k = "()", OF st(2) iter])
      (simp_all add: INVALID_HANDLE_VALUE_def)
qed

text \<open>The detours are attached exactly while the monitor is enabled on Windows, whatever the order of
  \<open>Enable\<close> and \<open>Disable\<close>, and \<open>Disable\<close> forgets every descriptor.\<close>

theorem detours_follow_enabled:
  assumes "\<not> locked st" and "detoured st \<longleftrightarrow> pf = Windows \<and> enabled st"
  shows "\<exists>t. switch_all pf ons st = Ret () t \<and> (detoured t \<longleftrightarrow> pf = Windows \<and> enabled t) \<and> \<not> locked t \<and>
     (ons \<noteq> [] \<longrightarrow> enabled t = last ons) \<and> (False \<in> set ons \<and> enabled st \<longrightarrow> open_fds t = Map.empty)"
proof -
  have *: "\<exists>t. switch_all pf ons st = Ret () t \<and> (detoured t \<longleftrightarrow> pf = Windows \<and> enabled t) \<and> \<not> locked t \<and>
     (ons \<noteq> [] \<longrightarrow> enabled t = last ons) \<and>
     ((False \<in> set ons \<and> enabled st) \<or> open_fds st = Map.empty \<longrightarrow> open_fds t = Map.empty)"
    if "\<not> locked st" "detoured st \<longleftrightarrow> pf = Windows \<and> enabled st" for st
    using that
  proof (induction ons arbitrary: st)
    case (Cons on ons)
    define s where "s = (if on then Enable pf st else if \<not> enabled st then st
      else if pf = Windows then st\<lparr>enabled := False, detoured := False, open_fds := Map.empty\<rparr>
      else st\<lparr>enabled := False, open_fds := Map.empty\<rparr>)"
    have s: "switch_all pf (on # ons) st = switch_all pf ons s"
      using Cons.prems by (auto simp: s_def Disable_def with_lock_def Let_def)
    have "\<not> locked s" "detoured s \<longleftrightarrow> pf = Windows \<and> enabled s" "enabled s = on"
      "(\<not> on \<and> enabled st) \<or> open_fds st = Map.empty \<longrightarrow> open_fds s = Map.empty" "on \<and> enabled st \<longrightarrow> s = st"
      using Cons.prems by (auto simp: s_def Enable_def Let_def)
    with Cons.IH [of s] s show ?case by auto
  qed simp
  from * [OF assms] show ?thesis by blast
qed

lemma detours_follow_enabled_witness:
  "\<exists>t. switch_all Windows [True, True, False, True] io_start = Ret () t \<and> detoured t \<and> enabled t"
proof -
  have "\<not> locked io_start" "detoured io_start \<longleftrightarrow> Windows = Windows \<and> enabled io_start"
    by (simp_all add: io_start_def)
  from detours_follow_enabled [OF this, of "[True, True, False, True]"] show ?thesis by auto
qed

end
