(* ===== verification/Io_Hooks.thy ===== *)
theory Io_Hooks
  imports Io_Monitor Once_Init
begin

text \<open>
  The IO interposition on Linux (src/io/linux_io_hooks.cpp): \<open>open\<close>, \<open>open64\<close>, \<open>openat\<close>,
  \<open>openat64\<close>, \<open>close\<close> and \<open>socket\<close>, each calling the function found by \<open>dlsym\<close> and then the
  monitor. The system calls act on an abstract kernel state \<open>'k\<close> and are parameters.
\<close>

section \<open>State and host\<close>

datatype open_kind = Open | Open64 | OpenAt | OpenAt64

record 'k io_host =
  io_dlsym :: "string \<Rightarrow> addr"
  sys_open :: "open_kind \<Rightarrow> u32 \<Rightarrow> string option \<Rightarrow> u32 \<Rightarrow> u32 \<Rightarrow> 'k \<Rightarrow> u32 \<times> 'k"
    \<comment> \<open>which function, directory, path, flags, mode\<close>
  sys_close :: "u32 \<Rightarrow> 'k \<Rightarrow> u32 \<times> 'k"
  sys_socket :: "u32 \<Rightarrow> u32 \<Rightarrow> u32 \<Rightarrow> 'k \<Rightarrow> u32 \<times> 'k"

record 'k io_hooks =
  real_open :: addr
  real_open64 :: addr
  real_openat :: addr
  real_openat64 :: addr
  real_close :: addr
  real_socket :: addr
  io_hooks_initialized :: bool
  io_hooks_initializing :: bool
  monitor :: io_state
  kernel :: 'k

section \<open>Initialisation\<close>

definition InitIoHooks :: "'k io_host \<Rightarrow> 'k io_hooks \<Rightarrow> 'k io_hooks" where
  "InitIoHooks host st =
     st\<lparr>real_open := io_dlsym host ''open'',
        real_open64 := io_dlsym host ''open64'',
        real_openat := io_dlsym host ''openat'',
        real_openat64 := io_dlsym host ''openat64'',
        real_close := io_dlsym host ''close'',
        real_socket := io_dlsym host ''socket''\<rparr>"

definition EnsureIoInit :: "'k io_host \<Rightarrow> 'k io_hooks \<Rightarrow> (unit, 'k io_hooks) outcome" where
  "EnsureIoInit host st =
     (if io_hooks_initialized st then Ret () st
      else if io_hooks_initializing st then Hang
      else Ret () ((InitIoHooks host (st\<lparr>io_hooks_initializing := True\<rparr>))\<lparr>io_hooks_initialized := True\<rparr>))"

definition domovoy_linux_io_hooks_init :: "'k io_host \<Rightarrow> 'k io_hooks \<Rightarrow> (unit, 'k io_hooks) outcome" where
  [simp]: "domovoy_linux_io_hooks_init host st = EnsureIoInit host st"

section \<open>The overriding functions\<close>

definition O_CREAT :: u32 where
  "O_CREAT = 0x40"

definition O_TMPFILE :: u32 where
  "O_TMPFILE = 0x410000"

text \<open>The variadic mode, read only with \<open>O_CREAT\<close>.\<close>

definition open_mode :: "u32 \<Rightarrow> u32 \<Rightarrow> u32" where
  "open_mode oflag vararg = (if oflag AND O_CREAT \<noteq> 0 then vararg else 0)"

text \<open>What the four functions do after the call: tell the monitor about a valid descriptor.\<close>

definition finish_open :: "string option \<Rightarrow> u32 \<times> 'k \<Rightarrow> 'k io_hooks \<Rightarrow> (u32, 'k io_hooks) outcome" where
  "finish_open path r st =
     (let (fd, k) = r; s = st\<lparr>kernel := k\<rparr>
      in if 0 \<le> sint fd
         then obind (OnOpen fd path (monitor s)) (\<lambda>_ m. Ret fd (s\<lparr>monitor := m\<rparr>)) (\<lambda>m. s\<lparr>monitor := m\<rparr>)
         else Ret fd s)"

definition open_hook :: "'k io_host \<Rightarrow> string option \<Rightarrow> u32 \<Rightarrow> u32 \<Rightarrow> 'k io_hooks \<Rightarrow> (u32, 'k io_hooks) outcome" where
  "open_hook host path oflag vararg st =
     obnd (EnsureIoInit host st) (\<lambda>_ s.
       let mode = open_mode oflag vararg in
       if real_open s = nullptr then Undefined
       else finish_open path (sys_open host Open 0 path oflag mode (kernel s)) s)"

definition open64_hook :: "'k io_host \<Rightarrow> string option \<Rightarrow> u32 \<Rightarrow> u32 \<Rightarrow> 'k io_hooks \<Rightarrow> (u32, 'k io_hooks) outcome" where
  "open64_hook host path oflag vararg st =
     obnd (EnsureIoInit host st) (\<lambda>_ s.
       let mode = open_mode oflag vararg in
       if real_open64 s \<noteq> nullptr
       then finish_open path (sys_open host Open64 0 path oflag mode (kernel s)) s
       else if real_open s = nullptr then Undefined
       else finish_open path (sys_open host Open 0 path oflag mode (kernel s)) s)"

definition openat_hook ::
  "'k io_host \<Rightarrow> u32 \<Rightarrow> string option \<Rightarrow> u32 \<Rightarrow> u32 \<Rightarrow> 'k io_hooks \<Rightarrow> (u32, 'k io_hooks) outcome" where
  "openat_hook host dirfd path oflag vararg st =
     obnd (EnsureIoInit host st) (\<lambda>_ s.
       let mode = open_mode oflag vararg in
       if real_openat s = nullptr then Undefined
       else finish_open path (sys_open host OpenAt dirfd path oflag mode (kernel s)) s)"

definition openat64_hook ::
  "'k io_host \<Rightarrow> u32 \<Rightarrow> string option \<Rightarrow> u32 \<Rightarrow> u32 \<Rightarrow> 'k io_hooks \<Rightarrow> (u32, 'k io_hooks) outcome" where
  "openat64_hook host dirfd path oflag vararg st =
     obnd (EnsureIoInit host st) (\<lambda>_ s.
       let mode = open_mode oflag vararg in
       if real_openat64 s \<noteq> nullptr
       then finish_open path (sys_open host OpenAt64 dirfd path oflag mode (kernel s)) s
       else if real_openat s = nullptr then Undefined
       else finish_open path (sys_open host OpenAt dirfd path oflag mode (kernel s)) s)"

definition close_hook :: "'k io_host \<Rightarrow> u32 \<Rightarrow> 'k io_hooks \<Rightarrow> (u32, 'k io_hooks) outcome" where
  "close_hook host fd st =
     obnd (EnsureIoInit host st) (\<lambda>_ s.
       obind (OnClose fd (monitor s))
         (\<lambda>_ m. let s' = s\<lparr>monitor := m\<rparr> in
            if real_close s' \<noteq> nullptr
            then let (r, k) = sys_close host fd (kernel s') in Ret r (s'\<lparr>kernel := k\<rparr>)
            else Ret (- 1) s')
         (\<lambda>m. s\<lparr>monitor := m\<rparr>))"

definition socket_hook :: "'k io_host \<Rightarrow> u32 \<Rightarrow> u32 \<Rightarrow> u32 \<Rightarrow> 'k io_hooks \<Rightarrow> (u32, 'k io_hooks) outcome" where
  "socket_hook host dmn typ protocol st =
     obnd (EnsureIoInit host st) (\<lambda>_ s.
       if real_socket s = nullptr then Undefined
       else let (fd, k) = sys_socket host dmn typ protocol (kernel s);
                s' = s\<lparr>kernel := k\<rparr>
            in if 0 \<le> sint fd
               then obind (OnSocket fd (monitor s')) (\<lambda>_ m. Ret fd (s'\<lparr>monitor := m\<rparr>)) (\<lambda>m. s'\<lparr>monitor := m\<rparr>)
               else Ret fd s')"

section \<open>What is assumed of the kernel\<close>

text \<open>\<open>fds k\<close> is the abstract content of the descriptor table: what each descriptor was opened as.
  \<open>close\<close> always releases the descriptor, also when it reports an error.\<close>

definition as_opened :: "string option \<Rightarrow> fd_info" where
  "as_opened path = \<lparr>fi_path = (case path of Some p \<Rightarrow> p | None \<Rightarrow> ''''), fi_is_socket = False\<rparr>"

definition new_fd :: "('k \<Rightarrow> u32 \<Rightarrow> fd_info option) \<Rightarrow> 'k \<Rightarrow> fd_info \<Rightarrow> u32 \<Rightarrow> 'k \<Rightarrow> bool" where
  "new_fd fds k info fd k' \<longleftrightarrow>
     (if sint fd < 0 then fds k' = fds k else fds k fd = None \<and> fds k' = (fds k)(fd \<mapsto> info))"

definition kernel_ok :: "'k io_host \<Rightarrow> ('k \<Rightarrow> u32 \<Rightarrow> fd_info option) \<Rightarrow> bool" where
  "kernel_ok host fds \<longleftrightarrow>
     (\<forall>k fd. sint fd < 0 \<longrightarrow> fds k fd = None) \<and>
     (\<forall>kd d p fl m k fd k'. sys_open host kd d p fl m k = (fd, k') \<longrightarrow> new_fd fds k (as_opened p) fd k') \<and>
     (\<forall>d t p k fd k'. sys_socket host d t p k = (fd, k') \<longrightarrow>
        new_fd fds k \<lparr>fi_path = ''socket'', fi_is_socket = True\<rparr> fd k') \<and>
     (\<forall>fd k r k'. sys_close host fd k = (r, k') \<longrightarrow> fds k' = (fds k)(fd := None))"

text \<open>The four functions every C library has; the two 64-bit variants may be missing.\<close>

definition io_symbols :: "'k io_host \<Rightarrow> bool" where
  "io_symbols host \<longleftrightarrow>
     (\<forall>name \<in> {''open'', ''openat'', ''close'', ''socket''}. io_dlsym host name \<noteq> nullptr)"

section \<open>Programs\<close>

datatype io_call =
    COpen string u32 u32 | COpen64 string u32 u32
  | COpenAt u32 string u32 u32 | COpenAt64 u32 string u32 u32
  | CClose u32 | CSocket u32 u32 u32

fun run_io :: "'k io_host \<Rightarrow> io_call \<Rightarrow> 'k io_hooks \<Rightarrow> (u32, 'k io_hooks) outcome" where
  "run_io host (COpen p fl m) st = open_hook host (Some p) fl m st"
| "run_io host (COpen64 p fl m) st = open64_hook host (Some p) fl m st"
| "run_io host (COpenAt d p fl m) st = openat_hook host d (Some p) fl m st"
| "run_io host (COpenAt64 d p fl m) st = openat64_hook host d (Some p) fl m st"
| "run_io host (CClose fd) st = close_hook host fd st"
| "run_io host (CSocket d t p) st = socket_hook host d t p st"

fun io_calls :: "'k io_host \<Rightarrow> io_call list \<Rightarrow> 'k io_hooks \<Rightarrow> (u32 list, 'k io_hooks) outcome" where
  "io_calls host [] st = Ret [] st"
| "io_calls host (c # cs) st =
     obnd (run_io host c st) (\<lambda>r s. obnd (io_calls host cs s) (\<lambda>rs t. Ret (r # rs) t))"

text \<open>The same call without the hooks: the system call the program meant.\<close>

fun direct_call :: "'k io_host \<Rightarrow> io_call \<Rightarrow> 'k \<Rightarrow> u32 \<times> 'k" where
  "direct_call host (COpen p fl m) k = sys_open host Open 0 (Some p) fl m k"
| "direct_call host (COpen64 p fl m) k = sys_open host Open64 0 (Some p) fl m k"
| "direct_call host (COpenAt d p fl m) k = sys_open host OpenAt d (Some p) fl m k"
| "direct_call host (COpenAt64 d p fl m) k = sys_open host OpenAt64 d (Some p) fl m k"
| "direct_call host (CClose fd) k = sys_close host fd k"
| "direct_call host (CSocket d t p) k = sys_socket host d t p k"

fun call_flags :: "io_call \<Rightarrow> (u32 \<times> u32) option" where
  "call_flags (COpen p fl m) = Some (fl, m)"
| "call_flags (COpen64 p fl m) = Some (fl, m)"
| "call_flags (COpenAt d p fl m) = Some (fl, m)"
| "call_flags (COpenAt64 d p fl m) = Some (fl, m)"
| "call_flags c = None"

text \<open>A call whose mode survives: it creates a file, or passes no mode.\<close>

definition mode_kept :: "io_call \<Rightarrow> bool" where
  "mode_kept c = (case call_flags c of None \<Rightarrow> True | Some (fl, m) \<Rightarrow> open_mode fl m = m)"

section \<open>The invariant\<close>

definition fit_info :: "fd_info \<Rightarrow> fd_info" where
  "fit_info i = \<lparr>fi_path = fit_path (fi_path i), fi_is_socket = fi_is_socket i\<rparr>"

text \<open>The table is the kernel's, but for descriptors \<open>old\<close> that were open before monitoring began (the
  three standard ones, at least) and are still open.\<close>

definition mirrors :: "u32 set \<Rightarrow> ('k \<Rightarrow> u32 \<Rightarrow> fd_info option) \<Rightarrow> 'k io_hooks \<Rightarrow> bool" where
  "mirrors old fds st \<longleftrightarrow>
     open_fds (monitor st) = map_option fit_info \<circ> (fds (kernel st) |` (- old)) \<and> old \<subseteq> dom (fds (kernel st))"

fun closed_fd :: "io_call \<Rightarrow> u32 set" where
  "closed_fd (CClose fd) = {fd}"
| "closed_fd c = {}"

definition closed_fds :: "io_call list \<Rightarrow> u32 set" where
  "closed_fds cs = \<Union> (set (map closed_fd cs))"

text \<open>Either nothing has been initialised, or all symbols are in place.\<close>

definition io_inv :: "'k io_host \<Rightarrow> 'k io_hooks \<Rightarrow> bool" where
  "io_inv host st \<longleftrightarrow>
     enabled (monitor st) \<and> \<not> locked (monitor st) \<and>
     (io_hooks_initialized st \<or> \<not> io_hooks_initializing st) \<and>
     (io_hooks_initialized st \<longrightarrow>
        real_open st \<noteq> nullptr \<and> real_openat st \<noteq> nullptr \<and> real_close st \<noteq> nullptr \<and>
        real_socket st \<noteq> nullptr \<and> real_open64 st = io_dlsym host ''open64'' \<and>
        real_openat64 st = io_dlsym host ''openat64'')"

lemma EnsureIoInit_inv:
  assumes "io_symbols host" "io_inv host st"
  obtains s where "EnsureIoInit host st = Ret () s" "io_inv host s" "io_hooks_initialized s"
    "monitor s = monitor st" "kernel s = kernel st"
proof (cases "io_hooks_initialized st")
  case True
  then show thesis using assms(2) by (intro that [of st]) (simp_all add: EnsureIoInit_def)
next
  case False
  let ?s = "(InitIoHooks host (st\<lparr>io_hooks_initializing := True\<rparr>))\<lparr>io_hooks_initialized := True\<rparr>"
  have "EnsureIoInit host st = Ret () ?s" using False assms(2) by (simp add: EnsureIoInit_def io_inv_def)
  moreover have "io_inv host ?s" using assms by (simp add: io_inv_def InitIoHooks_def io_symbols_def)
  ultimately show thesis by (rule that) (simp_all add: InitIoHooks_def)
qed

lemma io_inv_update:
  "io_inv host st \<Longrightarrow> enabled m = enabled (monitor st) \<Longrightarrow> locked m = locked (monitor st) \<Longrightarrow>
   io_inv host (st\<lparr>kernel := k, monitor := m\<rparr>)"
  by (simp add: io_inv_def)

lemma io_inv_kernel: "io_inv host (st\<lparr>kernel := k\<rparr>) = io_inv host st"
  by (simp add: io_inv_def)

lemma open_fds_add: "io_armed m \<Longrightarrow> open_fds (add_fd fd i m) = (if 0 \<le> sint fd then (open_fds m)(fd \<mapsto> i) else open_fds m)"
  by (simp add: fd_table.table_add)

lemma open_fds_del: "io_armed m \<Longrightarrow> open_fds (del_fd fd m) = (if 0 \<le> sint fd then (open_fds m)(fd := None) else open_fds m)"
  by (simp add: fd_table.table_del)

lemma inv_armed: "io_inv host st \<Longrightarrow> io_armed (monitor st) \<and> \<not> locked (monitor st)"
  by (simp add: io_inv_def io_armed_def)

lemma mirrors_new:
  assumes "mirrors old fds st" "new_fd fds (kernel st) info fd k" "0 \<le> sint fd" "io_armed (monitor st)"
    and "i = fit_info info"
  shows "mirrors old fds (st\<lparr>kernel := k, monitor := add_fd fd i (monitor st)\<rparr>)"
proof -
  have new: "fds (kernel st) fd = None" "fds k = (fds (kernel st))(fd \<mapsto> info)"
    using assms(2,3) by (simp_all add: new_fd_def)
  then have "fd \<notin> old" using assms(1) by (auto simp: mirrors_def)
  with new assms(1,3-5) show ?thesis by (auto simp: mirrors_def open_fds_add fun_eq_iff restrict_map_def)
qed

lemma mirrors_failed:
  assumes "mirrors old fds st" "new_fd fds (kernel st) info fd k" "sint fd < 0"
  shows "mirrors old fds (st\<lparr>kernel := k\<rparr>)"
  using assms by (simp add: mirrors_def new_fd_def)

text \<open>The result and the effect of a completed call.\<close>

definition call_done ::
  "'k io_host \<Rightarrow> u32 set \<Rightarrow> ('k \<Rightarrow> u32 \<Rightarrow> fd_info option) \<Rightarrow> u32 \<times> 'k \<Rightarrow> (u32, 'k io_hooks) outcome \<Rightarrow> bool" where
  "call_done host old fds r out \<longleftrightarrow>
     (\<exists>t. out = Ret (fst r) t \<and> io_inv host t \<and> mirrors old fds t \<and> kernel t = snd r)"

lemma finish_open_done:
  assumes inv: "io_inv host s" and mir: "mirrors old fds s"
    and new: "new_fd fds (kernel s) (as_opened path) (fst r) (snd r)"
  shows "call_done host old fds r (finish_open path r s)"
proof -
  obtain fd k where r: "r = (fd, k)" by (cases r)
  note A = inv_armed [OF inv]
  show ?thesis
  proof (cases "0 \<le> sint fd")
    case True
    let ?i = "\<lparr>fi_path = (case path of Some p \<Rightarrow> fit_path p | None \<Rightarrow> ''''), fi_is_socket = False\<rparr>"
    have i: "?i = fit_info (as_opened path)"
      by (simp add: fit_info_def as_opened_def fit_path_def split: option.split)
    have "finish_open path r s = Ret fd (s\<lparr>kernel := k, monitor := add_fd fd ?i (monitor s)\<rparr>)"
      using True A by (simp add: r finish_open_def OnOpen_def store_fd_armed)
    moreover have "mirrors old fds (s\<lparr>kernel := k, monitor := add_fd fd ?i (monitor s)\<rparr>)"
      using mirrors_new [OF mir, of "as_opened path" fd k ?i] new True A i by (simp add: r)
    ultimately show ?thesis using io_inv_update [OF inv] by (simp add: call_done_def r)
  next
    case False
    then show ?thesis
      using inv mirrors_failed [OF mir, of "as_opened path" fd k] new
      by (simp add: r finish_open_def call_done_def io_inv_kernel)
  qed
qed

lemma kernel_new_open:
  "kernel_ok host fds \<Longrightarrow> new_fd fds k (as_opened p) (fst (sys_open host kd d p fl m k)) (snd (sys_open host kd d p fl m k))"
  by (auto simp: kernel_ok_def)

lemma kernel_new_socket:
  "kernel_ok host fds \<Longrightarrow> sys_socket host d t p k = (fd, k') \<Longrightarrow>
   new_fd fds k \<lparr>fi_path = ''socket'', fi_is_socket = True\<rparr> fd k'"
  by (simp add: kernel_ok_def)

lemma kernel_close: "kernel_ok host fds \<Longrightarrow> sys_close host fd k = (r, k') \<Longrightarrow> fds k' = (fds k)(fd := None)"
  by (simp add: kernel_ok_def)

lemma kernel_neg: "kernel_ok host fds \<Longrightarrow> sint fd < 0 \<Longrightarrow> fds k fd = None"
  by (simp add: kernel_ok_def)

text \<open>What a call hands to the kernel: the meant call, with the mode the hook kept, and the plain
  variant where the C library lacks the 64-bit one.\<close>

fun hooked_call :: "'k io_host \<Rightarrow> io_call \<Rightarrow> 'k \<Rightarrow> u32 \<times> 'k" where
  "hooked_call host (COpen p fl m) k = sys_open host Open 0 (Some p) fl (open_mode fl m) k"
| "hooked_call host (COpen64 p fl m) k =
     sys_open host (if io_dlsym host ''open64'' \<noteq> nullptr then Open64 else Open) 0 (Some p) fl (open_mode fl m) k"
| "hooked_call host (COpenAt d p fl m) k = sys_open host OpenAt d (Some p) fl (open_mode fl m) k"
| "hooked_call host (COpenAt64 d p fl m) k =
     sys_open host (if io_dlsym host ''openat64'' \<noteq> nullptr then OpenAt64 else OpenAt) d (Some p) fl (open_mode fl m) k"
| "hooked_call host (CClose fd) k = sys_close host fd k"
| "hooked_call host (CSocket d t p) k = sys_socket host d t p k"

lemma io_call_done:
  assumes "io_symbols host" "kernel_ok host fds" "io_inv host st" "mirrors old fds st"
  shows "call_done host (old - closed_fd c) fds (hooked_call host c (kernel st)) (run_io host c st)"
proof -
  obtain s where s: "EnsureIoInit host st = Ret () s" "io_inv host s" "io_hooks_initialized s"
    "monitor s = monitor st" "kernel s = kernel st"
    by (rule EnsureIoInit_inv [OF assms(1,3)])
  have mir: "mirrors old fds s" using assms(4) s(4,5) by (simp add: mirrors_def)
  note A = inv_armed [OF s(2)]
  have syms: "real_open s \<noteq> nullptr" "real_openat s \<noteq> nullptr" "real_close s \<noteq> nullptr" "real_socket s \<noteq> nullptr"
    "real_open64 s = io_dlsym host ''open64''" "real_openat64 s = io_dlsym host ''openat64''"
    using s(2,3) by (simp_all add: io_inv_def)
  note fin = finish_open_done [OF s(2) mir kernel_new_open [OF assms(2)]]
  show ?thesis
  proof (cases c)
    case (COpen p fl m)
    then show ?thesis using s syms fin by (simp add: open_hook_def Let_def)
  next
    case (COpen64 p fl m)
    then show ?thesis using s syms fin by (simp add: open64_hook_def Let_def)
  next
    case (COpenAt d p fl m)
    then show ?thesis using s syms fin by (simp add: openat_hook_def Let_def)
  next
    case (COpenAt64 d p fl m)
    then show ?thesis using s syms fin by (simp add: openat64_hook_def Let_def)
  next
    case (CClose fd)
    obtain r k where k: "sys_close host fd (kernel s) = (r, k)" by (cases "sys_close host fd (kernel s)")
    from kernel_close [OF assms(2) k] mir
    have "old - {fd} \<subseteq> dom (fds k)" by (auto simp: mirrors_def)
    with kernel_close [OF assms(2) k] kernel_neg [OF assms(2), of fd] mir A
    have "mirrors (old - {fd}) fds (s\<lparr>monitor := del_fd fd (monitor s), kernel := k\<rparr>)"
      by (auto simp: mirrors_def open_fds_del fun_eq_iff restrict_map_def)
    moreover have "io_inv host (s\<lparr>monitor := del_fd fd (monitor s), kernel := k\<rparr>)"
      using s(2) by (simp add: io_inv_def)
    ultimately show ?thesis
      using CClose s syms k A by (simp add: close_hook_def OnClose_armed call_done_def)
  next
    case (CSocket d t p)
    obtain fd k where k: "sys_socket host d t p (kernel s) = (fd, k)" by (cases "sys_socket host d t p (kernel s)")
    note new = kernel_new_socket [OF assms(2) k]
    show ?thesis
    proof (cases "0 \<le> sint fd")
      case True
      from mirrors_new [OF mir new True, of "\<lparr>fi_path = fit_path ''socket'', fi_is_socket = True\<rparr>"] A
      have "mirrors old fds (s\<lparr>kernel := k, monitor := add_fd fd \<lparr>fi_path = fit_path ''socket'', fi_is_socket = True\<rparr> (monitor s)\<rparr>)"
        by (simp add: fit_info_def fit_path_def)
      with True s syms k A CSocket io_inv_update [OF s(2)] show ?thesis
        by (simp add: socket_hook_def OnSocket_def store_fd_armed call_done_def)
    next
      case False
      with s syms k CSocket mirrors_failed [OF mir new] show ?thesis
        by (simp add: socket_hook_def call_done_def io_inv_kernel)
    qed
  qed
qed

lemma io_calls_done:
  assumes "io_symbols host" "kernel_ok host fds" "io_inv host st" "mirrors old fds st"
  shows "\<exists>rs t. io_calls host cs st = Ret rs t \<and> io_inv host t \<and> mirrors (old - closed_fds cs) fds t"
  using assms(3,4)
proof (induction cs arbitrary: st old)
  case (Cons c cs)
  obtain r s where s: "run_io host c st = Ret r s" "io_inv host s" "mirrors (old - closed_fd c) fds s"
    using io_call_done [OF assms(1,2) Cons.prems, of c] by (auto simp: call_done_def)
  have "old - closed_fds (c # cs) = old - closed_fd c - closed_fds cs" by (auto simp: closed_fds_def)
  with Cons.IH [OF s(2,3)] s(1) show ?case by auto
qed (simp add: closed_fds_def)

section \<open>Initialisation by many threads\<close>

definition io_resolved :: "'k io_hooks \<Rightarrow> bool" where
  "io_resolved g \<longleftrightarrow> real_open g \<noteq> nullptr \<and> real_openat g \<noteq> nullptr \<and> real_close g \<noteq> nullptr \<and> real_socket g \<noteq> nullptr"

interpretation io_once: once_init "InitIoHooks host" g0 "\<lambda>g. io_symbols host \<longrightarrow> io_resolved g"
  for host :: "'k io_host" and g0
  by unfold_locales (simp add: InitIoHooks_def io_symbols_def io_resolved_def)

section \<open>A concrete host\<close>

type_synonym demo_kernel = "(u32 \<Rightarrow> fd_info option) \<times> u32"

definition demo_fds :: "demo_kernel \<Rightarrow> u32 \<Rightarrow> fd_info option" where
  "demo_fds k fd = (if sint fd < 0 then None else fst k fd)"

definition demo_new :: "fd_info \<Rightarrow> demo_kernel \<Rightarrow> u32 \<times> demo_kernel" where
  "demo_new info k =
     (if sint (snd k) < 0 \<or> fst k (snd k) \<noteq> None then (- 1, k)
      else (snd k, (fst k)(snd k \<mapsto> info), snd k + 1))"

definition demo_io_host :: "demo_kernel io_host" where
  "demo_io_host =
     \<lparr>io_dlsym = (\<lambda>name. 1), sys_open = (\<lambda>kd d p fl m. demo_new (as_opened p)),
      sys_close = (\<lambda>fd k. (if fst k fd = None then - 1 else 0, (fst k)(fd := None), snd k)),
      sys_socket = (\<lambda>d t p. demo_new \<lparr>fi_path = ''socket'', fi_is_socket = True\<rparr>)\<rparr>"

lemma demo_new_ok: "demo_new info k = (fd, k') \<Longrightarrow> new_fd demo_fds k info fd k'"
  by (auto simp: demo_new_def new_fd_def demo_fds_def fun_eq_iff split: if_splits)

lemma demo_kernel_ok: "kernel_ok demo_io_host demo_fds"
  by (auto simp: kernel_ok_def demo_io_host_def demo_fds_def fun_eq_iff dest: demo_new_ok)

lemma demo_io_symbols: "io_symbols demo_io_host"
  by (simp add: io_symbols_def demo_io_host_def)

text \<open>The hooks before their first call, with the monitor enabled and no descriptor open.\<close>

definition demo_io :: "demo_kernel io_hooks" where
  "demo_io =
     \<lparr>real_open = 0, real_open64 = 0, real_openat = 0, real_openat64 = 0, real_close = 0, real_socket = 0,
      io_hooks_initialized = False, io_hooks_initializing = False, monitor = Enable Linux io_start,
      kernel = (Map.empty, 3)\<rparr>"

lemma demo_io_inv: "io_inv demo_io_host demo_io"
  by (simp add: io_inv_def demo_io_def Enable_def io_start_def)

lemma demo_io_mirrors: "mirrors {} demo_fds demo_io"
  by (simp add: mirrors_def demo_io_def Enable_def io_start_def demo_fds_def fun_eq_iff)

section \<open>Properties\<close>

text \<open>C11: The monitor mirrors the kernel: let \<open>old\<close> be the descriptors that were open before monitoring
  began. In any sequence of the six interposed calls, failing ones and closes of unknown
  descriptors included, every call returns, and the monitor's table is at the end the kernel's set
  of open descriptors with what they were opened as (paths cut to 1023 bytes), except for old
  descriptors that were not closed. The first call initialises the hooks.\<close>

theorem io_table_mirrors_kernel:
  assumes "io_symbols host" and "kernel_ok host fds" and "io_inv host st" and "mirrors old fds st"
  shows "\<exists>rs t. io_calls host cs st = Ret rs t \<and> io_inv host t \<and>
           (\<forall>fd. open_fds (monitor t) fd =
              (if fd \<in> old - closed_fds cs then None else map_option fit_info (fds (kernel t) fd)))"
  using io_calls_done [OF assms, of cs] by (auto simp: mirrors_def restrict_map_def)

text \<open>A process whose three standard descriptors are open when monitoring begins.\<close>

definition demo_std :: "demo_kernel io_hooks" where
  "demo_std = demo_io\<lparr>kernel := ((\<lambda>fd. if fd < 3 then Some \<lparr>fi_path = ''tty'', fi_is_socket = False\<rparr> else None), 3)\<rparr>"

lemma demo_std_mirrors: "mirrors {0, 1, 2} demo_fds demo_std"
proof -
  have "(fd :: u32) \<in> {0, 1, 2}" if "fd < 3" for fd
  proof -
    have "unat fd < 3" using that by (simp add: word_less_nat_alt)
    then have "unat fd = 0 \<or> unat fd = 1 \<or> unat fd = 2" by linarith
    then show ?thesis by (auto simp: word_unat_eq_iff)
  qed
  then have "demo_fds (kernel demo_std) fd = None" if "fd \<notin> {0, 1, 2}" for fd
    using that by (auto simp: demo_fds_def demo_std_def)
  moreover have "{0, 1, 2} \<subseteq> dom (demo_fds (kernel demo_std))"
    by (auto simp: demo_fds_def demo_std_def)
  moreover have "open_fds (monitor demo_std) = Map.empty"
    by (simp add: demo_std_def demo_io_def Enable_def io_start_def)
  ultimately show ?thesis by (auto simp: mirrors_def fun_eq_iff restrict_map_def)
qed

lemma demo_std_inv: "io_inv demo_io_host demo_std"
  using demo_io_inv by (simp add: demo_std_def io_inv_kernel)

lemma io_table_mirrors_kernel_witness:
  "\<exists>rs t. io_calls demo_io_host [COpen ''a'' 0 0, CSocket 2 1 0, CClose 3, CClose 1, COpenAt64 5 ''b'' 64 438] demo_std =
       Ret rs t \<and> open_fds (monitor t) 2 = None \<and>
       open_fds (monitor t) 1 = map_option fit_info (demo_fds (kernel t) 1) \<and>
       open_fds (monitor t) 5 = map_option fit_info (demo_fds (kernel t) 5)"
  using io_table_mirrors_kernel [OF demo_io_symbols demo_kernel_ok demo_std_inv demo_std_mirrors,
      of "[COpen ''a'' 0 0, CSocket 2 1 0, CClose 3, CClose 1, COpenAt64 5 ''b'' 64 438]"]
  by (elim exE conjE) (auto simp: closed_fds_def)

text \<open>C27: The hooks are transparent: if the 64-bit variants exist and the call creates a file or
  passes no mode, the program gets the result, and the kernel the state, of the call it made.\<close>

theorem io_hooks_transparent:
  assumes "io_symbols host" and "kernel_ok host fds" and "io_inv host st" and "mirrors old fds st"
    and "io_dlsym host ''open64'' \<noteq> nullptr" and "io_dlsym host ''openat64'' \<noteq> nullptr" and "mode_kept c"
  shows "\<exists>t. run_io host c st = Ret (fst (direct_call host c (kernel st))) t \<and>
           kernel t = snd (direct_call host c (kernel st))"
proof -
  have "hooked_call host c (kernel st) = direct_call host c (kernel st)"
    using assms(5-7) by (cases c) (simp_all add: mode_kept_def)
  with io_call_done [OF assms(1-4), of c] show ?thesis by (auto simp: call_done_def)
qed

lemma io_hooks_transparent_witness:
  "\<exists>t. run_io demo_io_host (COpen ''a'' 0x41 0x1B6) demo_io = Ret 3 t"
  using io_hooks_transparent [OF demo_io_symbols demo_kernel_ok demo_io_inv demo_io_mirrors, of "COpen ''a'' 0x41 0x1B6"]
  by (auto simp: demo_io_host_def mode_kept_def open_mode_def O_CREAT_def demo_io_def demo_new_def)

text \<open>\<open>O_TMPFILE\<close> also takes a mode, but the hooks read it only for \<open>O_CREAT\<close>: whatever mode the
  program asks for, the file is created with mode 0.\<close>

theorem tmpfile_mode_dropped:
  assumes "real_open st \<noteq> nullptr" and "io_hooks_initialized st" and "oflag AND O_CREAT = 0"
  shows "O_TMPFILE AND O_CREAT = 0 \<and>
         open_hook host path (oflag OR O_TMPFILE) vararg st =
           finish_open path (sys_open host Open 0 path (oflag OR O_TMPFILE) 0 (kernel st)) st"
proof -
  have t: "O_TMPFILE AND O_CREAT = 0" by (simp add: O_TMPFILE_def O_CREAT_def)
  then have "(oflag OR O_TMPFILE) AND O_CREAT = 0"
    using assms(3) by (simp add: bit.conj_disj_distrib2)
  with t assms(1,2) show ?thesis by (simp add: open_hook_def EnsureIoInit_def open_mode_def)
qed

lemma tmpfile_mode_dropped_witness:
  "open_hook demo_io_host (Some ''/tmp'') (2 OR O_TMPFILE) 0x180
     (demo_io\<lparr>real_open := 1, io_hooks_initialized := True\<rparr>) =
   finish_open (Some ''/tmp'') (sys_open demo_io_host Open 0 (Some ''/tmp'') (2 OR O_TMPFILE) 0 (Map.empty, 3))
     (demo_io\<lparr>real_open := 1, io_hooks_initialized := True\<rparr>)"
proof -
  have "(2 :: u32) AND O_CREAT = 0" by (simp add: O_CREAT_def)
  with tmpfile_mode_dropped [of "demo_io\<lparr>real_open := 1, io_hooks_initialized := True\<rparr>" 2 demo_io_host]
  show ?thesis by (simp add: demo_io_def)
qed

text \<open>The report of leaked descriptors after any sequence of calls: with a reporter that stays away
  from the monitor it lists exactly the descriptors the kernel still has open, each once, except for
  those that were open before monitoring began and were never closed.\<close>

theorem fd_report_is_kernel_state:
  assumes "io_symbols host" and "kernel_ok host fds" and "io_inv host st" and "mirrors old fds st"
    and "fd_iter_ok iter"
  shows "\<exists>rs t entries. io_calls host cs st = Ret rs t \<and>
     distinct (map fst entries) \<and>
     map_of entries = map_option fit_info \<circ> (fds (kernel t) |` (- (old - closed_fds cs))) \<and>
     ReportLeakedFds iter (Some (\<lambda>d s. Ret () (fst s, snd s @ [d]))) (monitor t, []) =
       Ret () (monitor t, if entries = [] then [] else [io_report entries])"
proof -
  obtain rs t where t: "io_calls host cs st = Ret rs t" "io_inv host t" "mirrors (old - closed_fds cs) fds t"
    using io_calls_done [OF assms(1-4), of cs] by blast
  let ?es = "iter (open_fds (monitor t))"
  have m: "open_fds (monitor t) = map_option fit_info \<circ> (fds (kernel t) |` (- (old - closed_fds cs)))"
    using t(3) by (simp add: mirrors_def)
  have "finite (dom (open_fds (monitor t)))" by (rule finite)
  then have it: "distinct (map fst ?es)" "map_of ?es = open_fds (monitor t)"
    using assms(5) by (simp_all add: fd_iter_ok_def)
  have "enabled (monitor t)" "\<not> locked (monitor t)" using t(2) by (simp_all add: io_inv_def)
  then have rep: "ReportLeakedFds iter (Some (\<lambda>d s. Ret () (fst s, snd s @ [d]))) (monitor t, []) =
      Ret () (monitor t, if ?es = [] then [] else [io_report ?es])"
    by (simp add: ReportLeakedFds_def Let_def)
  show ?thesis
    by (intro exI conjI) (rule t(1), rule it(1), rule trans [OF it(2) m], rule rep)
qed

lemma fd_report_is_kernel_state_witness:
  "\<exists>rs t entries. io_calls demo_io_host [COpen ''a'' 0 0] demo_std = Ret rs t \<and> distinct (map fst entries) \<and>
     ReportLeakedFds demo_fd_iter (Some (\<lambda>d s. Ret () (fst s, snd s @ [d]))) (monitor t, []) =
       Ret () (monitor t, if entries = [] then [] else [io_report entries])"
  using fd_report_is_kernel_state [OF demo_io_symbols demo_kernel_ok demo_std_inv demo_std_mirrors demo_fd_iter_ok,
      of "[COpen ''a'' 0 0]"]
  by (elim exE conjE) (intro exI conjI)

text \<open>In every interleaving of threads the IO hooks resolve their symbols at most once, and a thread
  that has returned from \<open>EnsureIoInit\<close> finds all four required functions.\<close>

theorem EnsureIoInit_threads:
  assumes "io_symbols host" and "once_reach (InitIoHooks host) g s"
  shows "inits s \<le> 1 \<and> (\<forall>i. pcs s i = Left \<longrightarrow> io_resolved (globals s)) \<and>
         (\<forall>i. pcs s i \<noteq> Left \<longrightarrow> (\<exists>j t. once_step (InitIoHooks host) j s t \<and> s \<noteq> t))"
  using io_once.left_ready [OF assms(2)] io_once.at_most_once [OF assms(2)] once_progress [OF assms(2)] assms(1)
  by blast

lemma EnsureIoInit_threads_witness:
  "\<exists>s :: demo_kernel io_hooks once_state. pcs s 5 = Left \<and> io_resolved (globals s)"
proof -
  have "pcs (once_solo (InitIoHooks demo_io_host) demo_io 5) 5 = Left" by (simp add: once_solo_def)
  with EnsureIoInit_threads [OF demo_io_symbols once_solo_reach [of _ _ 5]] show ?thesis by blast
qed

end
