(* ===== verification/Memory_Analyzer.thy ===== *)
theory Memory_Analyzer
  imports Arena Reporter "HOL-Library.Multiset"
begin

text \<open>
  \<open>MemoryAnalyzer\<close> (src/memory/memory_analyzer.cpp): the enumeration of the heap on the three
  platforms, the reachability marker, and \<open>RunLeakDetection\<close>, which filters, sorts and groups the
  unmarked blocks in one pass over mutable state and assembles the report.

  The specification of the pass is \<open>size_classes\<close>: one group for each size, by descending
  size. The resolver of block types is a parameter here; it is the subject of \<open>Type_Resolver\<close>.
\<close>

section \<open>Enumeration\<close>

text \<open>A zone of the macOS allocator without an enumerator is \<open>None\<close>; otherwise the batches of ranges
  its enumerator passes to the callback. A heap of Windows is the sequence of entries that
  \<open>HeapWalk\<close> yields. The zone array is \<open>None\<close> if the kernel call fails or yields a null array.\<close>

record heap_entry =
  he_data :: addr
  he_bytes :: u32
  he_flags :: "16 word"

datatype heap_source =
    Linux_Heap "alloc_record list"
  | Mac_Heap "(addr \<times> u64) list list option list option"
  | Windows_Heap "heap_entry list list"

definition unmarked :: "addr \<Rightarrow> u64 \<Rightarrow> alloc_record" where
  "unmarked p n = \<lparr>ar_address = p, ar_size = n, ar_marked = False\<rparr>"

definition BlockEnumerator :: "(addr \<times> u64) list \<Rightarrow> alloc_record list \<Rightarrow> alloc_record list" where
  "BlockEnumerator ranges allocations = fold (\<lambda>(p, n) out. out @ [unmarked p n]) ranges allocations"

definition walk_zone :: "(addr \<times> u64) list list option \<Rightarrow> alloc_record list \<Rightarrow> alloc_record list" where
  "walk_zone zone allocations =
     (case zone of None \<Rightarrow> allocations | Some batches \<Rightarrow> fold BlockEnumerator batches allocations)"

definition PROCESS_HEAP_ENTRY_BUSY :: "16 word" where
  "PROCESS_HEAP_ENTRY_BUSY = 4"

fun walk_heap :: "heap_entry list \<Rightarrow> alloc_record list \<Rightarrow> alloc_record list" where
  "walk_heap [] allocations = allocations"
| "walk_heap (entry # rest) allocations =
     walk_heap rest
       (if he_flags entry AND PROCESS_HEAP_ENTRY_BUSY \<noteq> 0
        then allocations @ [unmarked (he_data entry) (ucast (he_bytes entry))] else allocations)"

fun EnumerateHeap :: "heap_source \<Rightarrow> alloc_record list \<Rightarrow> alloc_record list" where
  "EnumerateHeap (Linux_Heap entries) allocations = allocations @ entries"
| "EnumerateHeap (Mac_Heap None) allocations = allocations"
| "EnumerateHeap (Mac_Heap (Some zones)) allocations = fold walk_zone zones allocations"
| "EnumerateHeap (Windows_Heap heaps) allocations = fold walk_heap heaps allocations"

section \<open>Marking\<close>

fun MarkReachability :: "alloc_record list \<Rightarrow> addr \<Rightarrow> alloc_record list" where
  "MarkReachability [] a = []"
| "MarkReachability (alloc # rest) a =
     (if a \<ge> ar_address alloc \<and> a < ar_address alloc + ar_size alloc
      then alloc\<lparr>ar_marked := True\<rparr> # rest
      else alloc # MarkReachability rest a)"

definition ScanDataSegments :: "alloc_record list \<Rightarrow> alloc_record list" where
  "ScanDataSegments allocations = allocations"

definition ScanThreadStacks :: "alloc_record list \<Rightarrow> alloc_record list" where
  "ScanThreadStacks allocations = allocations"

section \<open>Filtering and sorting\<close>

record leak_totals =
  leaked :: "alloc_record list"
  total_leaks :: u64
  total_leaked_bytes :: u64

fun collect_leaks :: "alloc_record list \<Rightarrow> leak_totals \<Rightarrow> leak_totals" where
  "collect_leaks [] t = t"
| "collect_leaks (alloc # rest) t =
     collect_leaks rest
       (if \<not> ar_marked alloc
        then t\<lparr>leaked := leaked t @ [alloc], total_leaks := total_leaks t + 1,
               total_leaked_bytes := total_leaked_bytes t + ar_size alloc\<rparr>
        else t)"

text \<open>The comparator: larger sizes first, then lower addresses. It is the strict part of a linear order on
  the keys (size, address), so that the library's sorting applies.\<close>

definition leak_before :: "alloc_record \<Rightarrow> alloc_record \<Rightarrow> bool" where
  "leak_before a b = (if ar_size a \<noteq> ar_size b then ar_size a > ar_size b else ar_address a < ar_address b)"

datatype leak_key = Leak_Key u64 addr

instantiation leak_key :: linorder
begin

fun less_leak_key :: "leak_key \<Rightarrow> leak_key \<Rightarrow> bool" where
  "less_leak_key (Leak_Key n p) (Leak_Key m q) = (if n \<noteq> m then n > m else p < q)"

definition less_eq_leak_key :: "leak_key \<Rightarrow> leak_key \<Rightarrow> bool" where
  "less_eq_leak_key k l \<longleftrightarrow> k < l \<or> k = l"

instance
proof
  fix x y z :: leak_key
  show "x < y \<longleftrightarrow> x \<le> y \<and> \<not> y \<le> x"
    by (cases x; cases y) (auto simp: less_eq_leak_key_def)
  show "x \<le> x" by (simp add: less_eq_leak_key_def)
  show "x \<le> z" if "x \<le> y" "y \<le> z"
    using that by (cases x; cases y; cases z) (auto simp: less_eq_leak_key_def split: if_splits)
  show "x = y" if "x \<le> y" "y \<le> x"
    using that by (cases x; cases y) (auto simp: less_eq_leak_key_def split: if_splits)
  show "x \<le> y \<or> y \<le> x"
    by (cases x; cases y) (auto simp: less_eq_leak_key_def)
qed

end

definition leak_key :: "alloc_record \<Rightarrow> leak_key" where
  "leak_key r = Leak_Key (ar_size r) (ar_address r)"

lemma leak_key_less: "leak_key a < leak_key b \<longleftrightarrow> leak_before a b"
  by (simp add: leak_key_def leak_before_def)

text \<open>\<open>std::sort\<close> with this comparator.\<close>

definition sort_leaks :: "alloc_record list \<Rightarrow> alloc_record list" where
  "sort_leaks leaks = sort_key leak_key leaks"

text \<open>The result is what \<open>std::sort\<close> promises: a permutation in which no element precedes an earlier one.\<close>

lemma sort_leaks_sorts:
  "mset (sort_leaks leaks) = mset leaks" "sorted_wrt (\<lambda>a b. \<not> leak_before b a) (sort_leaks leaks)"
proof -
  have "sorted (map leak_key (sort_leaks leaks))" by (simp add: sort_leaks_def)
  then show "sorted_wrt (\<lambda>a b. \<not> leak_before b a) (sort_leaks leaks)"
    by (simp add: sorted_map leak_key_less [symmetric] linorder_not_less)
qed (simp add: sort_leaks_def)

section \<open>The report\<close>

record leak_config =
  enable_leak_report_summary :: bool
  enable_leak_report_details :: bool

text \<open>\<open>current_leak_group\<close>: the keys \<open>size\<close> and \<open>addresses\<close>, each present or not. It starts as the null
  document; appending to a missing \<open>addresses\<close> creates the array.\<close>

record leak_group =
  lg_size :: "u64 option"
  lg_addresses :: "json list option"

definition group_json :: "leak_group \<Rightarrow> json" where
  "group_json g =
     (if lg_size g = None \<and> lg_addresses g = None then JNull
      else JObj ((case lg_size g of None \<Rightarrow> [] | Some n \<Rightarrow> [(''size'', JUInt n)]) @
                 (case lg_addresses g of None \<Rightarrow> [] | Some as \<Rightarrow> [(''addresses'', JArr as)])))"

definition push_address :: "json \<Rightarrow> leak_group \<Rightarrow> leak_group" where
  "push_address d g =
     g\<lparr>lg_addresses := Some ((case lg_addresses g of None \<Rightarrow> [] | Some as \<Rightarrow> as) @ [d])\<rparr>"

record grouping =
  current_size :: u64
  current_count :: u64
  current_sample_addresses :: "string list"
  current_leak_group :: leak_group
  by_size :: "json list" \<comment> \<open>\<open>report["summary"]["by_size"]\<close>\<close>
  leaks_by_size :: "json list" \<comment> \<open>\<open>report["leaks_by_size"]\<close>\<close>

definition grouping_start :: grouping where
  "grouping_start =
     \<lparr>current_size = 0, current_count = 0, current_sample_addresses = [],
      current_leak_group = \<lparr>lg_size = None, lg_addresses = None\<rparr>, by_size = [], leaks_by_size = []\<rparr>"

definition summary_item :: "u64 \<Rightarrow> u64 \<Rightarrow> string list \<Rightarrow> json" where
  "summary_item n k samples =
     JObj [(''size'', JUInt n), (''count'', JUInt k), (''sample_addresses'', JArr (map JStr samples))]"

definition flush_group :: "leak_config \<Rightarrow> grouping \<Rightarrow> grouping" where
  "flush_group cfg st =
     (if current_count st > 0 then
        (let st1 = (if enable_leak_report_summary cfg
           then st\<lparr>by_size := by_size st @ [summary_item (current_size st) (current_count st)
                                              (current_sample_addresses st)]\<rparr>
           else st)
         in if enable_leak_report_details cfg
            then st1\<lparr>leaks_by_size := leaks_by_size st1 @ [group_json (current_leak_group st1)]\<rparr>
            else st1)
      else st)"

definition leak_detail :: "string \<Rightarrow> string \<Rightarrow> json" where
  "leak_detail addr_str type_name =
     JObj ((''address'', JStr addr_str) #
           (if type_name \<noteq> [] then [(''type'', JStr type_name)] else []))"

definition open_group :: "leak_config \<Rightarrow> u64 \<Rightarrow> grouping \<Rightarrow> grouping" where
  "open_group cfg n st =
     (let st1 = (flush_group cfg st)\<lparr>current_size := n, current_count := 0, current_sample_addresses := []\<rparr>
      in if enable_leak_report_details cfg
         then st1\<lparr>current_leak_group := \<lparr>lg_size = Some n, lg_addresses = Some []\<rparr>\<rparr> else st1)"

text \<open>One iteration of the loop; \<open>None\<close> if reading the type of the block faults.\<close>

definition visit_leak ::
  "leak_config \<Rightarrow> (addr \<Rightarrow> u64 \<Rightarrow> string option) \<Rightarrow> alloc_record \<Rightarrow> grouping \<Rightarrow> grouping option" where
  "visit_leak cfg resolve_type alloc st =
     (let st1 = (if ar_size alloc \<noteq> current_size st then open_group cfg (ar_size alloc) st else st);
          addr_str = addr_string (ar_address alloc);
          st2 = st1\<lparr>current_count := current_count st1 + 1,
                    current_sample_addresses :=
                      (if length (current_sample_addresses st1) < 100
                       then current_sample_addresses st1 @ [addr_str] else current_sample_addresses st1)\<rparr>
      in if enable_leak_report_details cfg
         then (case resolve_type (ar_address alloc) (ar_size alloc) of
                 None \<Rightarrow> None
               | Some type_name \<Rightarrow>
                   Some (st2\<lparr>current_leak_group :=
                     push_address (leak_detail addr_str type_name) (current_leak_group st2)\<rparr>))
         else Some st2)"

fun visit_leaks ::
  "leak_config \<Rightarrow> (addr \<Rightarrow> u64 \<Rightarrow> string option) \<Rightarrow> alloc_record list \<Rightarrow> grouping \<Rightarrow> grouping option" where
  "visit_leaks cfg resolve_type [] st = Some st"
| "visit_leaks cfg resolve_type (alloc # rest) st =
     (case visit_leak cfg resolve_type alloc st of
        None \<Rightarrow> None
      | Some st' \<Rightarrow> visit_leaks cfg resolve_type rest st')"

definition leak_report :: "leak_config \<Rightarrow> u64 \<Rightarrow> u64 \<Rightarrow> json list \<Rightarrow> json list \<Rightarrow> json" where
  "leak_report cfg leak_count bytes sizes details =
     JObj ((''type'', JStr ''memory_leaks'') #
       (if enable_leak_report_summary cfg
        then [(''summary'', JObj [(''total_leaks'', JUInt leak_count), (''total_leaked_bytes'', JUInt bytes),
                                  (''by_size'', JArr sizes)])] else []) @
       (if enable_leak_report_details cfg then [(''leaks_by_size'', JArr details)] else []))"

text \<open>Up to the report: the outer option is a fault, the inner one whether a report is due.\<close>

definition detect_leaks ::
  "leak_config \<Rightarrow> (addr \<Rightarrow> u64 \<Rightarrow> string option) \<Rightarrow> heap_source \<Rightarrow> json option option" where
  "detect_leaks cfg resolve_type src =
     (let allocations = ScanThreadStacks (ScanDataSegments (EnumerateHeap src []));
          t = collect_leaks allocations \<lparr>leaked = [], total_leaks = 0, total_leaked_bytes = 0\<rparr>
      in case visit_leaks cfg resolve_type (sort_leaks (leaked t)) grouping_start of
           None \<Rightarrow> None
         | Some st \<Rightarrow>
             let st' = flush_group cfg st
             in Some (if total_leaks t > 0
                      then Some (leak_report cfg (total_leaks t) (total_leaked_bytes t)
                                   (by_size st') (leaks_by_size st'))
                      else None))"

definition RunLeakDetection ::
  "leak_config \<Rightarrow> (addr \<Rightarrow> u64 \<Rightarrow> string option) \<Rightarrow> (json \<Rightarrow> 'f \<Rightarrow> (unit, 'f) outcome) option \<Rightarrow>
   heap_source \<Rightarrow> 'f \<Rightarrow> (unit, 'f) outcome" where
  "RunLeakDetection cfg resolve_type reporter src f =
     (case detect_leaks cfg resolve_type src of
        None \<Rightarrow> Undefined
      | Some due \<Rightarrow> (case (due, reporter) of (Some doc, Some emit) \<Rightarrow> emit doc f | _ \<Rightarrow> Ret () f))"

section \<open>Specification\<close>

text \<open>What the enumeration of each platform yields, as one list.\<close>

fun enumerated :: "heap_source \<Rightarrow> alloc_record list" where
  "enumerated (Linux_Heap entries) = entries"
| "enumerated (Mac_Heap zones) =
     concat (map (\<lambda>zone. case zone of None \<Rightarrow> [] | Some batches \<Rightarrow> map (\<lambda>(p, n). unmarked p n) (concat batches))
       (case zones of None \<Rightarrow> [] | Some zs \<Rightarrow> zs))"
| "enumerated (Windows_Heap heaps) =
     map (\<lambda>e. unmarked (he_data e) (ucast (he_bytes e)))
       (filter (\<lambda>e. he_flags e AND PROCESS_HEAP_ENTRY_BUSY \<noteq> 0) (concat heaps))"

definition leaks_of :: "alloc_record list \<Rightarrow> alloc_record list" where
  "leaks_of allocations = filter (\<lambda>r. \<not> ar_marked r) allocations"

text \<open>The sizes that occur, in descending order, each with its leaks by ascending address.\<close>

definition leak_sizes :: "alloc_record list \<Rightarrow> u64 list" where
  "leak_sizes leaks = rev (sorted_list_of_set (ar_size ` set leaks))"

definition size_classes :: "alloc_record list \<Rightarrow> (u64 \<times> alloc_record list) list" where
  "size_classes leaks =
     map (\<lambda>n. (n, sort_key ar_address (filter (\<lambda>r. ar_size r = n) leaks))) (leak_sizes leaks)"

definition class_summary :: "u64 \<times> alloc_record list \<Rightarrow> json" where
  "class_summary c =
     summary_item (fst c) (of_nat (length (snd c))) (take 100 (map (addr_string \<circ> ar_address) (snd c)))"

definition class_details :: "(addr \<Rightarrow> u64 \<Rightarrow> string option) \<Rightarrow> u64 \<times> alloc_record list \<Rightarrow> json" where
  "class_details resolve_type c =
     JObj [(''size'', JUInt (fst c)),
           (''addresses'', JArr (map (\<lambda>r. leak_detail (addr_string (ar_address r))
                                          (the (resolve_type (ar_address r) (ar_size r)))) (snd c)))]"

section \<open>Lemmas on enumeration and filtering\<close>

lemma BlockEnumerator_append: "BlockEnumerator ranges out = out @ map (\<lambda>(p, n). unmarked p n) ranges"
  unfolding BlockEnumerator_def by (induction ranges arbitrary: out) auto

lemma walk_zone_append:
  "walk_zone zone out =
     out @ (case zone of None \<Rightarrow> [] | Some batches \<Rightarrow> map (\<lambda>(p, n). unmarked p n) (concat batches))"
proof (cases zone)
  case (Some batches)
  have "fold BlockEnumerator batches out = out @ map (\<lambda>(p, n). unmarked p n) (concat batches)"
    by (induction batches arbitrary: out) (simp_all add: BlockEnumerator_append)
  with Some show ?thesis by (simp add: walk_zone_def)
qed (simp add: walk_zone_def)

lemma walk_heap_append:
  "walk_heap es out = out @ map (\<lambda>e. unmarked (he_data e) (ucast (he_bytes e)))
     (filter (\<lambda>e. he_flags e AND PROCESS_HEAP_ENTRY_BUSY \<noteq> 0) es)"
  by (induction es arbitrary: out) simp_all

lemma fold_append: "(\<And>x out. f x out = out @ g x) \<Longrightarrow> fold f xs out = out @ concat (map g xs)"
  by (induction xs arbitrary: out) simp_all

lemma EnumerateHeap_append: "EnumerateHeap src out = out @ enumerated src"
proof (cases src)
  case (Mac_Heap zones)
  then show ?thesis using fold_append [OF walk_zone_append] by (cases zones) simp_all
next
  case (Windows_Heap heaps)
  have "fold walk_heap heaps out = out @ enumerated (Windows_Heap heaps)"
    by (induction heaps arbitrary: out) (simp_all add: walk_heap_append)
  with Windows_Heap show ?thesis by simp
qed simp

lemma collect_leaks_spec:
  "collect_leaks rs t = t\<lparr>leaked := leaked t @ leaks_of rs,
     total_leaks := total_leaks t + of_nat (length (leaks_of rs)),
     total_leaked_bytes := total_leaked_bytes t + sum_list (map ar_size (leaks_of rs))\<rparr>"
  by (induction rs arbitrary: t) (simp_all add: leaks_of_def algebra_simps)

lemma of_nat_pos_u64: "n < 2 ^ 64 \<Longrightarrow> (of_nat n :: u64) > 0 \<longleftrightarrow> n > 0"
proof -
  assume "n < 2 ^ 64"
  then have "unat (of_nat n :: u64) = n" by (simp add: unat_of_nat)
  then show ?thesis by (simp add: word_less_nat_alt)
qed

section \<open>One group, then all groups\<close>

text \<open>A run of leaks of the current size only extends the current group.\<close>

definition extend_group ::
  "leak_config \<Rightarrow> (addr \<Rightarrow> u64 \<Rightarrow> string option) \<Rightarrow> alloc_record list \<Rightarrow> grouping \<Rightarrow> grouping" where
  "extend_group cfg resolve rs st = st\<lparr>
     current_count := current_count st + of_nat (length rs),
     current_sample_addresses := take 100 (current_sample_addresses st @ map (addr_string \<circ> ar_address) rs),
     current_leak_group :=
       (if enable_leak_report_details cfg
        then fold (\<lambda>r. push_address (leak_detail (addr_string (ar_address r)) (the (resolve (ar_address r) (ar_size r)))))
               rs (current_leak_group st)
        else current_leak_group st)\<rparr>"

definition resolves :: "leak_config \<Rightarrow> (addr \<Rightarrow> u64 \<Rightarrow> string option) \<Rightarrow> alloc_record list \<Rightarrow> bool" where
  "resolves cfg resolve rs \<longleftrightarrow>
     (enable_leak_report_details cfg \<longrightarrow> (\<forall>r \<in> set rs. resolve (ar_address r) (ar_size r) \<noteq> None))"

lemma visit_same_size:
  assumes "ar_size r = current_size st" "resolves cfg resolve [r]"
    and "length (current_sample_addresses st) \<le> 100"
  shows "visit_leak cfg resolve r st = Some (extend_group cfg resolve [r] st)"
  using assms by (auto simp: visit_leak_def extend_group_def resolves_def Let_def)

lemma extend_group_step:
  assumes "length (current_sample_addresses st) \<le> 100"
  shows "extend_group cfg resolve rs (extend_group cfg resolve [r] st) = extend_group cfg resolve (r # rs) st"
proof (cases "length (current_sample_addresses st) = 100")
  case True
  then show ?thesis by (simp add: extend_group_def)
next
  case False
  with assms have "take 100 (current_sample_addresses st @ [x]) = current_sample_addresses st @ [x]" for x
    by simp
  then show ?thesis by (simp add: extend_group_def)
qed

lemma extend_group_kept [simp]:
  "current_size (extend_group cfg resolve rs st) = current_size st"
  "by_size (extend_group cfg resolve rs st) = by_size st"
  "leaks_by_size (extend_group cfg resolve rs st) = leaks_by_size st"
  "length (current_sample_addresses (extend_group cfg resolve rs st)) \<le> 100"
  by (simp_all add: extend_group_def)

lemma visit_same_sizes:
  assumes "\<forall>r \<in> set rs. ar_size r = current_size st" "resolves cfg resolve rs"
    and "length (current_sample_addresses st) \<le> 100"
  shows "visit_leaks cfg resolve rs st = Some (extend_group cfg resolve rs st)"
  using assms
proof (induction rs arbitrary: st)
  case Nil
  then show ?case by (simp add: extend_group_def)
next
  case (Cons r rs)
  then have "visit_leak cfg resolve r st = Some (extend_group cfg resolve [r] st)"
    by (intro visit_same_size) (auto simp: resolves_def)
  moreover have "visit_leaks cfg resolve rs (extend_group cfg resolve [r] st) =
      Some (extend_group cfg resolve rs (extend_group cfg resolve [r] st))"
    using Cons.prems by (intro Cons.IH) (auto simp: resolves_def)
  ultimately show ?case by (simp add: extend_group_step Cons.prems(3))
qed

lemma visit_leaks_append:
  "visit_leaks cfg resolve (xs @ ys) st =
     (case visit_leaks cfg resolve xs st of None \<Rightarrow> None | Some st' \<Rightarrow> visit_leaks cfg resolve ys st')"
  by (induction xs arbitrary: st) (simp_all split: option.split)

lemma visit_new_size:
  assumes "ar_size r \<noteq> current_size st"
  shows "visit_leak cfg resolve r st = visit_leak cfg resolve r (open_group cfg (ar_size r) st)"
  using assms by (simp add: visit_leak_def open_group_def Let_def)

text \<open>A whole group of another size: the previous group is flushed and a new one opened.\<close>

lemma visit_run:
  assumes "rs \<noteq> []" "\<forall>r \<in> set rs. ar_size r = n" "n \<noteq> current_size st" "resolves cfg resolve rs"
  shows "visit_leaks cfg resolve rs st = Some (extend_group cfg resolve rs (open_group cfg n st))"
proof -
  obtain r rest where rs: "rs = r # rest" using assms(1) by (cases rs) auto
  have "visit_leaks cfg resolve rs st = visit_leaks cfg resolve rs (open_group cfg n st)"
    using assms(2,3) visit_new_size [of r st cfg resolve] by (simp add: rs)
  also have "\<dots> = Some (extend_group cfg resolve rs (open_group cfg n st))"
    using assms(2,4) by (intro visit_same_sizes) (auto simp: open_group_def Let_def)
  finally show ?thesis .
qed


fun runs_from :: "u64 \<Rightarrow> (u64 \<times> alloc_record list) list \<Rightarrow> bool" where
  "runs_from m [] = True"
| "runs_from m ((n, rs) # cs) =
     (n \<noteq> m \<and> rs \<noteq> [] \<and> length rs < 2 ^ 64 \<and> (\<forall>r \<in> set rs. ar_size r = n) \<and> runs_from n cs)"

lemma fold_push_address:
  "fold (\<lambda>r. push_address (f r)) rs \<lparr>lg_size = k, lg_addresses = Some ds\<rparr> =
     \<lparr>lg_size = k, lg_addresses = Some (ds @ map f rs)\<rparr>"
  by (induction rs arbitrary: ds) (simp_all add: push_address_def)

lemma flush_run:
  fixes n rs st cfg resolve
  defines "st' \<equiv> extend_group cfg resolve rs (open_group cfg n st)"
  assumes "rs \<noteq> []" "length rs < 2 ^ 64"
  shows "by_size (flush_group cfg st') = by_size (flush_group cfg st) @
           (if enable_leak_report_summary cfg then [class_summary (n, rs)] else [])"
    and "leaks_by_size (flush_group cfg st') = leaks_by_size (flush_group cfg st) @
           (if enable_leak_report_details cfg then [class_details resolve (n, rs)] else [])"
    and "current_size st' = n"
proof -
  have count: "current_count st' > 0"
    using assms(2,3) of_nat_pos_u64 [of "length rs"] by (simp add: st'_def extend_group_def open_group_def Let_def)
  have fields: "current_size st' = n" "current_count st' = of_nat (length rs)"
    "current_sample_addresses st' = take 100 (map (addr_string \<circ> ar_address) rs)"
    "by_size st' = by_size (flush_group cfg st)" "leaks_by_size st' = leaks_by_size (flush_group cfg st)"
    by (simp_all add: st'_def extend_group_def open_group_def Let_def)
  have group: "enable_leak_report_details cfg \<Longrightarrow>
      group_json (current_leak_group st') = class_details resolve (n, rs)"
    by (simp add: st'_def extend_group_def open_group_def Let_def fold_push_address group_json_def class_details_def)
  show "by_size (flush_group cfg st') = by_size (flush_group cfg st) @
      (if enable_leak_report_summary cfg then [class_summary (n, rs)] else [])"
    using count by (simp add: flush_group_def [of cfg st'] Let_def fields class_summary_def)
  show "leaks_by_size (flush_group cfg st') = leaks_by_size (flush_group cfg st) @
      (if enable_leak_report_details cfg then [class_details resolve (n, rs)] else [])"
    using count group by (simp add: flush_group_def [of cfg st'] Let_def fields)
  show "current_size st' = n" by (rule fields(1))
qed

lemma visit_runs:
  assumes "runs_from (current_size st) cs" "resolves cfg resolve (concat (map snd cs))"
  shows "\<exists>st'. visit_leaks cfg resolve (concat (map snd cs)) st = Some st' \<and>
     by_size (flush_group cfg st') = by_size (flush_group cfg st) @
       (if enable_leak_report_summary cfg then map class_summary cs else []) \<and>
     leaks_by_size (flush_group cfg st') = leaks_by_size (flush_group cfg st) @
       (if enable_leak_report_details cfg then map (class_details resolve) cs else [])"
  using assms
proof (induction cs arbitrary: st)
  case (Cons c cs)
  obtain n rs where c: "c = (n, rs)" by (cases c)
  define st1 where "st1 = extend_group cfg resolve rs (open_group cfg n st)"
  from Cons.prems have run: "rs \<noteq> []" "length rs < 2 ^ 64" "\<forall>r \<in> set rs. ar_size r = n" "n \<noteq> current_size st"
    "runs_from n cs" and res: "resolves cfg resolve rs" "resolves cfg resolve (concat (map snd cs))"
    by (auto simp: c resolves_def)
  note F = flush_run [OF run(1,2), of cfg resolve n st, folded st1_def]
  have "visit_leaks cfg resolve rs st = Some st1"
    unfolding st1_def by (rule visit_run [OF run(1,3,4) res(1)])
  moreover have "runs_from (current_size st1) cs" using run(5) F(3) by simp
  note Cons.IH [OF this res(2)]
  ultimately show ?case using F by (auto simp: c visit_leaks_append)
qed simp

section \<open>The sorted leaks are the size classes\<close>

lemma leak_key_le: "leak_key r \<le> leak_key s \<longleftrightarrow>
    (if ar_size r \<noteq> ar_size s then ar_size r > ar_size s else ar_address r \<le> ar_address s)"
  by (auto simp: leak_key_def less_eq_leak_key_def)

lemma leak_key_inj: "inj_on leak_key (set (leaks_of rs))"
  by (rule inj_onI) (auto simp: leak_key_def leaks_of_def intro: alloc_record.equality)

lemma leak_sizes_desc: "sorted_wrt (>) (leak_sizes leaks)"
  using strict_sorted_list_of_set [of "ar_size ` set leaks"]
  by (simp add: leak_sizes_def sorted_wrt_rev)

lemma set_leak_sizes: "set (leak_sizes leaks) = ar_size ` set leaks"
  by (simp add: leak_sizes_def)

lemma mset_classes:
  "distinct ns \<Longrightarrow>
   mset (concat (map (\<lambda>n. sort_key ar_address (filter (\<lambda>r. ar_size r = n) leaks)) ns)) =
     filter_mset (\<lambda>r. ar_size r \<in> set ns) (mset leaks)"
proof (induction ns)
  case (Cons n ns)
  have "filter_mset (\<lambda>r. ar_size r \<in> set (n # ns)) (mset leaks) =
      filter_mset (\<lambda>r. ar_size r = n) (mset leaks) + filter_mset (\<lambda>r. ar_size r \<in> set ns) (mset leaks)"
    using Cons.prems by (induction leaks) auto
  with Cons show ?case by simp
qed simp

lemma mset_size_classes: "mset (concat (map snd (size_classes leaks))) = mset leaks"
proof -
  have "distinct (leak_sizes leaks)" by (simp add: leak_sizes_def)
  from mset_classes [OF this, of leaks] show ?thesis
    by (simp add: size_classes_def comp_def set_leak_sizes filter_mset_eq_conv)
qed

lemma sorted_classes:
  assumes "sorted_wrt (>) ns"
  shows "sorted (map leak_key (concat (map (\<lambda>n. sort_key ar_address (filter (\<lambda>r. ar_size r = n) leaks)) ns)))"
  using assms
proof (induction ns)
  case (Cons n ns)
  let ?g = "sort_key ar_address (filter (\<lambda>r. ar_size r = n) leaks)"
  have "sorted (map ar_address ?g)" by (rule sorted_sort_key)
  then have "sorted_wrt (\<lambda>r s. ar_address r \<le> ar_address s) ?g" by (simp add: sorted_map)
  then have "sorted_wrt (\<lambda>r s. leak_key r \<le> leak_key s) ?g"
    by (rule sorted_wrt_mono_rel [rotated]) (auto simp: leak_key_le)
  then have "sorted (map leak_key ?g)" by (simp add: sorted_map)
  moreover have "leak_key r \<le> leak_key s"
    if "r \<in> set ?g" "s \<in> set (concat (map (\<lambda>n. sort_key ar_address (filter (\<lambda>r. ar_size r = n) leaks)) ns))" for r s
    using that Cons.prems by (auto simp: leak_key_le)
  ultimately show ?case using Cons by (auto simp: sorted_append simp del: sort_key_simps)
qed simp

lemma sort_leaks_classes:
  "sort_leaks (leaks_of rs) = concat (map snd (size_classes (leaks_of rs)))"
  unfolding sort_leaks_def
proof (rule sort_key_inj_key_eq)
  show "mset (leaks_of rs) = mset (concat (map snd (size_classes (leaks_of rs))))"
    by (simp add: mset_size_classes)
  show "sorted (map leak_key (concat (map snd (size_classes (leaks_of rs)))))"
    using sorted_classes [OF leak_sizes_desc] by (simp add: size_classes_def comp_def)
qed (rule leak_key_inj)

lemma size_classes_runs:
  assumes "length leaks < 2 ^ 64" "\<exists>r \<in> set leaks. ar_size r \<noteq> 0"
  shows "runs_from 0 (size_classes leaks)"
proof -
  have *: "runs_from m (map (\<lambda>n. (n, sort_key ar_address (filter (\<lambda>r. ar_size r = n) leaks))) ns)"
    if "sorted_wrt (>) ns" "set ns \<subseteq> ar_size ` set leaks" "ns \<noteq> [] \<Longrightarrow> hd ns \<noteq> m" for m ns
    using that
  proof (induction ns arbitrary: m)
    case (Cons n ns)
    have "filter (\<lambda>r. ar_size r = n) leaks \<noteq> []" using Cons.prems(2) by (auto simp: filter_empty_conv)
    then have "sort_key ar_address (filter (\<lambda>r. ar_size r = n) leaks) \<noteq> []"
      by (metis length_0_conv length_sort)
    moreover have "length (filter (\<lambda>r. ar_size r = n) leaks) < 2 ^ 64"
      using assms(1) by (rule le_less_trans [OF length_filter_le])
    moreover have "ns \<noteq> [] \<Longrightarrow> hd ns \<noteq> n" using Cons.prems(1) by (cases ns) auto
    ultimately show ?case using Cons by simp
  qed simp
  have "hd (leak_sizes leaks) \<noteq> 0" if "leak_sizes leaks \<noteq> []"
  proof
    assume "hd (leak_sizes leaks) = 0"
    with that leak_sizes_desc [of leaks] have "\<forall>n \<in> set (leak_sizes leaks). n = 0"
      by (cases "leak_sizes leaks") auto
    with assms(2) show False by (auto simp: set_leak_sizes)
  qed
  with * [OF leak_sizes_desc, of leaks 0] show ?thesis by (simp add: size_classes_def set_leak_sizes)
qed


section \<open>The whole detection\<close>

definition spec_report :: "leak_config \<Rightarrow> (addr \<Rightarrow> u64 \<Rightarrow> string option) \<Rightarrow> alloc_record list \<Rightarrow> json" where
  "spec_report cfg resolve leaks =
     leak_report cfg (of_nat (length leaks)) (sum_list (map ar_size leaks))
       (map class_summary (size_classes leaks)) (map (class_details resolve) (size_classes leaks))"

lemma flush_start [simp]: "flush_group cfg grouping_start = grouping_start"
  by (simp add: flush_group_def grouping_start_def)

lemma start_empty [simp]: "by_size grouping_start = []" "leaks_by_size grouping_start = []"
  by (simp_all add: grouping_start_def)

lemma detect_leaks_unfold:
  "detect_leaks cfg resolve src =
     (case visit_leaks cfg resolve (sort_leaks (leaks_of (enumerated src))) grouping_start of
        None \<Rightarrow> None
      | Some st \<Rightarrow>
          Some (if (of_nat (length (leaks_of (enumerated src))) :: u64) > 0
                then Some (leak_report cfg (of_nat (length (leaks_of (enumerated src))))
                             (sum_list (map ar_size (leaks_of (enumerated src))))
                             (by_size (flush_group cfg st)) (leaks_by_size (flush_group cfg st)))
                else None))"
  by (simp add: detect_leaks_def Let_def ScanThreadStacks_def ScanDataSegments_def EnumerateHeap_append
      collect_leaks_spec split: option.split)

lemma resolves_sorted: "resolves cfg resolve (sort_leaks leaks) \<longleftrightarrow> resolves cfg resolve leaks"
  by (simp add: resolves_def sort_leaks_def)

lemma detect_leaks_spec:
  assumes "length (leaks_of (enumerated src)) < 2 ^ 64" "resolves cfg resolve (leaks_of (enumerated src))"
    and "\<exists>r \<in> set (leaks_of (enumerated src)). ar_size r \<noteq> 0"
  shows "detect_leaks cfg resolve src = Some (Some (spec_report cfg resolve (leaks_of (enumerated src))))"
proof -
  let ?L = "leaks_of (enumerated src)"
  have runs: "runs_from (current_size grouping_start) (size_classes ?L)"
    using size_classes_runs [OF assms(1,3)] by (simp add: grouping_start_def)
  have res: "resolves cfg resolve (concat (map snd (size_classes ?L)))"
    using assms(2) by (simp add: sort_leaks_classes [symmetric] resolves_sorted)
  obtain st where st: "visit_leaks cfg resolve (sort_leaks ?L) grouping_start = Some st"
    "by_size (flush_group cfg st) = (if enable_leak_report_summary cfg then map class_summary (size_classes ?L) else [])"
    "leaks_by_size (flush_group cfg st) =
       (if enable_leak_report_details cfg then map (class_details resolve) (size_classes ?L) else [])"
    using visit_runs [OF runs res] by (auto simp: sort_leaks_classes)
  have "?L \<noteq> []" using assms(3) by auto
  then have "(of_nat (length ?L) :: u64) > 0" using of_nat_pos_u64 [OF assms(1)] by simp
  with st show ?thesis by (simp add: detect_leaks_unfold spec_report_def leak_report_def)
qed

lemma visit_leaks_total:
  "resolves cfg resolve rs \<Longrightarrow> \<exists>st'. visit_leaks cfg resolve rs st = Some st'"
proof (induction rs arbitrary: st)
  case (Cons r rs)
  then have "\<exists>st'. visit_leak cfg resolve r st = Some st'"
    by (auto simp: visit_leak_def resolves_def Let_def)
  with Cons show ?case by (auto simp: resolves_def)
qed simp

lemma sum_classes:
  fixes f :: "alloc_record list \<Rightarrow> 'a :: comm_monoid_add"
  assumes f: "f [] = 0" "\<And>xs ys zs. mset zs = mset xs + mset ys \<Longrightarrow> f zs = f xs + f ys"
    and d: "distinct ns"
  shows "(\<Sum>n \<leftarrow> ns. f (filter (\<lambda>r. ar_size r = n) leaks)) = f (filter (\<lambda>r. ar_size r \<in> set ns) leaks)"
  using d
proof (induction ns)
  case (Cons n ns)
  have "mset (filter (\<lambda>r. ar_size r \<in> set (n # ns)) leaks) =
      mset (filter (\<lambda>r. ar_size r = n) leaks) + mset (filter (\<lambda>r. ar_size r \<in> set ns) leaks)"
    using Cons.prems by (induction leaks) auto
  from f(2) [OF this] Cons show ?case by simp
qed (simp add: f(1))

text \<open>The counts and the bytes of the classes add up to the totals.\<close>

lemma classes_add_up:
  "(\<Sum>c \<leftarrow> size_classes leaks. of_nat (length (snd c))) = (of_nat (length leaks) :: u64)"
  "(\<Sum>c \<leftarrow> size_classes leaks. fst c * of_nat (length (snd c))) = sum_list (map ar_size leaks)"
proof -
  have d: "distinct (leak_sizes leaks)" by (simp add: leak_sizes_def)
  have all: "filter (\<lambda>r. ar_size r \<in> set (leak_sizes leaks)) leaks = leaks"
    by (simp add: set_leak_sizes filter_id_conv)
  have len: "(\<Sum>n \<leftarrow> leak_sizes leaks. (of_nat (length (filter (\<lambda>r. ar_size r = n) leaks)) :: u64)) =
      of_nat (length leaks)"
    using sum_classes [OF _ _ d, of "\<lambda>xs. of_nat (length xs) :: u64" leaks] all
    by (simp add: size_mset [symmetric] del: size_mset)
  then show "(\<Sum>c \<leftarrow> size_classes leaks. of_nat (length (snd c))) = (of_nat (length leaks) :: u64)"
    by (simp add: size_classes_def comp_def)
  have bytes: "sum_list (map ar_size zs) = sum_list (map ar_size xs) + sum_list (map ar_size ys)"
    if "mset zs = mset xs + mset ys" for xs ys zs :: "alloc_record list"
  proof -
    have "sum_mset (image_mset ar_size (mset zs)) = sum_mset (image_mset ar_size (mset xs + mset ys))"
      using that by simp
    then show ?thesis by (simp add: sum_mset_sum_list [symmetric] del: sum_mset_sum_list)
  qed
  have one: "n * of_nat (length (filter (\<lambda>r. ar_size r = n) leaks)) =
      sum_list (map ar_size (filter (\<lambda>r. ar_size r = n) leaks))" for n
    by (induction leaks) (auto simp: algebra_simps)
  have "(\<Sum>n \<leftarrow> leak_sizes leaks. sum_list (map ar_size (filter (\<lambda>r. ar_size r = n) leaks))) =
      sum_list (map ar_size leaks)"
    using sum_classes [OF _ _ d, of "\<lambda>xs. sum_list (map ar_size xs)" leaks] bytes all by simp
  then show "(\<Sum>c \<leftarrow> size_classes leaks. fst c * of_nat (length (snd c))) = sum_list (map ar_size leaks)"
    by (simp add: size_classes_def comp_def one)
qed

lemma classes_desc: "sorted_wrt (>) (map fst (size_classes leaks))"
  using leak_sizes_desc [of leaks] by (simp add: size_classes_def comp_def)

lemma class_nonempty: "c \<in> set (size_classes leaks) \<Longrightarrow> snd c \<noteq> []"
  by (auto simp: size_classes_def set_leak_sizes filter_empty_conv simp flip: set_empty)

section \<open>Marking\<close>

definition contains_addr :: "alloc_record \<Rightarrow> addr \<Rightarrow> bool" where
  "contains_addr r a \<longleftrightarrow> unat a \<in> span (ar_address r) (ar_size r)"

lemma contains_addr_code:
  "unat (ar_address r) + unat (ar_size r) < 2 ^ 64 \<Longrightarrow>
   (a \<ge> ar_address r \<and> a < ar_address r + ar_size r) \<longleftrightarrow> contains_addr r a"
  by (simp add: contains_addr_def word_le_nat_alt word_less_nat_alt unat_add_nowrap)


text \<open>A heap with three leaks of two sizes, and one that only has a leak of size 0.\<close>

definition demo_heap_source :: heap_source where
  "demo_heap_source = Linux_Heap [unmarked 4096 16, unmarked 8192 64, unmarked 4112 16]"

definition demo_cfg :: leak_config where
  "demo_cfg = \<lparr>enable_leak_report_summary = True, enable_leak_report_details = True\<rparr>"

lemma demo_leaks:
  "leaks_of (enumerated demo_heap_source) = [unmarked 4096 16, unmarked 8192 64, unmarked 4112 16]"
  by (simp add: demo_heap_source_def leaks_of_def unmarked_def)

lemma demo_leak_sizes: "leak_sizes [unmarked 4096 16, unmarked 8192 64, unmarked 4112 16] = [64, 16]"
  by (simp add: leak_sizes_def unmarked_def insert_Diff_if)

lemma demo_resolves: "resolves cfg (\<lambda>a n. Some t) leaks"
  by (simp add: resolves_def)

section \<open>Properties\<close>

text \<open>C7: The one-pass grouping loop computes the size classes: provided some leak is not empty, the
  report carries the number of leaks and their bytes, and for each size that occurs, in
  descending order, one group with the count, the first hundred addresses in ascending order and
  (with details) every address with its type.\<close>

theorem leak_report_is_size_classes:
  assumes "length (leaks_of (enumerated src)) < 2 ^ 64" and "resolves cfg resolve (leaks_of (enumerated src))"
    and "\<exists>r \<in> set (leaks_of (enumerated src)). ar_size r \<noteq> 0"
  shows "detect_leaks cfg resolve src =
     Some (Some (leak_report cfg (of_nat (length (leaks_of (enumerated src))))
       (sum_list (map ar_size (leaks_of (enumerated src))))
       (map class_summary (size_classes (leaks_of (enumerated src))))
       (map (class_details resolve) (size_classes (leaks_of (enumerated src))))))"
  using detect_leaks_spec [OF assms] by (simp add: spec_report_def)

lemma leak_report_is_size_classes_witness:
  "detect_leaks demo_cfg (\<lambda>a n. Some '''') demo_heap_source =
     Some (Some (leak_report demo_cfg 3 96
       [class_summary (64, [unmarked 8192 64]), class_summary (16, [unmarked 4096 16, unmarked 4112 16])]
       [class_details (\<lambda>a n. Some '''') (64, [unmarked 8192 64]),
        class_details (\<lambda>a n. Some '''') (16, [unmarked 4096 16, unmarked 4112 16])]))"
  using leak_report_is_size_classes [of demo_heap_source demo_cfg "\<lambda>a n. Some ''''"] demo_resolves
  by (simp add: demo_leaks size_classes_def demo_leak_sizes) (simp add: unmarked_def)

text \<open>The report does not depend on the order in which the heap was enumerated (the iteration
  order of the hash map, of zones or of heap entries), in every configuration.\<close>

theorem leak_report_order_independent:
  assumes "mset (leaks_of (enumerated src)) = mset (leaks_of (enumerated src'))"
  shows "detect_leaks cfg resolve src = detect_leaks cfg resolve src'"
proof -
  have "sort_leaks (leaks_of (enumerated src)) = sort_leaks (leaks_of (enumerated src'))"
    unfolding sort_leaks_def
    by (rule sort_key_inj_key_eq) (simp_all add: assms leak_key_inj)
  moreover have "length (leaks_of (enumerated src)) = length (leaks_of (enumerated src'))"
    using assms by (rule mset_eq_length)
  moreover have "sum_list (map ar_size (leaks_of (enumerated src))) = sum_list (map ar_size (leaks_of (enumerated src')))"
    using assms by (metis mset_map sum_mset_sum_list)
  ultimately show ?thesis by (simp only: detect_leaks_unfold)
qed

lemma leak_report_order_independent_witness:
  "detect_leaks demo_cfg (\<lambda>a n. Some '''') demo_heap_source =
   detect_leaks demo_cfg (\<lambda>a n. Some '''') (Mac_Heap (Some [None, Some [[(8192, 64)], [(4112, 16), (4096, 16)]]]))"
  by (rule leak_report_order_independent) (simp add: demo_leaks, simp add: leaks_of_def unmarked_def)

text \<open>The summary adds up: its groups have strictly descending sizes and are not empty, their
  counts sum to \<open>total_leaks\<close> and size times count sums to \<open>total_leaked_bytes\<close> (as \<open>size_t\<close>).\<close>

theorem leak_summary_adds_up:
  assumes "length (leaks_of (enumerated src)) < 2 ^ 64" and "resolves cfg resolve (leaks_of (enumerated src))"
    and "\<exists>r \<in> set (leaks_of (enumerated src)). ar_size r \<noteq> 0"
  shows "\<exists>(groups :: (u64 \<times> alloc_record list) list) details.
     detect_leaks cfg resolve src =
       Some (Some (leak_report cfg (\<Sum>(n, rs) \<leftarrow> groups. of_nat (length rs))
         (\<Sum>(n, rs) \<leftarrow> groups. n * of_nat (length rs))
         (map (\<lambda>(n, rs). summary_item n (of_nat (length rs)) (take 100 (map (addr_string \<circ> ar_address) rs))) groups)
         details)) \<and>
     sorted_wrt (>) (map fst groups) \<and> (\<forall>(n, rs) \<in> set groups. rs \<noteq> [] \<and> (\<forall>r \<in> set rs. ar_size r = n))"
proof -
  let ?L = "leaks_of (enumerated src)"
  have "detect_leaks cfg resolve src =
       Some (Some (leak_report cfg (\<Sum>(n, rs) \<leftarrow> size_classes ?L. of_nat (length rs))
         (\<Sum>(n, rs) \<leftarrow> size_classes ?L. n * of_nat (length rs))
         (map (\<lambda>(n, rs). summary_item n (of_nat (length rs)) (take 100 (map (addr_string \<circ> ar_address) rs)))
           (size_classes ?L))
         (map (class_details resolve) (size_classes ?L))))"
    using detect_leaks_spec [OF assms] classes_add_up [of ?L]
    by (simp add: spec_report_def case_prod_unfold class_summary_def [abs_def] comp_def)
  moreover have "\<forall>(n, rs) \<in> set (size_classes ?L). rs \<noteq> [] \<and> (\<forall>r \<in> set rs. ar_size r = n)"
    using class_nonempty by (fastforce simp: size_classes_def)
  ultimately show ?thesis using classes_desc [of ?L] by blast
qed

lemma leak_summary_adds_up_witness:
  "\<exists>(groups :: (u64 \<times> alloc_record list) list) details. detect_leaks demo_cfg (\<lambda>a n. Some '''') demo_heap_source =
     Some (Some (leak_report demo_cfg (\<Sum>(n, rs) \<leftarrow> groups. of_nat (length rs))
       (\<Sum>(n, rs) \<leftarrow> groups. n * of_nat (length rs))
       (map (\<lambda>(n, rs). summary_item n (of_nat (length rs)) (take 100 (map (addr_string \<circ> ar_address) rs))) groups)
       details))"
  using leak_summary_adds_up [of demo_heap_source demo_cfg "\<lambda>a n. Some ''''"] demo_resolves
  by (auto simp: demo_leaks unmarked_def)

text \<open>A report is made exactly when something leaked and a reporter is installed, and it is made
  once; otherwise the reporter's state is untouched. Without details no block is ever read.\<close>

theorem report_iff_leaks:
  assumes "length (leaks_of (enumerated src)) < 2 ^ 64"
    and "enable_leak_report_details cfg \<longrightarrow>
           (\<forall>r \<in> set (leaks_of (enumerated src)). resolve (ar_address r) (ar_size r) \<noteq> None)"
  shows "(leaks_of (enumerated src) = [] \<longrightarrow> RunLeakDetection cfg resolve reporter src f = Ret () f) \<and>
         RunLeakDetection cfg resolve None src f = Ret () f \<and>
         (leaks_of (enumerated src) \<noteq> [] \<longrightarrow>
            (\<exists>d. RunLeakDetection cfg resolve (Some emit) src f = emit d f))"
proof -
  let ?L = "leaks_of (enumerated src)"
  have "resolves cfg resolve (sort_leaks ?L)" using assms(2) by (simp add: resolves_def sort_leaks_def)
  from visit_leaks_total [OF this] obtain st where "visit_leaks cfg resolve (sort_leaks ?L) grouping_start = Some st"
    by blast
  then show ?thesis
    using of_nat_pos_u64 [OF assms(1)]
    by (cases "?L = []") (auto simp: RunLeakDetection_def detect_leaks_unfold)
qed

lemma report_iff_leaks_witness:
  "\<exists>d. RunLeakDetection demo_cfg (\<lambda>a n. Some '''') (Some (\<lambda>d f. Ret () (d # f))) demo_heap_source [] = Ret () [d]"
  using report_iff_leaks [of demo_heap_source demo_cfg "\<lambda>a n. Some ''''" None "[]" "\<lambda>d f. Ret () (d # f)"]
  by (auto simp: demo_leaks)

text \<open>If every leaked block has size 0, the group that opens is never initialised: the detailed
  report has one group without a \<open>size\<close>.\<close>

theorem zero_size_group_has_no_size:
  assumes "leaks_of (enumerated src) \<noteq> []" and "length (leaks_of (enumerated src)) < 2 ^ 64"
    and "\<forall>r \<in> set (leaks_of (enumerated src)). ar_size r = 0"
    and "enable_leak_report_details cfg" and "resolves cfg resolve (leaks_of (enumerated src))"
  shows "\<exists>n sizes addresses. detect_leaks cfg resolve src =
           Some (Some (leak_report cfg n 0 sizes [JObj [(''addresses'', JArr addresses)]])) \<and>
           length addresses = length (leaks_of (enumerated src))"
proof -
  let ?L = "leaks_of (enumerated src)" and ?S = "sort_leaks (leaks_of (enumerated src))"
  let ?f = "\<lambda>r. leak_detail (addr_string (ar_address r)) (the (resolve (ar_address r) (ar_size r)))"
  have L: "set ?S = set ?L" "length ?S = length ?L" by (simp_all add: sort_leaks_def)
  obtain r rest where S: "?S = r # rest" using assms(1) L(2) by (cases ?S) auto
  have visit: "visit_leaks cfg resolve ?S grouping_start = Some (extend_group cfg resolve ?S grouping_start)"
    using assms(3,5) by (intro visit_same_sizes) (auto simp: L resolves_sorted grouping_start_def)
  let ?E = "extend_group cfg resolve ?S grouping_start"
  have fold: "fold (\<lambda>r. push_address (?f r)) ?S \<lparr>lg_size = None, lg_addresses = None\<rparr> =
      \<lparr>lg_size = None, lg_addresses = Some (map ?f ?S)\<rparr>"
    using fold_push_address [of ?f rest None "[?f r]"] by (simp add: S push_address_def)
  have pos: "(of_nat (length ?L) :: u64) > 0" using of_nat_pos_u64 [OF assms(2)] assms(1) by simp
  have "leaks_by_size (flush_group cfg ?E) = [JObj [(''addresses'', JArr (map ?f ?S))]]"
    using assms(4) fold pos
    by (simp add: flush_group_def extend_group_def Let_def grouping_start_def group_json_def L)
  moreover have "sum_list (map ar_size ?L) = 0" using assms(3) by (simp cong: map_cong)
  ultimately have "detect_leaks cfg resolve src = Some (Some (leak_report cfg (of_nat (length ?L)) 0
      (by_size (flush_group cfg ?E)) [JObj [(''addresses'', JArr (map ?f ?S))]]))"
    using visit pos by (simp add: detect_leaks_unfold)
  moreover have "length (map ?f ?S) = length ?L" by (simp add: L)
  ultimately show ?thesis by blast
qed

lemma zero_size_group_has_no_size_witness:
  "\<exists>n sizes addresses. detect_leaks demo_cfg (\<lambda>a n. Some '''') (Linux_Heap [unmarked 4096 0]) =
     Some (Some (leak_report demo_cfg n 0 sizes [JObj [(''addresses'', JArr addresses)]])) \<and> length addresses = 1"
  using zero_size_group_has_no_size [of "Linux_Heap [unmarked 4096 0]" demo_cfg "\<lambda>a n. Some ''''"]
  by (simp add: leaks_of_def unmarked_def demo_cfg_def demo_resolves)

text \<open>\<open>MarkReachability\<close> marks exactly the block that contains the pointer, for blocks that do not
  overlap or wrap around the address space.\<close>

theorem MarkReachability_marks_containing_block:
  assumes "\<forall>r \<in> set rs. unat (ar_address r) + unat (ar_size r) < 2 ^ 64"
    and "disjoint_blocks (map (\<lambda>r. (ar_address r, ar_size r)) rs)"
  shows "MarkReachability rs a = map (\<lambda>r. if contains_addr r a then r\<lparr>ar_marked := True\<rparr> else r) rs"
  using assms
proof (induction rs)
  case (Cons r rs)
  have IH: "MarkReachability rs a = map (\<lambda>r. if contains_addr r a then r\<lparr>ar_marked := True\<rparr> else r) rs"
    using Cons by (simp add: disjoint_blocks_def)
  have "\<not> contains_addr s a" if "contains_addr r a" "s \<in> set rs" for s
    using Cons.prems(2) that by (fastforce simp: disjoint_blocks_def contains_addr_def)
  then have "contains_addr r a \<Longrightarrow> map (\<lambda>r. if contains_addr r a then r\<lparr>ar_marked := True\<rparr> else r) rs = rs"
    by (simp add: map_idI)
  with IH Cons.prems(1) contains_addr_code [of r a] show ?case by auto
qed simp

lemma MarkReachability_marks_containing_block_witness:
  "MarkReachability [unmarked 4096 16, unmarked 8192 64] 8200 =
     [unmarked 4096 16, (unmarked 8192 64)\<lparr>ar_marked := True\<rparr>]"
  using MarkReachability_marks_containing_block [of "[unmarked 4096 16, unmarked 8192 64]" 8200]
  by (simp add: disjoint_blocks_def unmarked_def contains_addr_def)

end
