(* ===== verification/Doubles.thy ===== *)
theory Doubles
  imports Complex_Main Prelude
begin

text \<open>
  IEEE double arithmetic as far as the CPU monitor uses it: conversion of \<open>uint64_t\<close>, division and
  comparison with the literal \<open>0.90\<close>, all rounded to nearest, ties to even, with 53 bits. The values
  that occur lie between \<open>2^-64\<close> and \<open>2^65\<close>, so that no result is subnormal or infinite.
\<close>

section \<open>Rounding\<close>

definition round_half_even :: "rat \<Rightarrow> int" where
  "round_half_even x =
     (let n = \<lfloor>x\<rfloor>; d = x - of_int n
      in if d < 1 / 2 then n else if d > 1 / 2 then n + 1 else if even n then n else n + 1)"

text \<open>The number of fractional bits at which \<open>x\<close> has a 53-bit significand.\<close>

definition fits :: "rat \<Rightarrow> int \<Rightarrow> bool" where
  "fits x s \<longleftrightarrow> 2 ^ 52 \<le> x * 2 powi s \<and> x * 2 powi s < 2 ^ 53"

definition scale :: "rat \<Rightarrow> int" where
  "scale x = the (List.find (fits x) [-12..117])"

definition fl :: "rat \<Rightarrow> rat" where
  "fl x = (if x = 0 then 0 else of_int (round_half_even (x * 2 powi scale x)) / 2 powi scale x)"

definition u64_to_double :: "u64 \<Rightarrow> rat" where
  "u64_to_double w = fl (of_nat (unat w))"

definition double_div :: "rat \<Rightarrow> rat \<Rightarrow> rat" where
  "double_div x y = fl (x / y)"

definition lit_0_90 :: rat where
  "lit_0_90 = fl (9 / 10)"

section \<open>Facts about rounding\<close>

lemma round_half_even_int [simp]: "round_half_even (of_int n) = n"
  by (simp add: round_half_even_def)

lemma round_half_even_bounds:
  "of_int n \<le> x \<Longrightarrow> n \<le> round_half_even x"
  "x \<le> of_int n \<Longrightarrow> round_half_even x \<le> n"
proof -
  show "n \<le> round_half_even x" if "of_int n \<le> x"
    using that by (auto simp: round_half_even_def Let_def le_floor_iff intro: le_add1)
      (metis le_floor_iff zle_add1_eq_le order_less_imp_le)+
  show "round_half_even x \<le> n" if "x \<le> of_int n"
  proof (cases "x = of_int n")
    case False
    with that have "\<lfloor>x\<rfloor> < n" by (simp add: floor_less_iff)
    then show ?thesis by (auto simp: round_half_even_def Let_def)
  qed simp
qed

lemma round_half_even_gt:
  "n < round_half_even x \<longleftrightarrow> (if odd n then of_int n + 1 / 2 \<le> x else of_int n + 1 / 2 < x)"
proof -
  let ?f = "\<lfloor>x\<rfloor>"
  consider "?f < n" | "?f = n" | "?f > n" by linarith
  then show ?thesis
  proof cases
    case 1
    then have "x < of_int n" by (simp add: floor_less_iff)
    moreover from 1 have "round_half_even x \<le> n" by (auto simp: round_half_even_def Let_def)
    ultimately show ?thesis by auto
  next
    case 2
    then have "of_int n \<le> x" "x < of_int n + 1" by linarith+
    with 2 show ?thesis by (auto simp: round_half_even_def Let_def)
  next
    case 3
    then have "of_int n + 1 \<le> x" by linarith
    moreover from 3 have "n < round_half_even x" by (auto simp: round_half_even_def Let_def)
    ultimately show ?thesis by auto
  qed
qed

lemma powi_pos: "0 < (2 :: rat) powi s"
  by simp

lemma fits_unique: "fits x s \<Longrightarrow> fits x t \<Longrightarrow> s = t"
proof -
  have *: False if "fits x s" "fits x t" "s < t" for s t
  proof -
    have "(2 :: rat) powi (s + 1) \<le> 2 powi t" using that(3) by (simp add: power_int_increasing)
    then have "2 * (2 :: rat) powi s \<le> 2 powi t" by (simp add: power_int_add)
    moreover have "0 < x" using that(1) powi_pos [of s]
      by (metis fits_def less_le_trans zero_less_mult_pos2 zero_less_numeral zero_less_power)
    ultimately have "2 * (x * 2 powi s) \<le> x * 2 powi t" by (simp add: mult_left_mono)
    with that show False by (simp add: fits_def)
  qed
  assume "fits x s" "fits x t"
  with * [of s t] * [of t s] show "s = t" by (meson linorder_neqE_linordered_idom)
qed

lemma scale_eq:
  assumes "fits x s" "- 12 \<le> s" "s \<le> 117"
  shows "scale x = s"
proof -
  have "\<exists>t. List.find (fits x) [-12..117] = Some t"
  proof -
    have "List.find (fits x) [-12..117] \<noteq> None"
      unfolding find_None_iff set_upto atLeastAtMost_iff using assms by blast
    then show ?thesis by blast
  qed
  then obtain t where t: "List.find (fits x) [-12..117] = Some t" by blast
  then have "fits x t" unfolding find_Some_iff by blast
  with fits_unique [OF assms(1)] t show ?thesis by (simp add: scale_def)
qed

lemma fits_exists:
  assumes "2 powi a \<le> x" "x < 2 powi (a + int n)"
  shows "\<exists>s. fits x s \<and> 53 - a - int n \<le> s \<and> s \<le> 52 - a"
  using assms
proof (induction n)
  case 0
  then show ?case by simp
next
  case (Suc n)
  show ?case
  proof (cases "x < 2 powi (a + int n)")
    case True
    with Suc.IH Suc.prems(1) show ?thesis by force
  next
    case False
    let ?s = "52 - a - int n"
    have "(2 :: rat) ^ 52 = 2 powi (a + int n) * 2 powi ?s"
      by (simp add: power_int_add [symmetric])
    also have "\<dots> \<le> x * 2 powi ?s"
      using False by (intro mult_right_mono) auto
    finally have low: "2 ^ 52 \<le> x * 2 powi ?s" .
    have "x * 2 powi ?s < 2 powi (a + int (Suc n)) * 2 powi ?s"
      using Suc.prems(2) by (intro mult_strict_right_mono) auto
    also have "\<dots> = 2 ^ 53"
      by (simp add: power_int_add [symmetric])
    finally have "fits x ?s" using low by (simp add: fits_def)
    then show ?thesis by (intro exI [of _ ?s]) simp
  qed
qed

text \<open>The range of values that occur.\<close>

definition in_range :: "rat \<Rightarrow> bool" where
  "in_range x \<longleftrightarrow> 2 powi (-65) \<le> x \<and> x < 2 powi 65"

lemma scale_fits:
  assumes "in_range x"
  shows "fits x (scale x)" "- 12 \<le> scale x" "scale x \<le> 117"
proof -
  obtain s where "fits x s" "- 12 - 65 + 65 \<le> s" "s \<le> 117"
    using fits_exists [of "-65" x 130] assms by (auto simp: in_range_def)
  with scale_eq [of x s] show "fits x (scale x)" "- 12 \<le> scale x" "scale x \<le> 117" by simp_all
qed

text \<open>Rounding does not cross a power of two.\<close>

lemma fl_ge_power:
  assumes "in_range x" "(2 :: rat) powi k \<le> x"
  shows "(2 :: rat) powi k \<le> fl x"
proof -
  note S = scale_fits [OF assms(1)]
  let ?s = "scale x"
  have pos: "0 < x" using assms(2) powi_pos [of k] by (rule order_less_le_trans [rotated])
  have le: "k + ?s \<le> 52"
  proof (rule ccontr)
    assume "\<not> k + ?s \<le> 52"
    then have "(2 :: rat) powi 53 \<le> 2 powi (k + ?s)" by (intro power_int_increasing) auto
    also have "\<dots> = 2 powi k * 2 powi ?s" by (simp add: power_int_add)
    also have "\<dots> \<le> x * 2 powi ?s" using assms(2) by (intro mult_right_mono) auto
    finally show False using S(1) by (simp add: fits_def)
  qed
  have "(2 :: rat) powi k * 2 powi ?s = 2 powi (k + ?s)" by (simp add: power_int_add)
  also have "\<dots> \<le> 2 powi 52" using le by (intro power_int_increasing) auto
  also have "(2 :: rat) powi 52 = of_int (2 ^ 52)" by simp
  also have "\<dots> \<le> of_int (round_half_even (x * 2 powi ?s))"
  proof -
    have "of_int (2 ^ 52) \<le> x * 2 powi ?s" using S(1) by (simp add: fits_def)
    then show ?thesis by (simp only: of_int_le_iff round_half_even_bounds(1))
  qed
  finally have "(2 :: rat) powi k * 2 powi ?s \<le> of_int (round_half_even (x * 2 powi ?s))" .
  then show ?thesis using pos by (simp add: fl_def pos_le_divide_eq)
qed

lemma fl_le_power:
  assumes "in_range x" "x \<le> (2 :: rat) powi k"
  shows "fl x \<le> (2 :: rat) powi k"
proof -
  note S = scale_fits [OF assms(1)]
  let ?s = "scale x"
  have pos: "0 < x" using assms(1) powi_pos [of "-65"] by (auto simp: in_range_def intro: order_less_le_trans)
  show ?thesis
  proof (cases "k + ?s \<le> 52")
    case True
    have "x * 2 powi ?s \<le> 2 powi k * 2 powi ?s" using assms(2) by (intro mult_right_mono) auto
    also have "\<dots> = 2 powi (k + ?s)" by (simp add: power_int_add)
    also have "\<dots> \<le> 2 powi 52" using True by (intro power_int_increasing) auto
    finally have up: "x * 2 powi ?s \<le> 2 ^ 52" by simp
    then have eq: "x * 2 powi ?s = of_int (2 ^ 52)" using S(1) by (simp add: fits_def)
    then have "fl x = of_int (2 ^ 52) / 2 powi ?s" using pos by (simp only: fl_def round_half_even_int) simp
    also have "\<dots> = x" using eq by (simp add: field_simps)
    finally show ?thesis using assms(2) by simp
  next
    case False
    have "x * 2 powi ?s \<le> of_int (2 ^ 53)" using S(1) by (simp add: fits_def)
    then have "round_half_even (x * 2 powi ?s) \<le> 2 ^ 53" by (rule round_half_even_bounds(2))
    then have "of_int (round_half_even (x * 2 powi ?s)) \<le> (2 :: rat) ^ 53"
      by (metis of_int_le_iff of_int_numeral of_int_power)
    also have "(2 :: rat) ^ 53 = 2 powi 53" by simp
    also have "(2 :: rat) powi 53 \<le> 2 powi (k + ?s)" using False by (intro power_int_increasing) auto
    also have "\<dots> = 2 powi k * 2 powi ?s" by (simp add: power_int_add)
    finally show ?thesis using pos by (simp add: fl_def pos_divide_le_eq)
  qed
qed

section \<open>Exact values\<close>

lemma fl_exact:
  assumes "fits (of_nat n) s" "0 \<le> s" "s \<le> 117"
  shows "fl (of_nat n) = of_nat n"
proof -
  have s: "scale (of_nat n) = s" using assms by (intro scale_eq) auto
  have "(of_nat n :: rat) * 2 powi s = of_int (int n * 2 ^ nat s)"
    using assms(2) by (simp add: power_int_def)
  then show ?thesis by (cases "n = 0") (simp_all only: fl_def s round_half_even_int, simp_all)
qed

lemma fl_of_nat:
  assumes "n < 2 ^ 53"
  shows "fl (of_nat n) = of_nat n"
proof (cases "n = 0")
  case True
  then show ?thesis by (simp add: fl_def)
next
  case False
  then have "(2 :: rat) powi 0 \<le> of_nat n" by simp
  moreover have "(of_nat n :: rat) < of_nat (2 ^ 53)" using assms by (simp only: of_nat_less_iff)
  then have "(of_nat n :: rat) < 2 powi (0 + int 53)" by simp
  ultimately obtain s where "fits (of_nat n) s" "0 \<le> s" "s \<le> 52"
    using fits_exists [of 0 "of_nat n" 53] by auto
  then show ?thesis by (intro fl_exact) auto
qed

lemma u64_to_double_exact: "unat w < 2 ^ 53 \<Longrightarrow> u64_to_double w = of_nat (unat w)"
  unfolding u64_to_double_def by (rule fl_of_nat)

lemma scale_unit: "1 / 2 \<le> x \<Longrightarrow> x < 1 \<Longrightarrow> scale x = 53"
  by (rule scale_eq) (simp_all add: fits_def)

lemma fl_unit: "1 / 2 \<le> x \<Longrightarrow> x < 1 \<Longrightarrow> fl x = of_int (round_half_even (x * 2 ^ 53)) / 2 ^ 53"
  by (simp add: fl_def scale_unit)

text \<open>The literal, and the quotients that exceed it.\<close>

lemma lit_0_90_value: "lit_0_90 = 8106479329266893 / 2 ^ 53"
proof -
  have "\<lfloor>(9 / 10 :: rat) * 2 ^ 53\<rfloor> = 8106479329266892" by (simp add: floor_eq_iff)
  then have "round_half_even ((9 / 10) * 2 ^ 53) = 8106479329266893"
    by (simp add: round_half_even_def)
  then show ?thesis unfolding lit_0_90_def by (subst fl_unit) simp_all
qed

lemma fl_gt_lit:
  assumes "in_range x"
  shows "fl x > lit_0_90 \<longleftrightarrow> 16212958658533787 / 2 ^ 54 \<le> x"
proof -
  consider "x < 1 / 2" | "1 / 2 \<le> x" "x < 1" | "1 \<le> x" by linarith
  then show ?thesis
  proof cases
    case 1
    then have "fl x \<le> 2 powi (- 1)" using fl_le_power [OF assms, of "- 1"] by (simp add: power_int_minus)
    then have "fl x \<le> 1 / 2" by (simp add: power_int_minus)
    with 1 show ?thesis by (simp add: lit_0_90_value)
  next
    case 2
    have "fl x > lit_0_90 \<longleftrightarrow> of_int (round_half_even (x * 2 ^ 53)) > (of_int 8106479329266893 :: rat)"
      using 2 by (simp add: fl_unit lit_0_90_value)
    also have "\<dots> \<longleftrightarrow> 8106479329266893 < round_half_even (x * 2 ^ 53)" by (simp only: of_int_less_iff)
    also have "\<dots> \<longleftrightarrow> of_int 8106479329266893 + 1 / 2 \<le> x * 2 ^ 53"
      by (subst round_half_even_gt) simp
    also have "\<dots> \<longleftrightarrow> 16212958658533787 / 2 ^ 54 \<le> x" by (simp add: mult.commute)
    finally show ?thesis .
  next
    case 3
    then have "1 \<le> fl x" using fl_ge_power [OF assms, of 0] by simp
    with 3 show ?thesis by (simp add: lit_0_90_value)
  qed
qed

end
