(* ===== verification/Cpu_Monitor.thy ===== *)
theory Cpu_Monitor
  imports Doubles Reporter
begin

text \<open>
  \<open>CpuMonitor\<close> (src/profiler/cpu_monitor.cpp): reading the CPU time of each thread on the three
  platforms, the comparison of two readings against 90 percent of a core, the report, and the
  life cycle of the monitoring thread.

  The files below /proc, the kernel's thread lists and the clock are inputs: each entry of a
  scan carries what the code reads for it, and the value of the steady clock at that moment.
\<close>

section \<open>One reading of one thread\<close>

record thread_state =
  last_cpu_time_ns :: u64
  last_check_time_ns :: u64

type_synonym thread_map = "u64 \<Rightarrow> thread_state option"

definition cpu_usage :: "u64 \<Rightarrow> u64 \<Rightarrow> rat" where
  "cpu_usage cpu_delta time_delta = double_div (u64_to_double cpu_delta) (u64_to_double time_delta)"

text \<open>The three platforms share this part: look the thread up, compare, remember.\<close>

definition observe :: "u64 \<Rightarrow> u64 \<Rightarrow> u64 \<Rightarrow> thread_map \<Rightarrow> bool \<times> thread_map" where
  "observe thread_id cpu_time now states =
     (case states thread_id of
        Some it \<Rightarrow>
          (let cpu_delta = cpu_time - last_cpu_time_ns it;
               time_delta = now - last_check_time_ns it
           in (time_delta > 0 \<and> cpu_usage cpu_delta time_delta > lit_0_90,
               states(thread_id \<mapsto> \<lparr>last_cpu_time_ns = cpu_time, last_check_time_ns = now\<rparr>)))
      | None \<Rightarrow> (False, states(thread_id \<mapsto> \<lparr>last_cpu_time_ns = cpu_time, last_check_time_ns = now\<rparr>)))"

section \<open>Linux: /proc/self/task\<close>

record task_entry =
  d_name :: string
  stat_content :: "string option" \<comment> \<open>\<open>None\<close> if the file cannot be opened\<close>
  task_now :: u64

text \<open>\<open>std::getline\<close> fails only on an empty file.\<close>

definition get_line :: "string \<Rightarrow> string option" where
  "get_line content = (if content = [] then None else Some (takeWhile (\<lambda>c. c \<noteq> CHR 0x0A) content))"

text \<open>The text behind the last closing parenthesis: \<open>find_last_of(')')\<close>.\<close>

definition after_rparen :: "string \<Rightarrow> string option" where
  "after_rparen line =
     (if CHR '')'' \<in> set line then Some (rev (takeWhile (\<lambda>c. c \<noteq> CHR '')'') (rev line))) else None)"

fun read_longs :: "nat \<Rightarrow> string \<Rightarrow> (int list \<times> string) option" where
  "read_longs 0 s = Some ([], s)"
| "read_longs (Suc n) s =
     (case read_long s of
        None \<Rightarrow> None
      | Some (i, rest) \<Rightarrow>
          (case read_longs n rest of None \<Rightarrow> None | Some (xs, r) \<Rightarrow> Some (i # xs, r)))"

fun read_ulongs :: "nat \<Rightarrow> string \<Rightarrow> (u64 list \<times> string) option" where
  "read_ulongs 0 s = Some ([], s)"
| "read_ulongs (Suc n) s =
     (case read_ulong s of
        None \<Rightarrow> None
      | Some (i, rest) \<Rightarrow>
          (case read_ulongs n rest of None \<Rightarrow> None | Some (xs, r) \<Rightarrow> Some (i # xs, r)))"

text \<open>State, five signed fields, five unsigned fields, then user and system time.\<close>

definition parse_stat :: "string \<Rightarrow> (u64 \<times> u64) option" where
  "parse_stat line =
     (case after_rparen line of
        None \<Rightarrow> None
      | Some rest \<Rightarrow>
          if length rest \<le> 1 then None
          else case read_word (drop 1 rest) of
            None \<Rightarrow> None
          | Some (state, r1) \<Rightarrow>
              (case read_longs 5 r1 of
                 None \<Rightarrow> None
               | Some (signed_fields, r2) \<Rightarrow>
                   (case read_ulongs 7 r2 of
                      None \<Rightarrow> None
                    | Some (unsigned_fields, r3) \<Rightarrow> Some (unsigned_fields ! 5, unsigned_fields ! 6))))"

definition task_cpu_time :: "int \<Rightarrow> u64 \<Rightarrow> u64 \<Rightarrow> u64" where
  "task_cpu_time clk_tck utime stime = ((utime + stime) * 1000000000) div word_of_int clk_tck"

definition clock_ticks :: "int \<Rightarrow> int" where
  "clock_ticks sysconf_value = (if sysconf_value \<le> 0 then 100 else sysconf_value)"

definition check_task :: "int \<Rightarrow> task_entry \<Rightarrow> thread_map \<Rightarrow> u64 list \<times> thread_map" where
  "check_task clk_tck entry states =
     (if d_name entry \<noteq> [] \<and> hd (d_name entry) = CHR ''.'' then ([], states)
      else case read_ulong (d_name entry) of
        None \<Rightarrow> ([], states)
      | Some (thread_id, trailing) \<Rightarrow>
          (case Option.bind (stat_content entry) get_line of
             None \<Rightarrow> ([], states)
           | Some line \<Rightarrow>
               (case parse_stat line of
                  None \<Rightarrow> ([], states)
                | Some (utime, stime) \<Rightarrow>
                    (let (high, states') =
                       observe thread_id (task_cpu_time clk_tck utime stime) (task_now entry) states
                     in (if high then [thread_id] else [], states')))))"

text \<open>A scan yields the threads for which \<open>CaptureBacktraceForThread\<close> is called, in order.\<close>

fun scan_threads :: "('e \<Rightarrow> thread_map \<Rightarrow> u64 list \<times> thread_map) \<Rightarrow> 'e list \<Rightarrow> thread_map \<Rightarrow> u64 list \<times> thread_map" where
  "scan_threads check [] states = ([], states)"
| "scan_threads check (e # es) states =
     (let (hot, states1) = check e states; (hots, states2) = scan_threads check es states1
      in (hot @ hots, states2))"

definition CheckThreads_Linux :: "int \<Rightarrow> task_entry list option \<Rightarrow> thread_map \<Rightarrow> u64 list \<times> thread_map" where
  "CheckThreads_Linux sysconf_value dir states =
     (case dir of
        None \<Rightarrow> ([], states)
      | Some entries \<Rightarrow> scan_threads (check_task (clock_ticks sysconf_value)) entries states)"

section \<open>macOS: task_threads\<close>

record mach_entry =
  mach_thread :: u32
  mach_times :: "(u32 \<times> u32 \<times> u32 \<times> u32) option"
    \<comment> \<open>user seconds and microseconds, system seconds and microseconds; \<open>None\<close> if \<open>thread_info\<close> fails\<close>
  mach_now :: u64

definition mach_cpu_time :: "u32 \<Rightarrow> u32 \<Rightarrow> u32 \<Rightarrow> u32 \<Rightarrow> u64" where
  "mach_cpu_time us uu ss su =
     (scast us * 1000000000 + scast uu * 1000) + (scast ss * 1000000000 + scast su * 1000)"

definition check_mach :: "mach_entry \<Rightarrow> thread_map \<Rightarrow> u64 list \<times> thread_map" where
  "check_mach entry states =
     (case mach_times entry of
        None \<Rightarrow> ([], states)
      | Some (us, uu, ss, su) \<Rightarrow>
          (let thread_id = ucast (mach_thread entry);
               (high, states') = observe thread_id (mach_cpu_time us uu ss su) (mach_now entry) states
           in (if high then [thread_id] else [], states')))"

definition CheckThreads_MacOS :: "mach_entry list option \<Rightarrow> thread_map \<Rightarrow> u64 list \<times> thread_map" where
  "CheckThreads_MacOS threads states =
     (case threads of None \<Rightarrow> ([], states) | Some es \<Rightarrow> scan_threads check_mach es states)"

section \<open>Windows: the thread snapshot\<close>

record snapshot_entry =
  owner_pid :: u32
  win_thread :: u32
  win_times :: "(u32 \<times> u32 \<times> u32 \<times> u32) option"
    \<comment> \<open>kernel time high and low, user time high and low; \<open>None\<close> if the thread cannot be queried\<close>
  win_now :: u64

definition quad_part :: "u32 \<Rightarrow> u32 \<Rightarrow> u64" where
  "quad_part hi lo = push_bit 32 (ucast hi) OR ucast lo"

definition check_snapshot :: "u32 \<Rightarrow> snapshot_entry \<Rightarrow> thread_map \<Rightarrow> u64 list \<times> thread_map" where
  "check_snapshot pid entry states =
     (if owner_pid entry \<noteq> pid then ([], states)
      else case win_times entry of
        None \<Rightarrow> ([], states)
      | Some (kh, kl, uh, ul) \<Rightarrow>
          (let cpu_time = (quad_part kh kl + quad_part uh ul) * 100;
               thread_id = ucast (win_thread entry);
               (high, states') = observe thread_id cpu_time (win_now entry) states
           in (if high then [thread_id] else [], states')))"

definition CheckThreads_Windows :: "u32 \<Rightarrow> snapshot_entry list option \<Rightarrow> thread_map \<Rightarrow> u64 list \<times> thread_map" where
  "CheckThreads_Windows pid snapshot states =
     (case snapshot of None \<Rightarrow> ([], states) | Some es \<Rightarrow> scan_threads (check_snapshot pid) es states)"

section \<open>The report\<close>

definition high_cpu_report :: "frame list \<Rightarrow> u64 \<Rightarrow> json" where
  "high_cpu_report trace thread_id =
     JObj [(''type'', JStr ''high_cpu_thread''), (''thread_id'', JUInt thread_id),
           (''backtrace'', JArr (map frame_json trace))]"

text \<open>\<open>trace\<close> is the stack of the calling thread, the monitor itself.\<close>

definition CaptureBacktraceForThread ::
  "frame list \<Rightarrow> (json \<Rightarrow> 'f \<Rightarrow> (unit, 'f) outcome) option \<Rightarrow> u64 \<Rightarrow> 'f \<Rightarrow> (unit, 'f) outcome" where
  "CaptureBacktraceForThread trace reporter thread_id f =
     (case reporter of None \<Rightarrow> Ret () f | Some emit \<Rightarrow> emit (high_cpu_report trace thread_id) f)"

section \<open>The monitoring thread\<close>

text \<open>
  \<open>Start\<close> and \<open>Stop\<close> are called by one thread, \<open>MonitorLoop\<close> runs in another. \<open>L_None\<close> is a
  \<open>std::thread\<close> that is not joinable; assigning to a joinable one terminates the process.
  \<open>check\<close> is one \<open>CheckThreadsForHighCpu\<close>, an arbitrary update of the table.
\<close>

datatype loop_pc = L_None | L_Test | L_Sleep | L_Check | L_Done

record cpu_monitor =
  running :: bool
  loop :: loop_pc
  joining :: bool \<comment> \<open>the client is inside \<open>Stop\<close>, waiting in \<open>join\<close>\<close>
  thread_states :: thread_map
  terminated :: bool

definition cpu_start :: cpu_monitor where
  "cpu_start = \<lparr>running = False, loop = L_None, joining = False, thread_states = Map.empty, terminated = False\<rparr>"

text \<open>\<open>Start\<close>, and \<open>Stop\<close> up to the join. Both return at once if there is nothing to do.\<close>

definition cpu_Start :: "cpu_monitor \<Rightarrow> cpu_monitor" where
  "cpu_Start s =
     (if running s then s
      else if loop s \<noteq> L_None then s\<lparr>running := True, terminated := True\<rparr>
      else s\<lparr>running := True, loop := L_Test\<rparr>)"

definition cpu_Stop_begin :: "cpu_monitor \<Rightarrow> cpu_monitor" where
  "cpu_Stop_begin s =
     (if \<not> running s then s
      else let s1 = s\<lparr>running := False\<rparr>
           in if loop s1 \<noteq> L_None then s1\<lparr>joining := True\<rparr> else s1\<lparr>thread_states := Map.empty\<rparr>)"

text \<open>The join returns once the loop has ended; then the table is cleared.\<close>

definition cpu_Stop_end :: "cpu_monitor \<Rightarrow> cpu_monitor" where
  "cpu_Stop_end s = s\<lparr>loop := L_None, joining := False, thread_states := Map.empty\<rparr>"

datatype cpu_actor = Client | Monitor_Thread

inductive cpu_step :: "(thread_map \<Rightarrow> thread_map) \<Rightarrow> cpu_actor \<Rightarrow> cpu_monitor \<Rightarrow> cpu_monitor \<Rightarrow> bool"
  for check :: "thread_map \<Rightarrow> thread_map" where
  Start: "\<not> joining s \<Longrightarrow> cpu_step check Client s (cpu_Start s)"
| Stop: "\<not> joining s \<Longrightarrow> cpu_step check Client s (cpu_Stop_begin s)"
| Join: "\<lbrakk>joining s; loop s = L_Done\<rbrakk> \<Longrightarrow> cpu_step check Client s (cpu_Stop_end s)"
| Test: "loop s = L_Test \<Longrightarrow>
    cpu_step check Monitor_Thread s (s\<lparr>loop := (if running s then L_Sleep else L_Done)\<rparr>)"
| Sleep: "loop s = L_Sleep \<Longrightarrow> cpu_step check Monitor_Thread s (s\<lparr>loop := L_Check\<rparr>)"
| Check: "loop s = L_Check \<Longrightarrow>
    cpu_step check Monitor_Thread s (s\<lparr>loop := L_Test, thread_states := check (thread_states s)\<rparr>)"

inductive_cases cpu_stepE: "cpu_step check a s t"
inductive_simps monitor_step_simps: "cpu_step check Monitor_Thread s t"

inductive cpu_reach :: "(thread_map \<Rightarrow> thread_map) \<Rightarrow> cpu_monitor \<Rightarrow> bool" for check where
  start: "cpu_reach check cpu_start"
| step: "\<lbrakk>cpu_reach check s; cpu_step check a s t\<rbrakk> \<Longrightarrow> cpu_reach check t"

definition cpu_inv :: "cpu_monitor \<Rightarrow> bool" where
  "cpu_inv s \<longleftrightarrow>
     \<not> terminated s \<and>
     (running s \<longrightarrow> \<not> joining s \<and> loop s \<in> {L_Test, L_Sleep, L_Check}) \<and>
     (joining s \<longrightarrow> loop s \<noteq> L_None) \<and>
     (\<not> running s \<and> \<not> joining s \<longrightarrow> loop s = L_None \<and> thread_states s = Map.empty)"

lemma cpu_inv_step: "cpu_step check a s t \<Longrightarrow> cpu_inv s \<Longrightarrow> cpu_inv t"
  by (erule cpu_stepE)
    (auto simp: cpu_inv_def cpu_Start_def cpu_Stop_begin_def cpu_Stop_end_def Let_def)

lemma cpu_reach_inv: "cpu_reach check s \<Longrightarrow> cpu_inv s"
proof (induction rule: cpu_reach.induct)
  case start
  show ?case by (simp add: cpu_inv_def cpu_start_def)
qed (rule cpu_inv_step)

text \<open>Steps of the monitor thread until it ends, once \<open>running\<close> is false.\<close>

fun loop_rank :: "loop_pc \<Rightarrow> nat" where
  "loop_rank L_Sleep = 3"
| "loop_rank L_Check = 2"
| "loop_rank L_Test = 1"
| "loop_rank _ = 0"

section \<open>A scan as a whole\<close>

text \<open>
  The three platforms differ in how an entry is read and agree in what is done with the reading
  (thread, CPU time, clock). The locale says what a scan does when no thread occurs twice.
\<close>

definition is_hot :: "thread_map \<Rightarrow> u64 \<times> u64 \<times> u64 \<Rightarrow> bool" where
  "is_hot states r = (case r of (thread_id, cpu_time, now) \<Rightarrow> fst (observe thread_id cpu_time now states))"

definition remember :: "u64 \<times> u64 \<times> u64 \<Rightarrow> thread_map \<Rightarrow> thread_map" where
  "remember r states =
     (case r of (thread_id, cpu_time, now) \<Rightarrow>
        states(thread_id \<mapsto> \<lparr>last_cpu_time_ns = cpu_time, last_check_time_ns = now\<rparr>))"

lemma observe_split: "observe t c n states = (is_hot states (t, c, n), remember (t, c, n) states)"
  by (simp add: observe_def is_hot_def remember_def Let_def split: option.split)

lemma is_hot_remember: "fst r \<noteq> fst q \<Longrightarrow> is_hot (remember q states) r = is_hot states r"
  by (cases r; cases q) (simp add: is_hot_def remember_def observe_def Let_def split: option.split)

locale sampler =
  fixes check :: "'e \<Rightarrow> thread_map \<Rightarrow> u64 list \<times> thread_map"
    and reading :: "'e \<Rightarrow> (u64 \<times> u64 \<times> u64) option"
  assumes check_reading: "check e states =
    (case reading e of
       None \<Rightarrow> ([], states)
     | Some r \<Rightarrow> (if is_hot states r then [fst r] else [], remember r states))"
begin

lemma scan_spec:
  assumes "distinct (map fst (List.map_filter reading es))"
  shows "scan_threads check es states =
    (map fst (filter (is_hot states) (List.map_filter reading es)),
     fold remember (List.map_filter reading es) states)"
  using assms
proof (induction es arbitrary: states)
  case (Cons e es)
  show ?case
  proof (cases "reading e")
    case None
    with Cons show ?thesis by (simp add: check_reading map_filter_simps)
  next
    case (Some r)
    have "filter (is_hot (remember r states)) (List.map_filter reading es) =
        filter (is_hot states) (List.map_filter reading es)"
      using Cons.prems Some by (intro filter_cong) (auto simp: map_filter_simps image_iff intro!: is_hot_remember)
    with Cons Some show ?thesis by (simp add: check_reading map_filter_simps)
  qed
qed (simp add: map_filter_simps)

lemma first_scan_silent:
  "distinct (map fst (List.map_filter reading es)) \<Longrightarrow> fst (scan_threads check es Map.empty) = []"
  by (simp add: scan_spec filter_empty_conv is_hot_def observe_def split_beta)

end

definition read_task :: "int \<Rightarrow> task_entry \<Rightarrow> (u64 \<times> u64 \<times> u64) option" where
  "read_task clk entry =
     (if d_name entry \<noteq> [] \<and> hd (d_name entry) = CHR ''.'' then None
      else case read_ulong (d_name entry) of
        None \<Rightarrow> None
      | Some (thread_id, _) \<Rightarrow>
          map_option (\<lambda>(u, s). (thread_id, task_cpu_time clk u s, task_now entry))
            (Option.bind (Option.bind (stat_content entry) get_line) parse_stat))"

definition read_mach :: "mach_entry \<Rightarrow> (u64 \<times> u64 \<times> u64) option" where
  "read_mach entry =
     map_option (\<lambda>(us, uu, ss, su). (ucast (mach_thread entry), mach_cpu_time us uu ss su, mach_now entry))
       (mach_times entry)"

definition read_snapshot :: "u32 \<Rightarrow> snapshot_entry \<Rightarrow> (u64 \<times> u64 \<times> u64) option" where
  "read_snapshot pid entry =
     (if owner_pid entry \<noteq> pid then None
      else map_option (\<lambda>(kh, kl, uh, ul).
          (ucast (win_thread entry), (quad_part kh kl + quad_part uh ul) * 100, win_now entry))
        (win_times entry))"

lemma check_task_reading:
  "check_task clk e states =
     (case read_task clk e of
        None \<Rightarrow> ([], states)
      | Some r \<Rightarrow> (if is_hot states r then [fst r] else [], remember r states))"
proof (cases "read_ulong (d_name e)")
  case (Some tr)
  then show ?thesis
  proof (cases "Option.bind (stat_content e) get_line")
    case l: (Some line)
    with Some show ?thesis
      by (cases tr; cases "parse_stat line")
        (auto simp: check_task_def read_task_def observe_split simp del: bind_eq_Some_conv)
  qed (cases tr; auto simp: check_task_def read_task_def)
qed (auto simp: check_task_def read_task_def)

interpretation linux_tasks: sampler "check_task clk" "read_task clk" for clk
  by unfold_locales (rule check_task_reading)

interpretation mach_threads: sampler check_mach read_mach
  by unfold_locales
    (auto simp: check_mach_def read_mach_def observe_split Let_def split: option.split)

interpretation win_threads: sampler "check_snapshot pid" "read_snapshot pid" for pid
  by unfold_locales
    (auto simp: check_snapshot_def read_snapshot_def observe_split Let_def split: option.split)

section \<open>The threshold\<close>

lemma double_bounds:
  assumes "0 < unat w"
  shows "1 \<le> u64_to_double w" "u64_to_double w \<le> 2 ^ 64"
proof -
  have le: "(of_nat (unat w) :: rat) \<le> of_nat (2 ^ 64)"
    using unat_u64_less [of w] by (simp only: of_nat_le_iff order_less_imp_le)
  then have up: "(of_nat (unat w) :: rat) \<le> 2 powi 64" by simp
  have low: "(2 :: rat) powi 0 \<le> of_nat (unat w)"
  proof -
    have "(of_nat 1 :: rat) \<le> of_nat (unat w)" using assms by (simp only: of_nat_le_iff)
    then show ?thesis by simp
  qed
  have "(2 :: rat) powi (- 65) \<le> 2 powi 0" by (rule power_int_increasing) simp_all
  moreover have "(2 :: rat) powi 64 < 2 powi 65" by simp
  ultimately have r: "in_range (of_nat (unat w))"
    using low up unfolding in_range_def by (metis order_trans order_le_less_trans)
  show "1 \<le> u64_to_double w" using fl_ge_power [OF r low] by (simp add: u64_to_double_def)
  show "u64_to_double w \<le> 2 ^ 64" using fl_le_power [OF r up] by (simp add: u64_to_double_def)
qed

lemma usage_threshold:
  assumes "0 < unat c" "0 < unat t"
  shows "cpu_usage c t > lit_0_90 \<longleftrightarrow> 16212958658533787 * u64_to_double t \<le> 2 ^ 54 * u64_to_double c"
proof -
  note C = double_bounds [OF assms(1)] and T = double_bounds [OF assms(2)]
  let ?x = "u64_to_double c / u64_to_double t"
  have pos: "0 < u64_to_double t" using T by simp
  have "1 / 2 ^ 64 \<le> ?x" using C T by (intro frac_le) auto
  moreover have "?x \<le> 2 ^ 64 / 1" using C T by (intro frac_le) auto
  moreover have "(2 :: rat) powi (- 65) \<le> 1 / 2 ^ 64" "(2 :: rat) ^ 64 / 1 < 2 powi 65"
    by (simp_all add: power_int_minus field_simps)
  ultimately have "in_range ?x"
    unfolding in_range_def by (metis order_trans order_le_less_trans)
  from fl_gt_lit [OF this] show ?thesis
    using pos by (simp add: cpu_usage_def double_div_def field_simps)
qed

lemma threshold_exact:
  fixes c t :: nat
  assumes "t < 2 ^ 50" "0 < t"
  shows "16212958658533787 * t \<le> 2 ^ 54 * c \<longleftrightarrow> 9 * t < 10 * c"
  using assms by simp linarith

lemma ninety_percent_exact_lemma:
  assumes "0 < unat time_delta" and "unat time_delta < 2 ^ 50" and "unat cpu_delta < 2 ^ 53"
  shows "cpu_usage cpu_delta time_delta > lit_0_90 \<longleftrightarrow> 9 * unat time_delta < 10 * unat cpu_delta"
proof (cases "unat cpu_delta = 0")
  case True
  then show ?thesis by (simp add: cpu_usage_def double_div_def u64_to_double_def fl_def lit_0_90_value)
next
  case False
  have d: "u64_to_double cpu_delta = of_nat (unat cpu_delta)" "u64_to_double time_delta = of_nat (unat time_delta)"
    using u64_to_double_exact [OF assms(3)] u64_to_double_exact [OF order_less_trans [OF assms(2)]] by simp_all
  have "cpu_usage cpu_delta time_delta > lit_0_90 \<longleftrightarrow>
      (of_nat (16212958658533787 * unat time_delta) :: rat) \<le> of_nat (2 ^ 54 * unat cpu_delta)"
    using usage_threshold [of cpu_delta time_delta] False assms(1) by (simp only: d of_nat_mult) simp
  also have "\<dots> \<longleftrightarrow> 16212958658533787 * unat time_delta \<le> 2 ^ 54 * unat cpu_delta"
    by (simp only: of_nat_le_iff)
  finally show ?thesis using threshold_exact [OF assms(2,1)] by simp
qed

section \<open>Reading a stat line back\<close>

text \<open>The line the kernel prints: the pid, the command in parentheses, the state, then the numeric
  fields, each after one space.\<close>

definition field_texts :: "string list \<Rightarrow> string" where
  "field_texts xs = concat (map (\<lambda>x. CHR '' '' # x) xs)"

lemma field_texts_simps [simp]:
  "field_texts [] = []" "field_texts (x # xs) = CHR '' '' # x @ field_texts xs"
  by (simp_all add: field_texts_def)

definition format_stat :: "nat \<Rightarrow> string \<Rightarrow> string \<Rightarrow> int list \<Rightarrow> nat list \<Rightarrow> string list \<Rightarrow> string" where
  "format_stat pid comm state longs ulongs extra =
     dec_string pid @ '' ('' @ comm @ '')'' @ CHR '' '' # state @
     field_texts (map to_string_int longs) @ field_texts (map dec_string ulongs) @ field_texts extra"

lemma after_rparen_last: "CHR '')'' \<notin> set t \<Longrightarrow> after_rparen (s @ CHR '')'' # t) = Some t"
proof -
  assume t: "CHR '')'' \<notin> set t"
  have "takeWhile (\<lambda>c. c \<noteq> CHR '')'') (rev t @ CHR '')'' # rev s) = rev t"
    using t by (intro takeWhile_run) auto
  then show ?thesis by (simp add: after_rparen_def)
qed

lemma read_long_field:
  assumes "- (2 ^ 63) \<le> i" "i < 2 ^ 63" "rest = [] \<or> \<not> is_digit (hd rest)"
  shows "read_long (CHR '' '' # to_string_int i @ rest) = Some (i, rest)"
  using assms by (cases "i < 0") (auto simp: read_long_def to_string_int_def read_signed_dec)

lemma read_ulong_field:
  assumes "n < 2 ^ 64" "rest = [] \<or> \<not> is_digit (hd rest)"
  shows "read_ulong (CHR '' '' # dec_string n @ rest) = Some (of_nat n, rest)"
  using assms by (simp add: read_ulong_def read_signed_dec)

lemma field_texts_head: "field_texts xs @ rest = [] \<or> \<not> is_digit (hd (field_texts xs @ rest))"
  if "rest = [] \<or> \<not> is_digit (hd rest)"
  using that by (cases xs) (auto simp: is_digit_def)

lemma read_longs_fields:
  assumes "\<forall>i \<in> set xs. - (2 ^ 63) \<le> i \<and> i < 2 ^ 63" "rest = [] \<or> \<not> is_digit (hd rest)"
  shows "read_longs (length xs) (field_texts (map to_string_int xs) @ rest) = Some (xs, rest)"
  using assms
proof (induction xs)
  case (Cons i xs)
  have "read_long (field_texts (map to_string_int (i # xs)) @ rest) =
      Some (i, field_texts (map to_string_int xs) @ rest)"
    using Cons.prems read_long_field [of i, OF _ _ field_texts_head [OF Cons.prems(2), of "map to_string_int xs"]]
    by simp
  with Cons show ?case by simp
qed simp

lemma read_ulongs_fields:
  assumes "\<forall>n \<in> set ns. n < 2 ^ 64" "rest = [] \<or> \<not> is_digit (hd rest)"
  shows "read_ulongs (length ns) (field_texts (map dec_string ns) @ rest) = Some (map of_nat ns, rest)"
  using assms
proof (induction ns)
  case (Cons n ns)
  have "read_ulong (field_texts (map dec_string (n # ns)) @ rest) =
      Some (of_nat n, field_texts (map dec_string ns) @ rest)"
    using Cons.prems read_ulong_field [of n, OF _ field_texts_head [OF Cons.prems(2), of "map dec_string ns"]]
    by simp
  with Cons show ?case by simp
qed simp

lemma no_rparen_numbers: "CHR '')'' \<notin> set (dec_string n)" "CHR '')'' \<notin> set (to_string_int i)"
proof -
  show dec: "CHR '')'' \<notin> set (dec_string n)" for n
    using dec_string_digits(1) [of n] by (auto simp: is_digit_def)
  show "CHR '')'' \<notin> set (to_string_int i)" using dec by (simp add: to_string_int_def)
qed

lemma parse_stat_format:
  assumes "state \<noteq> []" "\<forall>c \<in> set state. \<not> is_space c \<and> c \<noteq> CHR '')''"
    and "length longs = 5" "\<forall>i \<in> set longs. - (2 ^ 63) \<le> i \<and> i < 2 ^ 63"
    and "length ulongs = 7" "\<forall>n \<in> set ulongs. n < 2 ^ 64"
    and "\<forall>x \<in> set extra. CHR '')'' \<notin> set x"
  shows "parse_stat (format_stat pid comm state longs ulongs extra) =
    Some (of_nat (ulongs ! 5), of_nat (ulongs ! 6))"
proof -
  let ?extra = "field_texts extra"
  let ?u = "field_texts (map dec_string ulongs) @ ?extra"
  let ?l = "field_texts (map to_string_int longs) @ ?u"
  have "CHR '')'' \<notin> set ?l"
    using assms(7) no_rparen_numbers by (auto simp: field_texts_def)
  then have tail: "after_rparen (format_stat pid comm state longs ulongs extra) = Some (CHR '' '' # state @ ?l)"
    using after_rparen_last [of "CHR '' '' # state @ ?l" "dec_string pid @ '' ('' @ comm"] assms(2)
    by (auto simp: format_stat_def)
  have m: "?extra = [] \<or> \<not> is_digit (hd ?extra)" using field_texts_head [of "[]" extra] by simp
  have hd: "?l = [] \<or> is_space (hd ?l)" using assms(3) by (cases longs) (auto simp: is_space_def)
  have "skip_ws (state @ ?l) = state @ ?l"
    using assms(1,2) by (cases state) (simp_all add: skip_ws_def)
  moreover have "takeWhile (\<lambda>c. \<not> is_space c) (state @ ?l) = state" "dropWhile (\<lambda>c. \<not> is_space c) (state @ ?l) = ?l"
    using takeWhile_run [of state "\<lambda>c. \<not> is_space c" ?l] dropWhile_run [of state "\<lambda>c. \<not> is_space c" ?l] assms(2) hd
    by simp_all
  ultimately have word: "read_word (state @ ?l) = Some (state, ?l)"
    using assms(1) by (simp add: read_word_def)
  have "read_longs 5 ?l = Some (longs, ?u)"
    using read_longs_fields [OF assms(4) field_texts_head [OF m]] assms(3) by simp
  moreover have "read_ulongs 7 ?u = Some (map of_nat ulongs, ?extra)"
    using read_ulongs_fields [OF assms(6) m] assms(5) by simp
  ultimately show ?thesis
    using tail word assms(1,5) by (cases state) (simp_all add: parse_stat_def)
qed

section \<open>Properties\<close>

text \<open>C21: The parser recovers user and system time from every line the kernel prints, whatever the
  command name contains: spaces, parentheses, digits.\<close>

theorem stat_roundtrip:
  assumes "state \<noteq> []" and "\<forall>c \<in> set state. \<not> is_space c \<and> c \<noteq> CHR '')''"
    and "length longs = 5" and "\<forall>i \<in> set longs. - (2 ^ 63) \<le> i \<and> i < 2 ^ 63"
    and "length ulongs = 7" and "\<forall>n \<in> set ulongs. n < 2 ^ 64" and "\<forall>x \<in> set extra. CHR '')'' \<notin> set x"
  shows "\<exists>u s. parse_stat (format_stat pid comm state longs ulongs extra) = Some (u, s) \<and>
           unat u = ulongs ! 5 \<and> unat s = ulongs ! 6"
proof -
  have "ulongs ! 5 \<in> set ulongs" "ulongs ! 6 \<in> set ulongs" using assms(5) by simp_all
  then have "ulongs ! 5 < 2 ^ 64" "ulongs ! 6 < 2 ^ 64" using assms(6) by auto
  with parse_stat_format [OF assms, of pid comm] show ?thesis by (simp add: unat_of_nat)
qed

lemma stat_roundtrip_witness:
  "\<exists>u s. parse_stat (format_stat 17 ''a) S (b'' ''R'' [1, 2, 3, 0, - 1] [0, 10, 0, 0, 0, 250, 17] [''0'', ''20'']) =
     Some (u, s) \<and> unat u = 250 \<and> unat s = 17"
  using stat_roundtrip [of "''R''" "[1, 2, 3, 0, - 1]" "[0, 10, 0, 0, 0, 250, 17]" "[''0'', ''20'']" 17 "''a) S (b''"]
  by (simp add: is_space_def)

text \<open>C30: Rounding in the double comparison never changes the verdict: for intervals below \<open>2^50\<close>
  nanoseconds (13 days) a thread counts as busy exactly if it used more than 90 percent.\<close>

theorem ninety_percent_exact:
  assumes "0 < unat time_delta" and "unat time_delta < 2 ^ 50" and "unat cpu_delta < 2 ^ 53"
  shows "cpu_usage cpu_delta time_delta > lit_0_90 \<longleftrightarrow> 9 * unat time_delta < 10 * unat cpu_delta"
  using ninety_percent_exact_lemma [OF assms] .

lemma ninety_percent_exact_witness:
  "cpu_usage 450000001 500000000 > lit_0_90 \<and> \<not> cpu_usage 450000000 500000000 > lit_0_90"
  using ninety_percent_exact [of 500000000 450000001] ninety_percent_exact [of 500000000 450000000] by simp

text \<open>A thread's directory is read as its number, processor time and time of reading; two readings are
  compared exactly.\<close>

lemma read_task_formatted:
  assumes "tid < 2 ^ 64" and "state \<noteq> []" and "\<forall>c \<in> set state. \<not> is_space c \<and> c \<noteq> CHR '')''"
    and "length longs = 5" and "\<forall>i \<in> set longs. - (2 ^ 63) \<le> i \<and> i < 2 ^ 63"
    and "length ulongs = 7" and "\<forall>n \<in> set ulongs. n < 2 ^ 64" and "\<forall>x \<in> set extra. CHR '')'' \<notin> set x"
    and "\<forall>c \<in> set (format_stat pid comm state longs ulongs extra). c \<noteq> CHR 0x0A"
  shows "read_task clk \<lparr>d_name = dec_string tid, task_entry.stat_content =
             Some (format_stat pid comm state longs ulongs extra @ [CHR 0x0A]), task_now = t\<rparr> =
         Some (of_nat tid, task_cpu_time clk (of_nat (ulongs ! 5)) (of_nat (ulongs ! 6)), t)"
proof -
  let ?line = "format_stat pid comm state longs ulongs extra"
  have "takeWhile (\<lambda>c. c \<noteq> CHR 0x0A) (?line @ [CHR 0x0A]) = ?line"
    using takeWhile_run [of ?line "\<lambda>c. c \<noteq> CHR 0x0A" "[CHR 0x0A]"] assms(9) by simp
  then have line: "get_line (?line @ [CHR 0x0A]) = Some ?line" by (simp add: get_line_def)
  have parse: "parse_stat ?line = Some (of_nat (ulongs ! 5), of_nat (ulongs ! 6))"
    by (rule parse_stat_format [OF assms(2-8)])
  have name: "read_ulong (dec_string tid) = Some (of_nat tid, [])"
    using assms(1) read_signed_dec(1) [of "[]" tid] by (simp add: read_ulong_def)
  obtain d ds where ds: "dec_string tid = d # ds" using dec_string_digits(3) [of tid] by (cases "dec_string tid") auto
  then have "d \<noteq> CHR ''.''" using dec_string_digits(1) [of tid] by (auto simp: is_digit_def)
  then show ?thesis using line parse name ds by (simp add: read_task_def)
qed

lemma is_hot_exact:
  assumes "states tid = Some \<lparr>last_cpu_time_ns = c0, last_check_time_ns = t0\<rparr>"
    and "unat c0 \<le> unat c" and "unat c - unat c0 < 2 ^ 53" and "unat t0 < unat t" and "unat t - unat t0 < 2 ^ 50"
  shows "is_hot states (tid, c, t) \<longleftrightarrow> 9 * (unat t - unat t0) < 10 * (unat c - unat c0)"
proof -
  have deltas: "unat (c - c0) = unat c - unat c0" "unat (t - t0) = unat t - unat t0"
    using assms(2,4) by (simp_all add: unat_sub_nowrap)
  then have "t - t0 > 0" using assms(4) by (simp add: word_less_nat_alt)
  then show ?thesis
    using ninety_percent_exact_lemma [of "t - t0" "c - c0"] deltas assms(1,3-5)
    by (simp add: is_hot_def observe_def Let_def)
qed

text \<open>A thread that used 670 ms of processor time in the 700 ms since its last reading.\<close>

definition demo_task :: task_entry where
  "demo_task = \<lparr>d_name = dec_string 17, task_entry.stat_content =
      Some (format_stat 17 ''a) S (b'' ''R'' [1, 2, 3, 0, - 1] [0, 10, 0, 0, 0, 250, 17] [''0''] @ [CHR 0x0A]),
      task_now = 800000000\<rparr>"

lemma demo_stat_line:
  "\<forall>c \<in> set (format_stat 17 ''a) S (b'' ''R'' [1, 2, 3, 0, - 1] [0, 10, 0, 0, 0, 250, 17] [''0'']). c \<noteq> CHR 0x0A"
proof -
  have "\<forall>c \<in> set (dec_string n). c \<noteq> CHR 0x0A" for n
    using dec_string_digits(1) [of n] by (auto simp: is_digit_def)
  then show ?thesis by (auto simp: format_stat_def to_string_int_def)
qed

lemma demo_task_reading: "read_task 100 demo_task = Some (17, 2670000000, 800000000)"
proof -
  have "read_task 100 demo_task = Some (of_nat 17, task_cpu_time 100 (of_nat ([0, 10, 0, 0, 0, 250, 17] ! 5))
      (of_nat ([0, 10, 0, 0, 0, 250, 17] ! 6)), 800000000)"
    unfolding demo_task_def by (rule read_task_formatted [OF _ _ _ _ _ _ _ _ demo_stat_line]) (simp_all add: is_space_def)
  then show ?thesis by (simp add: task_cpu_time_def)
qed

lemma demo_task_hot:
  "is_hot [17 \<mapsto> \<lparr>last_cpu_time_ns = 2000000000, last_check_time_ns = 100000000\<rparr>] (17, 2670000000, 800000000)"
proof -
  have "unat (2000000000 :: u64) = 2000000000" "unat (100000000 :: u64) = 100000000"
    "unat (2670000000 :: u64) = 2670000000" "unat (800000000 :: u64) = 800000000" by simp_all
  then show ?thesis
    using is_hot_exact [of "[17 \<mapsto> \<lparr>last_cpu_time_ns = 2000000000, last_check_time_ns = 100000000\<rparr>]"
        17 2000000000 100000000 2670000000 800000000] by simp
qed

text \<open>C19: End to end on Linux: for a thread seen before, with readings that moved forward less than 13
  days, a scan of its /proc entry reports it exactly if it used more than 90 percent of the time
  since the last reading, and remembers the new reading.\<close>

theorem busy_thread_detected:
  assumes "tid < 2 ^ 64" and "state \<noteq> []" and "\<forall>c \<in> set state. \<not> is_space c \<and> c \<noteq> CHR '')''"
    and "length longs = 5" and "\<forall>i \<in> set longs. - (2 ^ 63) \<le> i \<and> i < 2 ^ 63"
    and "length ulongs = 7" and "\<forall>n \<in> set ulongs. n < 2 ^ 64" and "\<forall>x \<in> set extra. CHR '')'' \<notin> set x"
    and "\<forall>c \<in> set (format_stat pid comm state longs ulongs extra). c \<noteq> CHR 0x0A"
    and "states (of_nat tid) = Some \<lparr>last_cpu_time_ns = c0, last_check_time_ns = t0\<rparr>"
    and "c = task_cpu_time clk (of_nat (ulongs ! 5)) (of_nat (ulongs ! 6))"
    and "unat c0 \<le> unat c" and "unat c - unat c0 < 2 ^ 53" and "unat t0 < unat t" and "unat t - unat t0 < 2 ^ 50"
  shows "check_task clk \<lparr>d_name = dec_string tid, task_entry.stat_content =
             Some (format_stat pid comm state longs ulongs extra @ [CHR 0x0A]), task_now = t\<rparr> states =
         (if 9 * (unat t - unat t0) < 10 * (unat c - unat c0) then [of_nat tid] else [],
          states(of_nat tid \<mapsto> \<lparr>last_cpu_time_ns = c, last_check_time_ns = t\<rparr>))"
proof -
  let ?e = "\<lparr>d_name = dec_string tid, task_entry.stat_content =
      Some (format_stat pid comm state longs ulongs extra @ [CHR 0x0A]), task_now = t\<rparr>"
  have "read_task clk ?e = Some (of_nat tid, c, t)" using read_task_formatted [OF assms(1-9)] assms(11) by simp
  moreover have "is_hot states (of_nat tid, c, t) \<longleftrightarrow> 9 * (unat t - unat t0) < 10 * (unat c - unat c0)"
    using is_hot_exact [of states "of_nat tid" c0 t0 c t] assms(10,12-15) by blast
  ultimately show ?thesis by (simp add: check_task_reading remember_def)
qed

lemma busy_thread_detected_witness:
  "fst (check_task 100 \<lparr>d_name = dec_string 17, task_entry.stat_content =
      Some (format_stat 17 ''a) S (b'' ''R'' [1, 2, 3, 0, - 1] [0, 10, 0, 0, 0, 250, 17] [''0''] @ [CHR 0x0A]),
      task_now = 800000000\<rparr>
    [17 \<mapsto> \<lparr>last_cpu_time_ns = 2000000000, last_check_time_ns = 100000000\<rparr>]) = [17]"
proof -
  have "check_task 100 \<lparr>d_name = dec_string 17, task_entry.stat_content =
      Some (format_stat 17 ''a) S (b'' ''R'' [1, 2, 3, 0, - 1] [0, 10, 0, 0, 0, 250, 17] [''0''] @ [CHR 0x0A]),
      task_now = 800000000\<rparr>
    [17 \<mapsto> \<lparr>last_cpu_time_ns = 2000000000, last_check_time_ns = 100000000\<rparr>] =
    (if 9 * (unat (800000000 :: u64) - unat (100000000 :: u64)) < 10 * (unat (2670000000 :: u64) - unat (2000000000 :: u64))
     then [of_nat 17] else [],
     [17 \<mapsto> \<lparr>last_cpu_time_ns = 2000000000, last_check_time_ns = 100000000\<rparr>,
      of_nat 17 \<mapsto> \<lparr>last_cpu_time_ns = 2670000000, last_check_time_ns = 800000000\<rparr>])"
    by (rule busy_thread_detected [OF _ _ _ _ _ _ _ _ demo_stat_line]) (simp_all add: is_space_def task_cpu_time_def)
  then show ?thesis by simp
qed

text \<open>C31: On each of the three platforms a scan in which no thread occurs twice reports exactly the
  threads that are busy against the readings of the previous scan, in order, and remembers
  all readings; the first scan reports nobody; and if the thread list cannot be read nothing changes.\<close>

theorem scans_report_busy_threads:
  assumes "linux = List.map_filter (read_task (clock_ticks hz)) tasks" and "distinct (map fst linux)"
    and "mac = List.map_filter read_mach threads" and "distinct (map fst mac)"
    and "win = List.map_filter (read_snapshot pid) snapshot" and "distinct (map fst win)"
  shows "CheckThreads_Linux hz (Some tasks) states = (map fst (filter (is_hot states) linux), fold remember linux states) \<and>
         CheckThreads_MacOS (Some threads) states = (map fst (filter (is_hot states) mac), fold remember mac states) \<and>
         CheckThreads_Windows pid (Some snapshot) states = (map fst (filter (is_hot states) win), fold remember win states) \<and>
         fst (CheckThreads_Linux hz (Some tasks) Map.empty) = [] \<and>
         fst (CheckThreads_MacOS (Some threads) Map.empty) = [] \<and>
         fst (CheckThreads_Windows pid (Some snapshot) Map.empty) = [] \<and>
         CheckThreads_Linux hz None states = ([], states) \<and> CheckThreads_MacOS None states = ([], states) \<and>
         CheckThreads_Windows pid None states = ([], states)"
  using linux_tasks.scan_spec linux_tasks.first_scan_silent mach_threads.scan_spec mach_threads.first_scan_silent
    win_threads.scan_spec win_threads.first_scan_silent assms
  by (simp add: CheckThreads_Linux_def CheckThreads_MacOS_def CheckThreads_Windows_def)

lemma scans_report_busy_threads_witness:
  "fst (CheckThreads_Windows 1
     (Some [\<lparr>owner_pid = 1, win_thread = 7, win_times = Some (0, 6, 0, 4), win_now = 1000\<rparr>,
            \<lparr>owner_pid = 2, win_thread = 7, win_times = None, win_now = 1000\<rparr>,
            \<lparr>owner_pid = 1, win_thread = 8, win_times = Some (0, 9, 0, 0), win_now = 1000\<rparr>])
     ((\<lambda>_. None)(7 \<mapsto> \<lparr>last_cpu_time_ns = 0, last_check_time_ns = 0\<rparr>,
                 8 \<mapsto> \<lparr>last_cpu_time_ns = 0, last_check_time_ns = 0\<rparr>))) = [7]"
proof -
  let ?snap = "[\<lparr>owner_pid = 1, win_thread = 7, win_times = Some (0, 6, 0, 4), win_now = 1000\<rparr>,
            \<lparr>owner_pid = 2, win_thread = 7, win_times = None, win_now = 1000\<rparr>,
            \<lparr>owner_pid = 1, win_thread = 8, win_times = Some (0, 9, 0, 0), win_now = 1000\<rparr>]"
  have r: "[(7, 1000, 1000), (8, 900, 1000)] = List.map_filter (read_snapshot 1) ?snap"
    by (simp add: map_filter_simps read_snapshot_def quad_part_def)
  have u: "cpu_usage 1000 1000 > lit_0_90" "\<not> cpu_usage 900 1000 > lit_0_90"
    using ninety_percent_exact_lemma [of 1000 1000] ninety_percent_exact_lemma [of 1000 900] by simp_all
  have w: "CheckThreads_Windows 1 (Some ?snap) states =
      (map fst (filter (is_hot states) [(7, 1000, 1000), (8, 900, 1000)]),
       fold remember [(7, 1000, 1000), (8, 900, 1000)] states)" for states
    using scans_report_busy_threads [of "[]" 100 "[]" "[]" "[]", OF _ _ _ _ r]
    by (simp add: map_filter_simps)
  show ?thesis unfolding w using u by (simp add: is_hot_def observe_def Let_def)
qed

text \<open>The table keeps the readings of threads that have ended. If the kernel reuses a thread id, the new
  thread's smaller CPU time makes the difference wrap around, and an idle thread is reported.\<close>

theorem reused_thread_id_reported:
  assumes "states tid = Some it" and "unat cpu < unat (last_cpu_time_ns it)"
    and "unat (last_cpu_time_ns it) \<le> 2 ^ 63" and "unat (last_check_time_ns it) < unat now"
    and "unat now \<le> 2 ^ 63"
  shows "fst (observe tid cpu now states)"
proof -
  let ?c = "cpu - last_cpu_time_ns it" and ?t = "now - last_check_time_ns it"
  have c: "2 ^ 63 \<le> unat ?c" using assms(2,3) by (simp add: unat_sub_if')
  have t: "0 < unat ?t" "unat ?t \<le> 2 ^ 63" using assms(4,5) by (simp_all add: unat_sub_nowrap)
  have r: "in_range (of_nat (unat w))" if "0 < unat w" for w :: u64
  proof -
    have "(of_nat 1 :: rat) \<le> of_nat (unat w)" using that by (simp only: of_nat_le_iff)
    moreover have "(of_nat (unat w) :: rat) \<le> of_nat (2 ^ 64)"
      using unat_u64_less [of w] by (simp only: of_nat_le_iff order_less_imp_le)
    moreover have "(2 :: rat) powi (- 65) \<le> of_nat 1" "of_nat (2 ^ 64) < (2 :: rat) powi 65"
      by (simp_all add: power_int_minus field_simps)
    ultimately show ?thesis unfolding in_range_def by (meson order_trans order_le_less_trans)
  qed
  have "(of_nat (2 ^ 63) :: rat) \<le> of_nat (unat ?c)" using c by (simp only: of_nat_le_iff)
  then have C: "(2 :: rat) ^ 63 \<le> u64_to_double ?c"
    using fl_ge_power [OF r, of ?c 63] c by (simp add: u64_to_double_def)
  have "(of_nat (unat ?t) :: rat) \<le> of_nat (2 ^ 63)" using t by (simp only: of_nat_le_iff)
  then have T: "u64_to_double ?t \<le> (2 :: rat) ^ 63"
    using fl_le_power [OF r [OF t(1)], of 63] by (simp add: u64_to_double_def)
  have "16212958658533787 * u64_to_double ?t \<le> 2 ^ 54 * u64_to_double ?c"
    using C T by simp
  then have "cpu_usage ?c ?t > lit_0_90" using usage_threshold [of ?c ?t] c t by simp
  moreover have "?t > 0" using t by (simp add: word_less_nat_alt)
  ultimately show ?thesis using assms(1) by (simp add: observe_def Let_def)
qed

lemma reused_thread_id_reported_witness:
  "fst (observe 17 0 6000000000 [17 \<mapsto> \<lparr>last_cpu_time_ns = 10000000, last_check_time_ns = 1000000000\<rparr>])"
  by (rule reused_thread_id_reported [where it = "\<lparr>last_cpu_time_ns = 10000000, last_check_time_ns = 1000000000\<rparr>"])
    simp_all

text \<open>C18: Life cycle of the monitor, in every interleaving of its thread with \<open>Start\<close> and \<open>Stop\<close>: the
  process never terminates on a joinable thread; there is at most one monitor thread, and none
  and an empty table once \<open>Stop\<close> has returned; and from the moment \<open>Stop\<close> waits, the
  monitor thread always has a next step until it ends, after at most three.\<close>

theorem cpu_monitor_lifecycle:
  assumes "cpu_reach check s"
  shows "\<not> terminated s \<and>
         (\<not> running s \<and> \<not> joining s \<longrightarrow> loop s = L_None \<and> thread_states s = Map.empty) \<and>
         (joining s \<longrightarrow> loop_rank (loop s) \<le> 3 \<and>
            (loop s = L_Done \<longrightarrow> (\<exists>t. cpu_step check Client s t \<and> \<not> joining t)) \<and>
            (loop s \<noteq> L_Done \<longrightarrow> (\<exists>t. cpu_step check Monitor_Thread s t)) \<and>
            (\<forall>t. cpu_step check Monitor_Thread s t \<longrightarrow> loop_rank (loop t) < loop_rank (loop s)))"
proof -
  have inv: "cpu_inv s" by (rule cpu_reach_inv [OF assms])
  have "loop_rank (loop s) \<le> 3" by (cases "loop s") simp_all
  moreover have "\<exists>t. cpu_step check Client s t \<and> \<not> joining t" if "joining s" "loop s = L_Done"
    using cpu_step.Join [OF that, of check] by (auto simp: cpu_Stop_end_def)
  moreover have "\<exists>t. cpu_step check Monitor_Thread s t" if "joining s" "loop s \<noteq> L_Done"
    using that inv by (cases "loop s") (auto simp: cpu_inv_def monitor_step_simps)
  moreover have "loop_rank (loop t) < loop_rank (loop s)" if "joining s" "cpu_step check Monitor_Thread s t" for t
    using that inv by (auto simp: cpu_inv_def monitor_step_simps)
  ultimately show ?thesis using inv by (simp add: cpu_inv_def)
qed

lemma cpu_monitor_lifecycle_witness:
  "\<not> terminated (cpu_Start cpu_start) \<and> joining (cpu_Stop_begin (cpu_Start cpu_start)) \<and>
   (\<exists>t. cpu_step (\<lambda>m. m) Monitor_Thread (cpu_Stop_begin (cpu_Start cpu_start)) t)"
proof -
  have r: "cpu_reach (\<lambda>m. m) (cpu_Start cpu_start)"
    by (rule cpu_reach.step [OF cpu_reach.start cpu_step.Start]) (simp add: cpu_start_def)
  have "cpu_reach (\<lambda>m. m) (cpu_Stop_begin (cpu_Start cpu_start))"
    by (rule cpu_reach.step [OF r cpu_step.Stop]) (simp add: cpu_start_def cpu_Start_def)
  from cpu_monitor_lifecycle [OF this] cpu_monitor_lifecycle [OF r] show ?thesis
    by (simp add: cpu_Stop_begin_def cpu_Start_def cpu_start_def)
qed

end
