(* ===== verification/Crash_Handler.thy ===== *)
theory Crash_Handler
  imports Allocator Reporter
begin

text \<open>
  \<open>CrashHandler\<close> (src/crash_handler.cpp): installing and removing the signal handler (Linux, macOS) or
  the unhandled-exception filter (Windows), and what the handler does with a crash.

  Function pointers are addresses; 0 is \<open>SIG_DFL\<close> (and the null pointer), 1 is \<open>SIG_IGN\<close>.
\<close>

section \<open>State\<close>

record sig_action =
  sa_siginfo :: bool
  sa_pointer :: addr \<comment> \<open>the union of \<open>sa_handler\<close> and \<open>sa_sigaction\<close>\<close>

abbreviation (input) SIG_DFL :: addr where
  "SIG_DFL \<equiv> 0"

abbreviation (input) SIG_IGN :: addr where
  "SIG_IGN \<equiv> 1"

record crash_state =
  installed :: bool
  dispositions :: "nat \<Rightarrow> sig_action" \<comment> \<open>of the process, by signal number\<close>
  old_actions :: "nat \<Rightarrow> sig_action"
  alt_stack :: "(addr \<times> u64) option"
  top_filter :: addr \<comment> \<open>the process's unhandled-exception filter (Windows)\<close>
  previous_filter :: addr

text \<open>What is fixed at load time: the addresses of the two handlers and \<open>SIGSTKSZ\<close>.\<close>

record crash_image =
  own_handler :: addr
  own_filter :: addr
  sig_stack_size :: u64

fun crash_signals :: "platform \<Rightarrow> nat list" where
  "crash_signals Linux = [11, 6, 4, 8, 7]"
| "crash_signals MacOS = [11, 6, 4, 8, 10]"
| "crash_signals Windows = []"

section \<open>Install and Uninstall\<close>

fun take_signals :: "sig_action \<Rightarrow> nat list \<Rightarrow> crash_state \<Rightarrow> crash_state" where
  "take_signals sa [] st = st"
| "take_signals sa (sig # sigs) st =
     take_signals sa sigs
       (st\<lparr>old_actions := (old_actions st)(sig := dispositions st sig),
          dispositions := (dispositions st)(sig := sa)\<rparr>)"

fun restore_signals :: "nat list \<Rightarrow> crash_state \<Rightarrow> crash_state" where
  "restore_signals [] st = st"
| "restore_signals (sig # sigs) st =
     restore_signals sigs (st\<lparr>dispositions := (dispositions st)(sig := old_actions st sig)\<rparr>)"

text \<open>\<open>Install\<close> allocates its signal stack from the isolated allocator (default alignment 16). On Windows the
  filter is set only \<open>if (!installed_)\<close>, after \<open>installed_ = true\<close>.\<close>

definition Install ::
  "platform \<Rightarrow> crash_image \<Rightarrow> os_map \<Rightarrow> crash_state \<times> alloc_state \<Rightarrow> (unit, crash_state \<times> alloc_state) outcome" where
  "Install pf img os st =
     (if installed (fst st) then Ret () st
      else let c = (fst st)\<lparr>installed := True\<rparr> in
        if pf = Windows
        then Ret () (if \<not> installed c
                     then c\<lparr>previous_filter := top_filter c, top_filter := own_filter img\<rparr> else c, snd st)
        else obind (Allocate os (sig_stack_size img) 16 (snd st))
          (\<lambda>sp al. Ret ()
             (take_signals \<lparr>sa_siginfo = True, sa_pointer = own_handler img\<rparr> (crash_signals pf)
                (c\<lparr>alt_stack := Some (sp, sig_stack_size img)\<rparr>), al))
          (\<lambda>al. (c, al)))"

definition Uninstall :: "platform \<Rightarrow> crash_state \<Rightarrow> crash_state" where
  "Uninstall pf c =
     (if \<not> installed c then c
      else let c1 = c\<lparr>installed := False\<rparr> in
        if pf = Windows then c1\<lparr>top_filter := previous_filter c1, previous_filter := nullptr\<rparr>
        else (restore_signals (crash_signals pf) c1)\<lparr>alt_stack := None\<rparr>)"

section \<open>A crash\<close>

definition crash_report :: "json \<Rightarrow> frame list \<Rightarrow> json" where
  "crash_report sig trace =
     JObj [(''type'', JStr ''crash''), (''signal'', sig), (''backtrace'', JArr (map frame_json trace))]"

text \<open>What a delivered signal makes the process do, besides the report: call a function of one or of
  three arguments, be killed by the default action, or return to the interrupted code.\<close>

datatype crash_effect = Call1 addr nat | Call3 addr nat | Killed nat | Resume

text \<open>The part after the report: the old handler.\<close>

definition chain_signal :: "nat \<Rightarrow> crash_state \<Rightarrow> crash_effect \<times> crash_state" where
  "chain_signal sig c =
     (let old = old_actions c sig
      in if sa_siginfo old
         then (if sa_pointer old \<noteq> nullptr then (Call3 (sa_pointer old) sig, c) else (Resume, c))
         else if sa_pointer old = SIG_DFL
         then (Killed sig, c\<lparr>dispositions := (dispositions c)(sig := \<lparr>sa_siginfo = False, sa_pointer = SIG_DFL\<rparr>)\<rparr>)
         else if sa_pointer old \<noteq> SIG_IGN then (Call1 (sa_pointer old) sig, c)
         else (Resume, c))"

text \<open>An exception of the reporter leaves the handler, and the old handler is not called.\<close>

definition HandleCrashSignal ::
  "frame list \<Rightarrow> (json \<Rightarrow> 'f \<Rightarrow> (unit, 'f) outcome) option \<Rightarrow> nat \<Rightarrow> crash_state \<times> 'f \<Rightarrow>
   (crash_effect, crash_state \<times> 'f) outcome" where
  "HandleCrashSignal trace reporter sig st =
     obind (case reporter of None \<Rightarrow> Ret () (snd st) | Some emit \<Rightarrow> emit (crash_report (JInt (int sig)) trace) (snd st))
       (\<lambda>_ f. let (effect, c) = chain_signal sig (fst st) in Ret effect (c, f)) (\<lambda>f. (fst st, f))"

text \<open>The kernel's delivery of a signal according to a disposition.\<close>

definition deliver :: "sig_action \<Rightarrow> nat \<Rightarrow> crash_effect" where
  "deliver a sig =
     (if sa_pointer a = SIG_DFL then Killed sig
      else if sa_pointer a = SIG_IGN then Resume
      else if sa_siginfo a then Call3 (sa_pointer a) sig
      else Call1 (sa_pointer a) sig)"

text \<open>Windows: the codes of access violation, illegal instruction, integer division by zero and stack
  overflow. \<open>call_filter\<close> is the effect of calling a filter address; 0 is
  \<open>EXCEPTION_CONTINUE_SEARCH\<close>.\<close>

definition crash_codes :: "u32 list" where
  "crash_codes = [0xC0000005, 0xC000001D, 0xC0000094, 0xC00000FD]"

definition UnhandledExceptionFilter ::
  "frame list \<Rightarrow> (json \<Rightarrow> 'f \<Rightarrow> (unit, 'f) outcome) option \<Rightarrow> (addr \<Rightarrow> u32 \<Rightarrow> int) \<Rightarrow> u32 \<Rightarrow>
   crash_state \<times> 'f \<Rightarrow> (int, 'f) outcome" where
  "UnhandledExceptionFilter trace reporter call_filter code st =
     obnd (if code \<in> set crash_codes
           then (case reporter of None \<Rightarrow> Ret () (snd st)
                 | Some emit \<Rightarrow> emit (crash_report (JUInt (ucast code)) trace) (snd st))
           else Ret () (snd st))
       (\<lambda>_ f. Ret (if previous_filter (fst st) \<noteq> nullptr then call_filter (previous_filter (fst st)) code else 0) f)"

section \<open>Lemmas\<close>

lemma take_signals_fields:
  "installed (take_signals sa sigs st) = installed st" "alt_stack (take_signals sa sigs st) = alt_stack st"
  "top_filter (take_signals sa sigs st) = top_filter st"
  "previous_filter (take_signals sa sigs st) = previous_filter st"
  by (induction sigs arbitrary: st) simp_all

lemma take_signals_spec:
  assumes "distinct sigs"
  shows "dispositions (take_signals sa sigs st) s = (if s \<in> set sigs then sa else dispositions st s)"
    and "old_actions (take_signals sa sigs st) s = (if s \<in> set sigs then dispositions st s else old_actions st s)"
  using assms by (induction sigs arbitrary: st) simp_all

lemma restore_signals_spec:
  "dispositions (restore_signals sigs st) s = (if s \<in> set sigs then old_actions st s else dispositions st s)"
  "installed (restore_signals sigs st) = installed st"
  "old_actions (restore_signals sigs st) = old_actions st"
  by (induction sigs arbitrary: st) auto

lemma distinct_crash_signals: "distinct (crash_signals pf)"
  by (cases pf) simp_all

lemma Install_posix:
  assumes "Install pf img os (c, al) = Ret () (c', al')" "\<not> installed c" "pf \<noteq> Windows"
  shows "installed c'" and "s \<in> set (crash_signals pf) \<Longrightarrow> dispositions c' s = \<lparr>sa_siginfo = True, sa_pointer = own_handler img\<rparr>"
    and "s \<in> set (crash_signals pf) \<Longrightarrow> old_actions c' s = dispositions c s"
    and "s \<notin> set (crash_signals pf) \<Longrightarrow> dispositions c' s = dispositions c s"
    and "\<exists>sp. alt_stack c' = Some (sp, sig_stack_size img) \<and>
           Allocate os (sig_stack_size img) 16 al = Ret sp al'"
proof -
  obtain sp where a: "Allocate os (sig_stack_size img) 16 al = Ret sp al'"
    and c: "c' = take_signals \<lparr>sa_siginfo = True, sa_pointer = own_handler img\<rparr> (crash_signals pf)
      (c\<lparr>installed := True, alt_stack := Some (sp, sig_stack_size img)\<rparr>)"
    using assms by (auto simp: Install_def Let_def obind_Ret_iff)
  note S = take_signals_spec [OF distinct_crash_signals]
  show "installed c'" by (simp add: c take_signals_fields)
  show "\<exists>sp. alt_stack c' = Some (sp, sig_stack_size img) \<and> Allocate os (sig_stack_size img) 16 al = Ret sp al'"
    using a by (simp add: c take_signals_fields)
  show "s \<in> set (crash_signals pf) \<Longrightarrow> dispositions c' s = \<lparr>sa_siginfo = True, sa_pointer = own_handler img\<rparr>"
    by (simp add: c S)
  show "s \<in> set (crash_signals pf) \<Longrightarrow> old_actions c' s = dispositions c s" by (simp add: c S)
  show "s \<notin> set (crash_signals pf) \<Longrightarrow> dispositions c' s = dispositions c s" by (simp add: c S)
qed

text \<open>A process with a handler of its own for SIGSEGV and SIGFPE ignored.\<close>

definition demo_crash :: crash_state where
  "demo_crash =
     \<lparr>installed = False,
      dispositions = (\<lambda>s. if s = 11 then \<lparr>sa_siginfo = True, sa_pointer = 4096\<rparr>
                          else if s = 8 then \<lparr>sa_siginfo = False, sa_pointer = 1\<rparr>
                          else \<lparr>sa_siginfo = False, sa_pointer = 0\<rparr>),
      old_actions = (\<lambda>s. \<lparr>sa_siginfo = False, sa_pointer = 0\<rparr>), alt_stack = Some (65536, 8192),
      top_filter = 5000, previous_filter = 0\<rparr>"

definition demo_image :: crash_image where
  "demo_image = \<lparr>own_handler = 8192, own_filter = 8256, sig_stack_size = 8192\<rparr>"

lemma demo_Install: "\<exists>c al. Install Linux demo_image linear_os (demo_crash, empty_alloc) = Ret () (c, al)"
proof -
  have "\<exists>al. Allocate linear_os 8192 16 empty_alloc = Ret 4128 al"
    by (simp add: Allocate_def ensure_head_def AllocateOSBlock_def linear_os_def alloc_in_chain_def
        Let_def try_block_def align_addr_def sizeof_Block_def)
  then show ?thesis by (auto simp: Install_def demo_crash_def demo_image_def)
qed

section \<open>Properties\<close>

text \<open>C28: \<open>Install\<close> followed by \<open>Uninstall\<close> gives every signal its previous disposition back (Linux and
  macOS), and between them the five crash signals, and no others, go to Domovoy; the
  application's alternate signal stack, however, is not restored but disabled.\<close>

theorem uninstall_restores_dispositions:
  assumes "Install pf img os (c, al) = Ret () (c', al')" and "\<not> installed c" and "pf \<noteq> Windows"
  shows "dispositions (Uninstall pf c') = dispositions c \<and> \<not> installed (Uninstall pf c') \<and>
         (\<forall>s. (dispositions c' s = \<lparr>sa_siginfo = True, sa_pointer = own_handler img\<rparr>) \<or>
              s \<notin> set (crash_signals pf) \<and> dispositions c' s = dispositions c s) \<and>
         alt_stack (Uninstall pf c') = None"
proof -
  note I = Install_posix [OF assms]
  have "dispositions (Uninstall pf c') s = dispositions c s" for s
    using I(1,3,4) assms(3) by (simp add: Uninstall_def Let_def restore_signals_spec)
  moreover have "\<not> installed (Uninstall pf c')" "alt_stack (Uninstall pf c') = None"
    using I(1) assms(3) by (simp_all add: Uninstall_def Let_def restore_signals_spec)
  ultimately show ?thesis using I(2,4) by blast
qed

lemma uninstall_restores_dispositions_witness:
  "\<exists>c al. Install Linux demo_image linear_os (demo_crash, empty_alloc) = Ret () (c, al) \<and>
     dispositions (Uninstall Linux c) = dispositions demo_crash \<and> alt_stack (Uninstall Linux c) = None"
proof -
  obtain c al where i: "Install Linux demo_image linear_os (demo_crash, empty_alloc) = Ret () (c, al)"
    using demo_Install by blast
  have "\<not> installed demo_crash" by (simp add: demo_crash_def)
  from uninstall_restores_dispositions [OF i this] i show ?thesis by auto
qed

text \<open>A crash signal is reported once and then, if the report returns, treated as the application had asked
  before \<open>Install\<close>: its handler is called with the same signal, an ignored signal resumes, and the default action
  kills the process. (Excluded is a null \<open>sa_sigaction\<close> with \<open>SA_SIGINFO\<close>.)\<close>

theorem crash_is_chained:
  assumes "Install pf img os (c, al) = Ret () (c', al')" and "\<not> installed c" and "pf \<noteq> Windows"
    and "sig \<in> set (crash_signals pf)" and "sa_siginfo (dispositions c sig) \<longrightarrow> 1 < sa_pointer (dispositions c sig)"
    and "emit (crash_report (JInt (int sig)) trace) f = Ret () f'"
  shows "\<exists>c''. HandleCrashSignal trace (Some emit) sig (c', f) = Ret (deliver (dispositions c sig) sig) (c'', f') \<and>
           (deliver (dispositions c sig) sig = Killed sig \<longrightarrow> sa_pointer (dispositions c'' sig) = SIG_DFL)"
proof -
  have old: "old_actions c' sig = dispositions c sig" using Install_posix(3) [OF assms(1-3)] assms(4) by simp
  show ?thesis
    using assms(5) by (auto simp: HandleCrashSignal_def assms(6) chain_signal_def deliver_def Let_def old)
qed

lemma crash_is_chained_witness:
  "\<exists>c al c''. Install Linux demo_image linear_os (demo_crash, empty_alloc) = Ret () (c, al) \<and>
     HandleCrashSignal [] (Some (\<lambda>d f. Ret () (d # f))) 11 (c, []) =
       Ret (Call3 4096 11) (c'', [crash_report (JInt 11) []])"
proof -
  obtain c al where i: "Install Linux demo_image linear_os (demo_crash, empty_alloc) = Ret () (c, al)"
    using demo_Install by blast
  have "\<not> installed demo_crash" by (simp add: demo_crash_def)
  from crash_is_chained [OF i this, of 11 "\<lambda>d f. Ret () (d # f)" "[]" "[]"] i show ?thesis
    by (auto simp: demo_crash_def deliver_def)
qed

text \<open>On Windows \<open>Install\<close> tests \<open>!installed_\<close> right after setting it, so that the filter is never
  installed; and \<open>Uninstall\<close> then removes the application's own filter.\<close>

theorem windows_filter_never_installed:
  assumes "\<not> installed c" and "previous_filter c = nullptr"
  shows "\<exists>c'. Install Windows img os (c, al) = Ret () (c', al) \<and> installed c' \<and>
           top_filter c' = top_filter c \<and> top_filter (Uninstall Windows c') = nullptr"
  using assms by (simp add: Install_def Uninstall_def Let_def)

lemma windows_filter_never_installed_witness:
  "\<exists>c'. Install Windows demo_image linear_os (demo_crash, empty_alloc) = Ret () (c', empty_alloc) \<and>
     top_filter c' = 5000 \<and> top_filter (Uninstall Windows c') = nullptr"
  using windows_filter_never_installed [of demo_crash demo_image linear_os empty_alloc]
  by (auto simp: demo_crash_def)

end
