(* ===== verification/Report_Schema.thy ===== *)
theory Report_Schema
  imports Memory_Analyzer Io_Monitor Cpu_Monitor Crash_Handler
begin

text \<open>
  The types of the four report documents (the objects assembled in src/memory/memory_analyzer.cpp,
  src/io/io_monitor.cpp, src/profiler/cpu_monitor.cpp and src/crash_handler.cpp), for a reader of the
  files. \<open>schema\<close> is a type of documents and \<open>conforms\<close> its typing judgement; the properties say that
  every document that is handed to the reporter has the type of its kind.
\<close>

section \<open>Addresses read back\<close>

definition hex_val :: "char \<Rightarrow> nat option" where
  "hex_val c =
     (let n = (of_char c :: nat)
      in if 48 \<le> n \<and> n \<le> 57 then Some (n - 48) else if 97 \<le> n \<and> n \<le> 102 then Some (n - 87) else None)"

text \<open>\<open>0x\<close> and one to sixteen lower-case hexadecimal digits.\<close>

definition read_addr :: "string \<Rightarrow> addr option" where
  "read_addr s =
     (if take 2 s = ''0x'' \<and> drop 2 s \<noteq> [] \<and> length s \<le> 18 \<and> list_all (\<lambda>c. hex_val c \<noteq> None) (drop 2 s)
      then Some (of_nat (digits_value 16 (map (the \<circ> hex_val) (drop 2 s)))) else None)"

lemma hex_val_digit: "d < 16 \<Longrightarrow> hex_val (digit_char d) = Some d"
  by (simp add: hex_val_def of_char_digit_char)

lemma read_addr_string: "read_addr (addr_string p) = Some p"
proof -
  have d: "d < 16" if "d \<in> set (digits 16 (unat p))" for d using digits_bound [of 16 d "unat p"] that by simp
  then have "map (the \<circ> hex_val) (hex_string (unat p)) = digits 16 (unat p)"
    by (simp add: hex_string_def hex_val_digit map_idI)
  moreover have "list_all (\<lambda>c. hex_val c \<noteq> None) (hex_string (unat p))"
    using d by (auto simp: hex_string_def list_all_iff hex_val_digit)
  moreover have "hex_string (unat p) \<noteq> []" by (simp add: hex_string_def digits_nonempty)
  ultimately show ?thesis
    using length_hex_string [of p] by (simp add: read_addr_def addr_string_full digits_value_digits)
qed

section \<open>Types of documents\<close>

datatype schema =
    S_Bool
  | S_UInt nat \<comment> \<open>an unsigned number of that many bits\<close>
  | S_Int nat \<comment> \<open>a signed number of that many bits\<close>
  | S_Text
  | S_Filled \<comment> \<open>a text that is not empty\<close>
  | S_Const string
  | S_Addr
  | S_Array schema
  | S_Object "field list"
and field = Req string schema | Opt string schema

fun field_key :: "field \<Rightarrow> string" where
  "field_key (Req k s) = k"
| "field_key (Opt k s) = k"

text \<open>\<open>ok\<close> is a condition on the texts that come from outside the library: paths, names of types, functions
  and source files.\<close>

fun conforms :: "(string \<Rightarrow> bool) \<Rightarrow> schema \<Rightarrow> json \<Rightarrow> bool"
  and field_ok :: "(string \<Rightarrow> bool) \<Rightarrow> field \<Rightarrow> (string \<times> json) list \<Rightarrow> bool" where
  "conforms ok S_Bool d = (case d of JBool b \<Rightarrow> True | _ \<Rightarrow> False)"
| "conforms ok (S_UInt w) d = (case d of JUInt n \<Rightarrow> unat n < 2 ^ w | _ \<Rightarrow> False)"
| "conforms ok (S_Int w) d = (case d of JInt i \<Rightarrow> - (2 ^ (w - 1)) \<le> i \<and> i < 2 ^ (w - 1) | _ \<Rightarrow> False)"
| "conforms ok S_Text d = (case d of JStr s \<Rightarrow> ok s | _ \<Rightarrow> False)"
| "conforms ok S_Filled d = (case d of JStr s \<Rightarrow> s \<noteq> [] \<and> ok s | _ \<Rightarrow> False)"
| "conforms ok (S_Const t) d = (d = JStr t)"
| "conforms ok S_Addr d = (case d of JStr s \<Rightarrow> read_addr s \<noteq> None | _ \<Rightarrow> False)"
| "conforms ok (S_Array t) d = (case d of JArr ds \<Rightarrow> list_all (conforms ok t) ds | _ \<Rightarrow> False)"
| "conforms ok (S_Object fs) d =
     (case d of JObj kvs \<Rightarrow>
        distinct (map fst kvs) \<and> set (map fst kvs) \<subseteq> set (map field_key fs) \<and> list_all (\<lambda>f. field_ok ok f kvs) fs
      | _ \<Rightarrow> False)"
| "field_ok ok (Req k t) kvs = (case map_of kvs k of None \<Rightarrow> False | Some d \<Rightarrow> conforms ok t d)"
| "field_ok ok (Opt k t) kvs = (case map_of kvs k of None \<Rightarrow> True | Some d \<Rightarrow> conforms ok t d)"

text \<open>The four kinds. A part that is not enabled in the configuration is absent.\<close>

definition class_schema :: schema where
  "class_schema = S_Object [Req ''size'' (S_UInt 64), Req ''count'' (S_UInt 64), Req ''sample_addresses'' (S_Array S_Addr)]"

definition leak_schema_detail :: schema where
  "leak_schema_detail = S_Object [Req ''address'' S_Addr, Opt ''type'' S_Filled]"

definition details_schema :: schema where
  "details_schema = S_Object [Opt ''size'' (S_UInt 64), Req ''addresses'' (S_Array leak_schema_detail)]"

definition summary_schema :: schema where
  "summary_schema = S_Object
     [Req ''total_leaks'' (S_UInt 64), Req ''total_leaked_bytes'' (S_UInt 64), Req ''by_size'' (S_Array class_schema)]"

definition leak_schema :: "leak_config \<Rightarrow> schema" where
  "leak_schema cfg = S_Object ([Req ''type'' (S_Const ''memory_leaks'')] @
     (if enable_leak_report_summary cfg then [Req ''summary'' summary_schema] else []) @
     (if enable_leak_report_details cfg then [Req ''leaks_by_size'' (S_Array details_schema)] else []))"

definition fd_schema :: schema where
  "fd_schema = S_Object [Req ''type'' (S_Const ''fd_leak''), Req ''fds'' (S_Array
     (S_Object [Req ''fd'' (S_Int 32), Req ''path'' S_Text, Req ''is_socket'' S_Bool]))]"

definition frame_schema :: schema where
  "frame_schema = S_Object [Req ''symbol'' S_Text, Req ''filename'' S_Text, Req ''line'' (S_UInt 32)]"

definition cpu_schema :: schema where
  "cpu_schema = S_Object
     [Req ''type'' (S_Const ''high_cpu_thread''), Req ''thread_id'' (S_UInt 64), Req ''backtrace'' (S_Array frame_schema)]"

definition crash_schema :: "schema \<Rightarrow> schema" where
  "crash_schema code = S_Object
     [Req ''type'' (S_Const ''crash''), Req ''signal'' code, Req ''backtrace'' (S_Array frame_schema)]"

section \<open>The documents have their types\<close>

lemma conforms_uint64: "conforms ok (S_UInt 64) (JUInt n)"
  using unat_u64_less [of n] by simp

lemma conforms_addr: "conforms ok S_Addr (JStr (addr_string p))"
  by (simp add: read_addr_string)

lemma conforms_uint32: "conforms ok (S_UInt 32) (JUInt (ucast (n :: u32)))"
proof -
  have "unat n < 2 ^ LENGTH(32)" by (rule unsigned_less)
  then have "unat n < 2 ^ 32" by simp
  then show ?thesis by (simp add: unsigned_ucast_eq take_bit_eq_mod)
qed

definition trace_texts :: "(string \<Rightarrow> bool) \<Rightarrow> frame list \<Rightarrow> bool" where
  "trace_texts ok trace \<longleftrightarrow> (\<forall>fr \<in> set trace. ok (or_unknown (fr_symbol fr)) \<and> ok (or_unknown (fr_filename fr)))"

definition resolved_texts :: "(string \<Rightarrow> bool) \<Rightarrow> (addr \<Rightarrow> u64 \<Rightarrow> string option) \<Rightarrow> bool" where
  "resolved_texts ok resolve \<longleftrightarrow> (\<forall>a n t. resolve a n = Some t \<longrightarrow> ok t)"

lemma frames_typed: "trace_texts ok trace \<Longrightarrow> list_all (conforms ok frame_schema) (map frame_json trace)"
  using conforms_uint32
  by (auto simp: list_all_iff trace_texts_def frame_schema_def frame_json_def split: option.split)

lemma fd_typed:
  assumes "\<forall>(fd, info) \<in> set entries. ok (fi_path info)"
  shows "conforms ok fd_schema (io_report entries)"
proof -
  have "- 2147483648 \<le> sint fd \<and> sint fd < 2147483648" for fd :: u32
    using sint_ge [of fd] sint_lt [of fd] by simp
  then show ?thesis using assms by (auto simp: fd_schema_def io_report_def fd_json_def list_all_iff)
qed

lemma cpu_typed: "trace_texts ok trace \<Longrightarrow> conforms ok cpu_schema (high_cpu_report trace thread_id)"
  using frames_typed [of ok trace] conforms_uint64 [of ok thread_id]
  by (simp add: cpu_schema_def high_cpu_report_def del: conforms.simps(2))

lemma crash_typed:
  "trace_texts ok trace \<Longrightarrow> conforms ok code sig \<Longrightarrow> conforms ok (crash_schema code) (crash_report sig trace)"
  using frames_typed [of ok trace] by (simp add: crash_schema_def crash_report_def)

text \<open>The grouping loop keeps what it has collected well-typed.\<close>

definition group_typed :: "(string \<Rightarrow> bool) \<Rightarrow> leak_group \<Rightarrow> bool" where
  "group_typed ok g \<longleftrightarrow>
     (case lg_addresses g of None \<Rightarrow> True | Some ds \<Rightarrow> list_all (conforms ok leak_schema_detail) ds)"

definition grouping_typed :: "(string \<Rightarrow> bool) \<Rightarrow> leak_config \<Rightarrow> grouping \<Rightarrow> bool" where
  "grouping_typed ok cfg st \<longleftrightarrow>
     list_all (conforms ok class_schema) (by_size st) \<and> list_all (conforms ok details_schema) (leaks_by_size st) \<and>
     list_all (\<lambda>s. read_addr s \<noteq> None) (current_sample_addresses st) \<and> group_typed ok (current_leak_group st) \<and>
     (enable_leak_report_details cfg \<and> current_count st > 0 \<longrightarrow> lg_addresses (current_leak_group st) \<noteq> None)"

lemma summary_item_typed:
  assumes "list_all (\<lambda>s. read_addr s \<noteq> None) samples"
  shows "conforms ok class_schema (summary_item n k samples)"
  using assms conforms_uint64 [of ok n] conforms_uint64 [of ok k]
  by (simp add: class_schema_def summary_item_def list_all_iff del: conforms.simps(2))

lemma group_json_typed:
  assumes "group_typed ok g" "lg_addresses g \<noteq> None"
  shows "conforms ok details_schema (group_json g)"
  using assms conforms_uint64
  by (auto simp: details_schema_def group_json_def group_typed_def simp del: conforms.simps(2) split: option.splits)

lemma detail_typed: "ok type_name \<Longrightarrow> conforms ok leak_schema_detail (leak_detail (addr_string p) type_name)"
  using conforms_addr [of ok p]
  by (auto simp: leak_schema_detail_def leak_detail_def simp del: conforms.simps(7))

lemma push_typed: "group_typed ok g \<Longrightarrow> conforms ok leak_schema_detail d \<Longrightarrow>
    group_typed ok (push_address d g) \<and> lg_addresses (push_address d g) \<noteq> None"
  by (auto simp: group_typed_def push_address_def split: option.splits)

lemma flush_typed:
  assumes "grouping_typed ok cfg st"
  shows "grouping_typed ok cfg (flush_group cfg st)"
  using assms summary_item_typed [of "current_sample_addresses st" ok] group_json_typed [of ok "current_leak_group st"]
  by (simp add: grouping_typed_def flush_group_def Let_def)

lemma open_typed: "grouping_typed ok cfg st \<Longrightarrow> grouping_typed ok cfg (open_group cfg n st)"
  using flush_typed [of ok cfg st] by (simp add: grouping_typed_def open_group_def Let_def group_typed_def)

lemma visit_leak_typed:
  assumes "visit_leak cfg resolve r st = Some t" "grouping_typed ok cfg st" "resolved_texts ok resolve"
  shows "grouping_typed ok cfg t"
proof -
  define st1 where "st1 = (if ar_size r \<noteq> current_size st then open_group cfg (ar_size r) st else st)"
  have 1: "grouping_typed ok cfg st1" using assms(2) open_typed by (simp add: st1_def)
  show ?thesis
  proof (cases "enable_leak_report_details cfg")
    case True
    then obtain tn where tn: "resolve (ar_address r) (ar_size r) = Some tn" and t: "t = st1\<lparr>current_count := current_count st1 + 1,
        current_sample_addresses := (if length (current_sample_addresses st1) < 100
          then current_sample_addresses st1 @ [addr_string (ar_address r)] else current_sample_addresses st1),
        current_leak_group := push_address (leak_detail (addr_string (ar_address r)) tn) (current_leak_group st1)\<rparr>"
      using assms(1) unfolding visit_leak_def Let_def st1_def [symmetric] by (auto split: option.splits)
    have "ok tn" using assms(3) tn by (simp add: resolved_texts_def)
    then have d: "conforms ok leak_schema_detail (leak_detail (addr_string (ar_address r)) tn)" by (rule detail_typed)
    show ?thesis
      using 1 push_typed [OF _ d, of "current_leak_group st1"]
      by (auto simp: t grouping_typed_def read_addr_string)
  next
    case False
    with assms(1) 1 show ?thesis
      by (auto simp: visit_leak_def Let_def st1_def [symmetric] grouping_typed_def read_addr_string)
  qed
qed

lemma visit_leaks_typed:
  "visit_leaks cfg resolve rs st = Some t \<Longrightarrow> grouping_typed ok cfg st \<Longrightarrow> resolved_texts ok resolve \<Longrightarrow>
   grouping_typed ok cfg t"
  by (induction rs arbitrary: st) (auto split: option.splits dest: visit_leak_typed)

lemma leak_report_typed:
  assumes "list_all (conforms ok class_schema) cs" "list_all (conforms ok details_schema) ds"
  shows "conforms ok (leak_schema cfg) (leak_report cfg n b cs ds)"
  using assms conforms_uint64 [of ok n] conforms_uint64 [of ok b]
  by (simp add: leak_schema_def leak_report_def summary_schema_def del: conforms.simps(2))

lemma detect_leaks_typed:
  assumes "detect_leaks cfg resolve src = Some (Some doc)" "resolved_texts ok resolve"
  shows "conforms ok (leak_schema cfg) doc"
proof -
  obtain st n b where st: "visit_leaks cfg resolve (sort_leaks (leaked (collect_leaks (ScanThreadStacks (ScanDataSegments
      (EnumerateHeap src []))) \<lparr>leaked = [], total_leaks = 0, total_leaked_bytes = 0\<rparr>))) grouping_start = Some st"
    "doc = leak_report cfg n b (by_size (flush_group cfg st)) (leaks_by_size (flush_group cfg st))"
    using assms(1) by (auto simp: detect_leaks_def Let_def split: option.splits if_splits)
  have s: "grouping_typed ok cfg grouping_start" by (simp add: grouping_typed_def grouping_start_def group_typed_def)
  have "grouping_typed ok cfg (flush_group cfg st)"
    by (rule flush_typed [OF visit_leaks_typed [OF st(1) s assms(2)]])
  then show ?thesis unfolding st(2) by (intro leak_report_typed) (simp_all add: grouping_typed_def)
qed

section \<open>Which reports can be serialised\<close>

text \<open>A document of a type whose keys and constants are UTF-8 can be serialised if the texts from outside are
  UTF-8.\<close>

fun utf8_schema :: "schema \<Rightarrow> bool" and utf8_field :: "field \<Rightarrow> bool" where
  "utf8_schema (S_Const t) = utf8_ok t"
| "utf8_schema (S_Array t) = utf8_schema t"
| "utf8_schema (S_Object fs) = list_all utf8_field fs"
| "utf8_schema _ = True"
| "utf8_field (Req k t) = (utf8_ok k \<and> utf8_schema t)"
| "utf8_field (Opt k t) = (utf8_ok k \<and> utf8_schema t)"

lemma hex_val_ascii: "hex_val c \<noteq> None \<Longrightarrow> byte_in 0 127 c"
  by (auto simp: hex_val_def byte_in_def Let_def split: if_splits)

lemma read_addr_utf8:
  assumes "read_addr s \<noteq> None"
  shows "utf8_ok s"
proof -
  have s: "take 2 s = ''0x''" "list_all (\<lambda>c. hex_val c \<noteq> None) (drop 2 s)"
    using assms by (auto simp: read_addr_def split: if_splits)
  have "s = ''0x'' @ drop 2 s" using append_take_drop_id [of 2 s] s(1) by simp
  moreover have "\<forall>c \<in> set (''0x'' @ drop 2 s). byte_in 0 127 c"
    using s(2) hex_val_ascii by (auto simp: list_all_iff byte_in_def)
  ultimately show ?thesis using utf8_all_ascii by metis
qed

lemma utf8_field_key: "utf8_field f \<Longrightarrow> utf8_ok (field_key f)"
  by (cases f) simp_all

lemma object_dumpable:
  assumes "set (map fst kvs) \<subseteq> set (map field_key fs)" "distinct (map fst kvs)" "list_all utf8_field fs"
    and "\<And>f d. f \<in> set fs \<Longrightarrow> map_of kvs (field_key f) = Some d \<Longrightarrow> dumpable d"
  shows "dumpable (JObj kvs)"
proof -
  have "utf8_ok k \<and> dumpable d" if kd: "(k, d) \<in> set kvs" for k d
  proof -
    have "k \<in> set (map field_key fs)" using assms(1) kd by force
    then obtain f where "f \<in> set fs" "k = field_key f" by auto
    moreover have "map_of kvs k = Some d" using assms(2) kd by simp
    ultimately show ?thesis using assms(3,4) utf8_field_key by (auto simp: list_all_iff)
  qed
  then show ?thesis by (auto simp: list_all_iff)
qed

lemma conforms_dumpable:
  "conforms ok s d \<Longrightarrow> ok = utf8_ok \<Longrightarrow> utf8_schema s \<Longrightarrow> dumpable d"
  "field_ok ok f kvs \<Longrightarrow> ok = utf8_ok \<Longrightarrow> utf8_field f \<Longrightarrow> map_of kvs (field_key f) = Some e \<Longrightarrow> dumpable e"
proof (induction ok s d and ok f kvs arbitrary: and e rule: conforms_field_ok.induct)
  case (9 ok fs d)
  then obtain kvs where d: "d = JObj kvs" by (auto split: json.splits)
  show ?case unfolding d
    by (rule object_dumpable [of kvs fs]) (use 9 d in \<open>auto simp: list_all_iff\<close>)
qed (auto simp: list_all_iff read_addr_utf8 split: json.splits option.splits)

text \<open>The descriptor report can be serialised exactly if every path in it is UTF-8.\<close>

lemma fd_report_dumpable: "dumpable (io_report entries) \<longleftrightarrow> (\<forall>(fd, info) \<in> set entries. utf8_ok (fi_path info))"
proof -
  have k: "utf8_ok ''type''" "utf8_ok ''fd_leak''" "utf8_ok ''fds''" "utf8_ok ''fd''" "utf8_ok ''path''" "utf8_ok ''is_socket''"
    by (simp_all add: after_char_def byte_in_def)
  have "dumpable (fd_json fd info) \<longleftrightarrow> utf8_ok (fi_path info)" for fd info
    using k(4-6) by (simp add: fd_json_def del: utf8_ok.simps)
  then show ?thesis
    using k(1-3) by (simp add: io_report_def list_all_iff split_beta del: utf8_ok.simps)
qed

text \<open>\<open>OnOpen\<close> cuts a path after 1023 bytes, in the middle of a character if need be: a path that is UTF-8 can
  leave an entry that is not.\<close>

lemma cut_path_not_utf8:
  "\<exists>path info. utf8_ok path \<and> length path = 1024 \<and> \<not> utf8_ok (fi_path info) \<and>
     OnOpen 3 (Some path) (Enable pf io_start) = Ret () ((Enable pf io_start)\<lparr>open_fds := [3 \<mapsto> info]\<rparr>)"
proof -
  let ?a = "replicate 1022 (CHR ''a'')" and ?e = "[CHR 0xC3, CHR 0xA9]"
  let ?info = "\<lparr>fi_path = fit_path (?a @ ?e), fi_is_socket = False\<rparr>"
  have a: "\<forall>c \<in> set ?a. byte_in 0 127 c" by (simp add: byte_in_def)
  have "utf8_ok ?e" by (simp add: after_char_def second_byte_def byte_in_def)
  moreover have "\<not> utf8_ok [CHR 0xC3]" by (simp add: after_char_def second_byte_def byte_in_def)
  moreover have "fit_path (?a @ ?e) = ?a @ [CHR 0xC3]" by (simp add: fit_path_def)
  ultimately have p: "utf8_ok (?a @ ?e)" "\<not> utf8_ok (fi_path ?info)" using utf8_ascii [OF a] by simp_all
  have o: "OnOpen 3 (Some (?a @ ?e)) (Enable pf io_start) = Ret () ((Enable pf io_start)\<lparr>open_fds := [3 \<mapsto> ?info]\<rparr>)"
    by (simp add: OnOpen_def store_fd_def Enable_def io_start_def with_lock_def Let_def)
  with p show ?thesis by (intro exI [of _ "?a @ ?e"] exI [of _ ?info]) simp
qed

section \<open>Property\<close>

lemma schemas_utf8:
  "utf8_schema (leak_schema cfg)" "utf8_schema fd_schema" "utf8_schema cpu_schema"
  "utf8_schema (crash_schema (S_Int 32))" "utf8_schema (crash_schema (S_UInt 32))"
  by (simp_all add: leak_schema_def summary_schema_def class_schema_def details_schema_def leak_schema_detail_def
      fd_schema_def cpu_schema_def crash_schema_def frame_schema_def after_char_def byte_in_def)

lemma leak_report_dumpable:
  "detect_leaks cfg resolve src = Some (Some doc) \<Longrightarrow> resolved_texts utf8_ok resolve \<Longrightarrow> dumpable doc"
  using conforms_dumpable(1) [OF detect_leaks_typed refl schemas_utf8(1)] .

lemma list_dumpable: "list_all (conforms utf8_ok s) ds \<Longrightarrow> utf8_schema s \<Longrightarrow> list_all dumpable ds"
  using conforms_dumpable(1) [OF _ refl] by (auto simp: list_all_iff)

text \<open>C17: Every document handed to the reporter has the type of its kind: whatever the heap, the configuration and
  the type resolver, the leak report has exactly the parts that are enabled, its counts are unsigned 64-bit
  numbers, its addresses read back, and a type is never an empty text; the descriptor, CPU and crash
  reports likewise, for any table, trace and signal. Their texts satisfy whatever the names of types and
  functions and the paths satisfy; in particular, if those are UTF-8, every report can be serialised.\<close>

theorem reports_well_typed:
  assumes "emit = (\<lambda>d log. Ret () (log @ [d]))"
    and "RunLeakDetection cfg resolve (Some emit) src [] = Ret () leaks"
    and "ReportLeakedFds iter (Some (\<lambda>d s. Ret () (fst s, snd s @ [d]))) (st, []) = Ret () (st', fds)"
    and "CaptureBacktraceForThread trace (Some emit) thread_id [] = Ret () cpus"
    and "HandleCrashSignal trace (Some emit) sig (c, []) = Ret effect (c', crashes)"
    and "UnhandledExceptionFilter trace (Some emit) call_filter code (c, []) = Ret result exceptions"
    and "sig < 2 ^ 31" and "resolved_texts ok resolve" and "trace_texts ok trace"
    and "\<forall>(fd, info) \<in> set (iter (open_fds st)). ok (fi_path info)"
  shows "list_all (conforms ok (leak_schema cfg)) leaks \<and> list_all (conforms ok fd_schema) fds \<and>
     list_all (conforms ok cpu_schema) cpus \<and> list_all (conforms ok (crash_schema (S_Int 32))) crashes \<and>
     list_all (conforms ok (crash_schema (S_UInt 32))) exceptions \<and>
     (ok = utf8_ok \<longrightarrow> list_all dumpable (leaks @ fds @ cpus @ crashes @ exceptions))"
proof -
  have 1: "list_all (conforms ok (leak_schema cfg)) leaks"
    using assms(1,2) detect_leaks_typed [OF _ assms(8)] by (auto simp: RunLeakDetection_def split: option.splits)
  have 2: "list_all (conforms ok fd_schema) fds"
    using assms(3) fd_typed [OF assms(10)] by (auto simp: ReportLeakedFds_def Let_def split: if_splits)
  have 3: "list_all (conforms ok cpu_schema) cpus"
    using assms(1,4) cpu_typed [OF assms(9)] by (auto simp: CaptureBacktraceForThread_def)
  have "conforms ok (crash_schema (S_Int 32)) (crash_report (JInt (int sig)) trace)"
    using assms(7) by (intro crash_typed assms(9)) simp
  then have 4: "list_all (conforms ok (crash_schema (S_Int 32))) crashes"
    using assms(1,5) by (auto simp: HandleCrashSignal_def split_beta Let_def)
  have "conforms ok (crash_schema (S_UInt 32)) (crash_report (JUInt (ucast code)) trace)"
    by (intro crash_typed assms(9) conforms_uint32)
  then have 5: "list_all (conforms ok (crash_schema (S_UInt 32))) exceptions"
    using assms(1,6) by (auto simp: UnhandledExceptionFilter_def split: if_splits)
  have "list_all dumpable (leaks @ fds @ cpus @ crashes @ exceptions)" if "ok = utf8_ok"
    using 1 2 3 4 5 list_dumpable schemas_utf8 by (simp add: that)
  with 1 2 3 4 5 show ?thesis by simp
qed

lemma reports_well_typed_witness:
  "\<exists>leaks cpus. RunLeakDetection \<lparr>enable_leak_report_summary = True, enable_leak_report_details = True\<rparr>
       (\<lambda>a n. Some ''Widget'') (Some (\<lambda>d log. Ret () (log @ [d]))) (Linux_Heap [unmarked 4096 100]) [] = Ret () leaks \<and>
     length leaks = 1 \<and>
     list_all (conforms utf8_ok (leak_schema \<lparr>enable_leak_report_summary = True, enable_leak_report_details = True\<rparr>)) leaks \<and>
     CaptureBacktraceForThread [\<lparr>fr_symbol = ''main'', fr_filename = '''', fr_line = Some 7\<rparr>]
       (Some (\<lambda>d log. Ret () (log @ [d]))) 7 [] = Ret () cpus \<and> length cpus = 1 \<and> list_all dumpable (leaks @ cpus)"
proof -
  let ?cfg = "\<lparr>enable_leak_report_summary = True, enable_leak_report_details = True\<rparr>"
  let ?emit = "\<lambda>d log. Ret () (log @ [d])" and ?trace = "[\<lparr>fr_symbol = ''main'', fr_filename = '''', fr_line = Some 7\<rparr>]"
  obtain leaks where L: "RunLeakDetection ?cfg (\<lambda>a n. Some ''Widget'') (Some ?emit)
       (Linux_Heap [unmarked 4096 100]) [] = Ret () leaks" "length leaks = 1"
    by (simp add: RunLeakDetection_def detect_leaks_def Let_def unmarked_def ScanThreadStacks_def ScanDataSegments_def
        sort_leaks_def visit_leak_def)
  have F: "ReportLeakedFds demo_fd_iter (Some (\<lambda>d s. Ret () (fst s, snd s @ [d]))) (io_start, []) = Ret () (io_start, [])"
    by (simp add: ReportLeakedFds_def io_start_def)
  obtain cpus where C: "CaptureBacktraceForThread ?trace (Some ?emit) 7 [] = Ret () cpus" "length cpus = 1"
    by (simp add: CaptureBacktraceForThread_def)
  obtain e c' crashes where H: "HandleCrashSignal ?trace (Some ?emit) 11 (demo_crash, []) = Ret e (c', crashes)"
    by (simp add: HandleCrashSignal_def split_beta Let_def)
  obtain r xs where X: "UnhandledExceptionFilter ?trace (Some ?emit) (\<lambda>a n. 1) 0xC0000005 (demo_crash, []) = Ret r xs"
    by (simp add: UnhandledExceptionFilter_def crash_codes_def)
  have t: "trace_texts utf8_ok ?trace" "resolved_texts utf8_ok (\<lambda>a n. Some ''Widget'')"
    by (simp_all add: trace_texts_def resolved_texts_def or_unknown_def c_str_def after_char_def byte_in_def)
  have p: "\<forall>(fd, info) \<in> set (demo_fd_iter (open_fds io_start)). utf8_ok (fi_path info)"
    by (simp add: io_start_def demo_fd_iter_def)
  from reports_well_typed [OF refl L(1) F C(1) H X _ t(2,1) p] L C show ?thesis by auto
qed

end
