(* ===== verification/Core.thy ===== *)
theory Core
  imports Alloc_Hooks_Correct Type_Resolver Io_Hooks Report_Schema
begin

text \<open>
  \<open>DomovoyCore\<close> (src/core.cpp): the configuration, \<open>Init\<close> and \<open>Shutdown\<close>, which drive the component
  models: the hooks, the isolated allocator, the crash handler, the IO monitor, the CPU monitor, the
  leak detector and the file reporter.

  \<open>Stop\<close> of the CPU monitor is taken as a whole here (its interleaving with the monitor thread is
  in \<open>Cpu_Monitor\<close>). Constructing an \<open>isolated_string\<close> may allocate; how is up to the standard
  library, a parameter.
\<close>

section \<open>State\<close>

record domovoy_config =
  allocator_capacity_bytes :: u64
  enable_leak_detection :: bool
  enable_heap_corruption_detection :: bool
  enable_cpu_profiler :: bool
  enable_io_monitoring :: bool
  enable_crash_handler :: bool
  leak_flags :: leak_config \<comment> \<open>\<open>enable_leak_report_summary\<close>, \<open>enable_leak_report_details\<close>\<close>
  output_dir :: string

definition default_config :: domovoy_config where
  "default_config =
     \<lparr>allocator_capacity_bytes = 2 * 1024 * 1024, enable_leak_detection = False,
      enable_heap_corruption_detection = False, enable_cpu_profiler = False,
      enable_io_monitoring = False, enable_crash_handler = False,
      leak_flags = \<lparr>enable_leak_report_summary = True, enable_leak_report_details = True\<rparr>,
      output_dir = ''.''\<rparr>"

text \<open>The reporter is represented by its output directory.\<close>

record ('h, 'k) core_state =
  the_reporter :: "string option"
  the_config :: domovoy_config
  is_initialized :: bool
  alloc_hooks :: "'h hooks" \<comment> \<open>with the \<open>IsolatedAllocator\<close> singleton\<close>
  io_part :: "'k io_hooks" \<comment> \<open>with the \<open>IoMonitor\<close> singleton\<close>
  cpu :: cpu_monitor
  crash :: crash_state
  disk :: files

record ('h, 'k) world =
  w_platform :: platform
  w_host :: "'h host"
  w_io_host :: "'k io_host"
  w_image :: crash_image
  w_env :: environment
  w_string :: "string \<Rightarrow> alloc_state \<Rightarrow> (unit, alloc_state) outcome"
  w_reporter_size :: u64
  w_iter :: "(addr \<Rightarrow> u64 option) \<Rightarrow> (addr \<times> u64) list"
  w_fd_iter :: "(u32 \<Rightarrow> fd_info option) \<Rightarrow> (u32 \<times> fd_info) list"
  w_heap :: heap_source \<comment> \<open>what the platform's heap walk yields (not Linux)\<close>
  w_toolchain :: toolchain
  w_process :: process \<comment> \<open>the memory and the loader, as the leak detector's resolver sees them\<close>
  w_file_handle :: u64 \<comment> \<open>the handle of the report file (Windows)\<close>
  w_stream_detoured :: bool \<comment> \<open>whether \<open>std::ofstream\<close> opens its file through the detoured \<open>CreateFileW\<close> (Windows)\<close>

abbreviation w_os :: "('h, 'k) world \<Rightarrow> os_map" where
  "w_os w \<equiv> host_os (w_host w)"

text \<open>The lambda \<open>resolve_type\<close> of the leak detector, in this process.\<close>

definition w_resolve :: "('h, 'k) world \<Rightarrow> addr \<Rightarrow> u64 \<Rightarrow> string option" where
  "w_resolve w = resolve_type (w_toolchain w) (w_process w)"

text \<open>The reports bypass the monitor's own detours: always, but where Windows routes the stream into them.\<close>

definition plain_streams :: "('h, 'k) world \<Rightarrow> bool" where
  "plain_streams w \<longleftrightarrow> w_platform w \<noteq> Windows \<or> \<not> w_stream_detoured w"

lemma plain_posix: "w_platform w \<noteq> Windows \<Longrightarrow> plain_streams w"
  by (simp add: plain_streams_def)

definition GetReporter :: "('h, 'k) core_state \<Rightarrow> string option" where
  "GetReporter c = the_reporter c"

definition GetConfig :: "('h, 'k) core_state \<Rightarrow> domovoy_config" where
  "GetConfig c = the_config c"

section \<open>Init\<close>

text \<open>An operation of the isolated allocator, or of the hooks, as one of the whole state.\<close>

definition put_alloc :: "alloc_state \<Rightarrow> ('h, 'k) core_state \<Rightarrow> ('h, 'k) core_state" where
  "put_alloc al c = c\<lparr>alloc_hooks := (alloc_hooks c)\<lparr>isolated := al\<rparr>\<rparr>"

definition on_alloc :: "(alloc_state \<Rightarrow> ('a, alloc_state) outcome) \<Rightarrow> ('h, 'k) core_state \<Rightarrow>
    ('a, ('h, 'k) core_state) outcome" where
  "on_alloc f c = obind (f (isolated (alloc_hooks c))) (\<lambda>a al. Ret a (put_alloc al c)) (\<lambda>al. put_alloc al c)"

definition init_hooks :: "('h, 'k) world \<Rightarrow> ('h, 'k) core_state \<Rightarrow> (unit, ('h, 'k) core_state) outcome" where
  "init_hooks w c =
     (if w_platform w = Linux
      then obind (domovoy_linux_alloc_hooks_init (w_host w) (alloc_hooks c))
             (\<lambda>_ h. obind (domovoy_linux_io_hooks_init (w_io_host w) (io_part c))
                (\<lambda>_ i. Ret () (c\<lparr>alloc_hooks := h, io_part := i\<rparr>)) (\<lambda>i. c\<lparr>alloc_hooks := h, io_part := i\<rparr>))
             (\<lambda>h. c\<lparr>alloc_hooks := h\<rparr>)
      else Ret () c)"

definition install_crash :: "('h, 'k) world \<Rightarrow> ('h, 'k) core_state \<Rightarrow> (unit, ('h, 'k) core_state) outcome" where
  "install_crash w c =
     obind (Install (w_platform w) (w_image w) (w_os w) (crash c, isolated (alloc_hooks c)))
       (\<lambda>_ (cr, al). Ret () ((put_alloc al c)\<lparr>crash := cr\<rparr>)) (\<lambda>(cr, al). (put_alloc al c)\<lparr>crash := cr\<rparr>)"

text \<open>Up to the construction of the reporter, and what follows: the requested features.\<close>

definition Init_setup :: "('h, 'k) world \<Rightarrow> domovoy_config \<Rightarrow> ('h, 'k) core_state \<Rightarrow> (unit, ('h, 'k) core_state) outcome" where
  "Init_setup w cfg c =
     obnd (init_hooks w (c\<lparr>the_config := cfg\<rparr>)) (\<lambda>_ c1.
     obnd (on_alloc (Initialize (w_os w) (allocator_capacity_bytes cfg)) c1) (\<lambda>_ c2.
     obnd (on_alloc (w_string w (output_dir cfg)) c2) (\<lambda>_ c3.
     obnd (on_alloc (Allocate (w_os w) (w_reporter_size w) 16) c3) (\<lambda>rep_mem c4.
     obnd (on_alloc (w_string w (output_dir cfg)) c4) (\<lambda>_ c5.
       Ret () (c5\<lparr>the_reporter := Some (output_dir cfg)\<rparr>))))))"

definition init_crash :: "('h, 'k) world \<Rightarrow> domovoy_config \<Rightarrow> ('h, 'k) core_state \<Rightarrow> (unit, ('h, 'k) core_state) outcome" where
  "init_crash w cfg c = (if enable_crash_handler cfg then install_crash w c else Ret () c)"

definition init_io :: "('h, 'k) world \<Rightarrow> domovoy_config \<Rightarrow> ('h, 'k) core_state \<Rightarrow> ('h, 'k) core_state" where
  "init_io w cfg c =
     (if enable_io_monitoring cfg
      then c\<lparr>io_part := (io_part c)\<lparr>monitor := Enable (w_platform w) (monitor (io_part c))\<rparr>\<rparr> else c)"

definition init_cpu :: "domovoy_config \<Rightarrow> ('h, 'k) core_state \<Rightarrow> ('h, 'k) core_state" where
  "init_cpu cfg c = (if enable_cpu_profiler cfg then c\<lparr>cpu := cpu_Start (cpu c)\<rparr> else c)"

definition Init :: "('h, 'k) world \<Rightarrow> domovoy_config \<Rightarrow> ('h, 'k) core_state \<Rightarrow> (unit, ('h, 'k) core_state) outcome" where
  "Init w cfg c =
     (if is_initialized c then Ret () c
      else
        obnd (Init_setup w cfg c) (\<lambda>_ c6.
        obnd (init_crash w cfg c6) (\<lambda>_ c7.
          Ret () ((init_cpu cfg (init_io w cfg c7))\<lparr>is_initialized := True\<rparr>))))"

lemmas Init_defs = Init_def Init_setup_def init_crash_def init_io_def init_cpu_def

section \<open>Shutdown\<close>

definition cpu_Stop :: "cpu_monitor \<Rightarrow> cpu_monitor" where
  "cpu_Stop s = (if running s then cpu_Stop_end (s\<lparr>running := False\<rparr>) else s)"

definition heap_of :: "('h, 'k) world \<Rightarrow> ('h, 'k) core_state \<Rightarrow> heap_source" where
  "heap_of w c =
     (if w_platform w = Linux then Linux_Heap (GetLinuxTrackedAllocations (w_iter w) (alloc_hooks c) [])
      else w_heap w)"

definition run_leak_detection ::
  "('h, 'k) world \<Rightarrow> int \<Rightarrow> ('h, 'k) core_state \<Rightarrow> (unit, ('h, 'k) core_state) outcome" where
  "run_leak_detection w ms c =
     obind (RunLeakDetection (leak_flags (GetConfig c)) (w_resolve w)
              (map_option (\<lambda>dir. report (w_env w) dir Leaks ms) (GetReporter c)) (heap_of w c) (disk c))
       (\<lambda>_ fs. Ret () (c\<lparr>disk := fs\<rparr>)) (\<lambda>fs. c\<lparr>disk := fs\<rparr>)"

text \<open>Writing the IO report: on Windows the C++ runtime opens and closes the file with \<open>CreateFileW\<close> and \<open>CloseHandle\<close>; where
  these calls meet the detours, they reach the monitor (closed also if the serialiser throws, by the
  destructor of the stream).\<close>

definition emit_io :: "('h, 'k) world \<Rightarrow> string \<Rightarrow> int \<Rightarrow> json \<Rightarrow> io_state \<times> files \<Rightarrow> (unit, io_state \<times> files) outcome" where
  "emit_io w dir ms d st =
     (if w_platform w = Windows \<and> w_stream_detoured w \<and> detoured (fst st)
      then obind (HookedCreateFileW (\<lambda>_ k. (w_file_handle w, k)) () (fst st, ()))
             (\<lambda>h s. obind (HookedCloseHandle (\<lambda>_ k. (True, k)) h s)
                (\<lambda>_ s'. obind (report (w_env w) dir IoLeak ms d (snd st))
                   (\<lambda>_ fs. Ret () (fst s', fs)) (\<lambda>fs. (fst s', fs))) (\<lambda>s'. (fst s', snd st)))
             (\<lambda>s. (fst s, snd st))
      else obind (report (w_env w) dir IoLeak ms d (snd st)) (\<lambda>_ fs. Ret () (fst st, fs)) (\<lambda>fs. (fst st, fs)))"

definition report_fds :: "('h, 'k) world \<Rightarrow> int \<Rightarrow> ('h, 'k) core_state \<Rightarrow> (unit, ('h, 'k) core_state) outcome" where
  "report_fds w ms c =
     (let back = (\<lambda>(m, fs). c\<lparr>io_part := (io_part c)\<lparr>monitor := m\<rparr>, disk := fs\<rparr>) in
      obind (ReportLeakedFds (w_fd_iter w) (map_option (\<lambda>dir d. emit_io w dir ms d) (GetReporter c))
               (monitor (io_part c), disk c))
        (\<lambda>_ s. Ret () (back s)) back)"

definition disable_io :: "('h, 'k) world \<Rightarrow> ('h, 'k) core_state \<Rightarrow> (unit, ('h, 'k) core_state) outcome" where
  "disable_io w c =
     (let back = (\<lambda>m. c\<lparr>io_part := (io_part c)\<lparr>monitor := m\<rparr>\<rparr>) in
      obind (Disable (w_platform w) (monitor (io_part c))) (\<lambda>_ m. Ret () (back m)) back)"

text \<open>\<open>ms1\<close> and \<open>ms2\<close> are the wall clock at the two reports. An exception of the reporter leaves \<open>Shutdown\<close>.\<close>

definition Shutdown :: "('h, 'k) world \<Rightarrow> int \<Rightarrow> int \<Rightarrow> ('h, 'k) core_state \<Rightarrow> (unit, ('h, 'k) core_state) outcome" where
  "Shutdown w ms1 ms2 c =
     (if \<not> is_initialized c then Ret () c
      else
        let c1 = c\<lparr>crash := Uninstall (w_platform w) (crash c)\<rparr>;
            c2 = c1\<lparr>cpu := cpu_Stop (cpu c1)\<rparr> in
        obnd (run_leak_detection w ms1 c2) (\<lambda>_ c3.
        obnd (report_fds w ms2 c3) (\<lambda>_ c4.
        obnd (disable_io w c4) (\<lambda>_ c5.
          Ret () (c5\<lparr>the_reporter := None, the_config := default_config, is_initialized := False\<rparr>)))))"

section \<open>Lemmas\<close>

lemma on_alloc_kept:
  assumes "on_alloc f c = Ret a t"
  shows "the_reporter t = the_reporter c \<and> the_config t = the_config c \<and> is_initialized t = is_initialized c \<and>
    io_part t = io_part c \<and> cpu t = cpu c \<and> crash t = crash c \<and> disk t = disk c"
  using assms by (auto simp: on_alloc_def obind_Ret_iff put_alloc_def)

text \<open>What uses the isolated allocator leaves the hooks and the table of allocations alone.\<close>

definition same_hooks :: "'h hooks \<Rightarrow> 'h hooks \<Rightarrow> bool" where
  "same_hooks s t \<longleftrightarrow> hooks_ready t = hooks_ready s \<and> tracked t = tracked s \<and> heap t = heap s"

lemma same_hooks_refl: "same_hooks s s"
  by (simp add: same_hooks_def)

lemma same_hooks_trans: "same_hooks r s \<Longrightarrow> same_hooks s t \<Longrightarrow> same_hooks r t"
  by (simp add: same_hooks_def)

lemma put_alloc_hooks: "same_hooks (alloc_hooks c) (alloc_hooks (put_alloc al c))"
  by (simp add: same_hooks_def put_alloc_def hooks_ready_def tracked_def)

lemma on_alloc_hooks: "on_alloc f c = Ret a t \<Longrightarrow> same_hooks (alloc_hooks c) (alloc_hooks t)"
  by (auto simp: on_alloc_def obind_Ret_iff put_alloc_hooks)

lemma install_crash_hooks: "install_crash w c = Ret () t \<Longrightarrow> same_hooks (alloc_hooks c) (alloc_hooks t)"
  using put_alloc_hooks [of c] by (auto simp: install_crash_def obind_Ret_iff)

lemma init_hooks_kept:
  assumes "init_hooks w c = Ret () t"
  shows "the_reporter t = the_reporter c \<and> the_config t = the_config c \<and> is_initialized t = is_initialized c \<and>
    cpu t = cpu c \<and> crash t = crash c \<and> monitor (io_part t) = monitor (io_part c) \<and> disk t = disk c"
  using assms
  by (auto simp: init_hooks_def obind_Ret_iff EnsureIoInit_def InitIoHooks_def split: if_splits)

lemma install_crash_kept:
  assumes "install_crash w c = Ret () t"
  shows "the_reporter t = the_reporter c \<and> the_config t = the_config c \<and> is_initialized t = is_initialized c \<and>
    cpu t = cpu c \<and> io_part t = io_part c \<and> installed (crash t) \<and> disk t = disk c"
  using assms
  by (auto simp: install_crash_def obind_Ret_iff put_alloc_def Install_def Let_def take_signals_fields
      split: if_splits)

lemma ReportLeakedFds_ends:
  assumes "\<not> locked m"
    and "emit = map_option (\<lambda>dir d s. obind (rep_one dir d (snd s)) (\<lambda>_ fs. Ret () (fst s, fs)) (\<lambda>fs. (fst s, fs))) rep"
    and "\<And>dir d fs. \<exists>fs'. rep_one dir d fs = Ret () fs' \<or> rep_one dir d fs = Throw fs'"
  shows "\<exists>fs'. ReportLeakedFds iter emit (m, fs) = Ret () (m, fs') \<and>
      (fs' = fs \<or> (\<exists>dir. rep = Some dir \<and> rep_one dir (io_report (iter (open_fds m))) fs = Ret () fs')) \<or>
    ReportLeakedFds iter emit (m, fs) = Throw (m, fs') \<and>
      (\<exists>dir. rep = Some dir \<and> rep_one dir (io_report (iter (open_fds m))) fs = Throw fs')"
proof (cases "enabled m \<and> iter (open_fds m) \<noteq> [] \<and> rep \<noteq> None")
  case True
  then obtain dir where "rep = Some dir" by blast
  with True assms(1,2) assms(3) [of dir "io_report (iter (open_fds m))" fs] show ?thesis
    by (auto simp: ReportLeakedFds_def Let_def)
next
  case False
  with assms(1,2) show ?thesis by (auto simp: ReportLeakedFds_def Let_def split: option.split)
qed

text \<open>Where the reports bypass the detours they never touch the monitor; each returns or throws.\<close>

lemma report_fds_plain:
  assumes "plain_streams w" "\<not> locked (monitor (io_part c))"
  shows "\<exists>fs'. report_fds w ms c = Ret () (c\<lparr>disk := fs'\<rparr>) \<and>
      (fs' = disk c \<or> (\<exists>dir. the_reporter c = Some dir \<and>
         report (w_env w) dir IoLeak ms (io_report (w_fd_iter w (open_fds (monitor (io_part c))))) (disk c) = Ret () fs')) \<or>
    report_fds w ms c = Throw (c\<lparr>disk := fs'\<rparr>) \<and>
      (\<exists>dir. the_reporter c = Some dir \<and>
         report (w_env w) dir IoLeak ms (io_report (w_fd_iter w (open_fds (monitor (io_part c))))) (disk c) = Throw fs')"
proof -
  let ?emit = "map_option (\<lambda>dir d. emit_io w dir ms d) (the_reporter c)"
  have "?emit = map_option (\<lambda>dir d s. obind (report (w_env w) dir IoLeak ms d (snd s))
      (\<lambda>_ fs. Ret () (fst s, fs)) (\<lambda>fs. (fst s, fs))) (the_reporter c)"
    using assms(1) by (cases "the_reporter c") (auto simp: emit_io_def plain_streams_def fun_eq_iff)
  from ReportLeakedFds_ends [where iter = "w_fd_iter w" and fs = "disk c", OF assms(2) this report_ends] obtain fs' where
    "ReportLeakedFds (w_fd_iter w) ?emit (monitor (io_part c), disk c) = Ret () (monitor (io_part c), fs') \<and>
      (fs' = disk c \<or> (\<exists>dir. the_reporter c = Some dir \<and>
         report (w_env w) dir IoLeak ms (io_report (w_fd_iter w (open_fds (monitor (io_part c))))) (disk c) = Ret () fs')) \<or>
     ReportLeakedFds (w_fd_iter w) ?emit (monitor (io_part c), disk c) = Throw (monitor (io_part c), fs') \<and>
      (\<exists>dir. the_reporter c = Some dir \<and>
         report (w_env w) dir IoLeak ms (io_report (w_fd_iter w (open_fds (monitor (io_part c))))) (disk c) = Throw fs')"
    by blast
  then show ?thesis
    by (intro exI [of _ fs']) (elim disjE conjE; simp add: report_fds_def GetReporter_def Let_def)
qed

lemma run_leak_detection_ends:
  assumes "\<And>a n. w_resolve w a n \<noteq> None"
  shows "\<exists>fs. run_leak_detection w ms c = Ret () (c\<lparr>disk := fs\<rparr>) \<or> run_leak_detection w ms c = Throw (c\<lparr>disk := fs\<rparr>)"
proof -
  have "resolves cfg (w_resolve w) rs" for cfg rs using assms by (simp add: resolves_def)
  then obtain st where "visit_leaks (leak_flags (the_config c)) (w_resolve w)
      (sort_leaks (leaks_of (enumerated (heap_of w c)))) grouping_start = Some st"
    using visit_leaks_total by blast
  then obtain due where due: "detect_leaks (leak_flags (the_config c)) (w_resolve w) (heap_of w c) = Some due"
    by (simp add: detect_leaks_unfold)
  show ?thesis
  proof (cases "due \<noteq> None \<and> the_reporter c \<noteq> None")
    case True
    then obtain doc dir where d: "due = Some doc" "the_reporter c = Some dir" by blast
    then show ?thesis
      using report_ends [of "w_env w" dir Leaks ms doc "disk c"] due
      by (auto simp: run_leak_detection_def RunLeakDetection_def GetConfig_def GetReporter_def)
  next
    case False
    then have "run_leak_detection w ms c = Ret () (c\<lparr>disk := disk c\<rparr>)"
      using due by (auto simp: run_leak_detection_def RunLeakDetection_def GetConfig_def GetReporter_def split: option.split)
    then show ?thesis by blast
  qed
qed

text \<open>The reports of \<open>Shutdown\<close> can be serialised: the names of types and the paths are UTF-8.\<close>

definition serialisable :: "('h, 'k) world \<Rightarrow> ('h, 'k) core_state \<Rightarrow> bool" where
  "serialisable w c \<longleftrightarrow> dump_ok (w_env w) \<and> resolved_texts utf8_ok (w_resolve w) \<and>
     (\<forall>(fd, info) \<in> set (w_fd_iter w (open_fds (monitor (io_part c)))). utf8_ok (fi_path info))"

lemma run_leak_detection_returns:
  assumes "\<And>a n. w_resolve w a n \<noteq> None" and "dump_ok (w_env w)" and "resolved_texts utf8_ok (w_resolve w)"
  shows "\<exists>fs. run_leak_detection w ms c = Ret () (c\<lparr>disk := fs\<rparr>)"
proof -
  have "report (w_env w) dir Leaks ms doc fs \<noteq> Throw fs'"
    if "detect_leaks cfg (w_resolve w) src = Some (Some doc)" for dir doc cfg src fs fs'
    by (rule report_serialised [OF assms(2) leak_report_dumpable [OF that assms(3)]])
  then have "run_leak_detection w ms c \<noteq> Throw t" for t
    by (auto simp: run_leak_detection_def RunLeakDetection_def obind_Throw_iff split: option.splits)
  with run_leak_detection_ends [OF assms(1)] show ?thesis by blast
qed

lemma report_fds_returns:
  assumes "plain_streams w" "\<not> locked (monitor (io_part c))" "serialisable w c"
  shows "\<exists>fs'. report_fds w ms c = Ret () (c\<lparr>disk := fs'\<rparr>) \<and>
    (fs' = disk c \<or> (\<exists>dir d. the_reporter c = Some dir \<and> report (w_env w) dir IoLeak ms d (disk c) = Ret () fs'))"
proof -
  have "dumpable (io_report (w_fd_iter w (open_fds (monitor (io_part c)))))"
    using assms(3) by (simp add: serialisable_def fd_report_dumpable)
  then have "report (w_env w) dir IoLeak ms (io_report (w_fd_iter w (open_fds (monitor (io_part c))))) fs \<noteq> Throw fs'"
    for dir fs fs'
    using assms(3) report_serialised unfolding serialisable_def by blast
  with report_fds_plain [OF assms(1,2), of ms] show ?thesis by blast
qed

lemma Disable_unlocked:
  assumes "\<not> locked m"
  shows "\<exists>m'. Disable pf m = Ret () m' \<and> \<not> enabled m' \<and> \<not> locked m' \<and> (enabled m \<longrightarrow> open_fds m' = Map.empty) \<and>
    (\<not> enabled m \<longrightarrow> m' = m)"
  using assms by (auto simp: Disable_def with_lock_def Let_def)

text \<open>The hooks allocate from the isolated allocator: afterwards it has a block.\<close>

lemma scan_blocks_nonempty: "scan_blocks n a bs = Some (p, bs') \<Longrightarrow> bs' \<noteq> []"
  by (cases bs) (auto split: option.splits)

lemma Allocate_head:
  assumes "Allocate os n a al = Ret p al'"
  shows "head_block al' \<noteq> []"
proof -
  obtain s where "alloc_in_chain os n a s = Ret p al'"
    using assms by (auto simp: Allocate_def obind_Ret_iff)
  then show ?thesis
    by (auto simp: alloc_in_chain_def obind_Ret_iff Let_def split_beta dest!: scan_blocks_nonempty split: option.splits)
qed

text \<open>Then \<open>Shutdown\<close> returns if the reports can be serialised, and switches everything off.\<close>

lemma Shutdown_steps_plain:
  assumes "is_initialized c" "plain_streams w" "\<not> locked (monitor (io_part c))"
    and "\<And>a n. w_resolve w a n \<noteq> None" and "serialisable w c"
  defines "c2 \<equiv> c\<lparr>crash := Uninstall (w_platform w) (crash c), cpu := cpu_Stop (cpu c)\<rparr>"
  shows "\<exists>fs1 fs2 m. run_leak_detection w ms1 c2 = Ret () (c2\<lparr>disk := fs1\<rparr>) \<and>
    report_fds w ms2 (c2\<lparr>disk := fs1\<rparr>) = Ret () (c2\<lparr>disk := fs2\<rparr>) \<and>
    (fs2 = fs1 \<or> (\<exists>dir d. the_reporter c = Some dir \<and> report (w_env w) dir IoLeak ms2 d fs1 = Ret () fs2)) \<and>
    Disable (w_platform w) (monitor (io_part c)) = Ret () m \<and>
    Shutdown w ms1 ms2 c = Ret () (c2\<lparr>disk := fs2, io_part := (io_part c)\<lparr>monitor := m\<rparr>, the_reporter := None,
      the_config := default_config, is_initialized := False\<rparr>)"
proof -
  obtain fs1 where 1: "run_leak_detection w ms1 c2 = Ret () (c2\<lparr>disk := fs1\<rparr>)"
    using run_leak_detection_returns [of w ms1 c2] assms(4,5) by (auto simp: serialisable_def)
  have "\<not> locked (monitor (io_part (c2\<lparr>disk := fs1\<rparr>)))" "serialisable w (c2\<lparr>disk := fs1\<rparr>)"
    using assms(3,5) by (simp_all add: c2_def serialisable_def)
  from report_fds_returns [OF assms(2) this, of ms2] obtain fs2 where
    2: "report_fds w ms2 (c2\<lparr>disk := fs1\<rparr>) = Ret () (c2\<lparr>disk := fs2\<rparr>)"
    "fs2 = fs1 \<or> (\<exists>dir d. the_reporter c = Some dir \<and> report (w_env w) dir IoLeak ms2 d fs1 = Ret () fs2)"
    by (auto simp: c2_def)
  obtain m where 3: "Disable (w_platform w) (monitor (io_part c)) = Ret () m"
    using Disable_unlocked [OF assms(3)] by blast
  have "Shutdown w ms1 ms2 c = Ret () (c2\<lparr>disk := fs2, io_part := (io_part c)\<lparr>monitor := m\<rparr>, the_reporter := None,
      the_config := default_config, is_initialized := False\<rparr>)"
    using assms(1) 1 2(1) 3 by (simp add: Shutdown_def Let_def disable_io_def c2_def)
  with 1 2 3 show ?thesis by blast
qed

text \<open>In particular on Linux and macOS.\<close>

lemmas Shutdown_steps = Shutdown_steps_plain [OF _ plain_posix]

lemma Shutdown_posix:
  assumes "is_initialized c" "w_platform w \<noteq> Windows" "\<not> locked (monitor (io_part c))"
    and "\<And>a n. w_resolve w a n \<noteq> None" and "serialisable w c"
  obtains fs1 fs2 m where
    "run_leak_detection w ms1 (c\<lparr>crash := Uninstall (w_platform w) (crash c), cpu := cpu_Stop (cpu c)\<rparr>) =
       Ret () (c\<lparr>crash := Uninstall (w_platform w) (crash c), cpu := cpu_Stop (cpu c), disk := fs1\<rparr>)"
    "fs2 = fs1 \<or> (\<exists>dir d. the_reporter c = Some dir \<and> report (w_env w) dir IoLeak ms2 d fs1 = Ret () fs2)"
    "Disable (w_platform w) (monitor (io_part c)) = Ret () m"
    "Shutdown w ms1 ms2 c = Ret () (c\<lparr>crash := Uninstall (w_platform w) (crash c), cpu := cpu_Stop (cpu c),
       disk := fs2, io_part := (io_part c)\<lparr>monitor := m\<rparr>, the_reporter := None, the_config := default_config,
       is_initialized := False\<rparr>)"
proof -
  from Shutdown_steps [OF assms, of ms1 ms2] show thesis by (elim exE conjE) (rule that)
qed

lemma cpu_Stop_off: "cpu_inv s \<Longrightarrow> \<not> joining s \<Longrightarrow>
    \<not> running (cpu_Stop s) \<and> loop (cpu_Stop s) = L_None \<and> thread_states (cpu_Stop s) = Map.empty"
  by (simp add: cpu_Stop_def cpu_Stop_end_def cpu_inv_def)

lemma Uninstall_off: "\<not> installed (Uninstall pf c)"
  by (simp add: Uninstall_def Let_def restore_signals_spec)

text \<open>What \<open>Init\<close> leaves behind.\<close>

lemma Init_setup_kept:
  assumes "Init_setup w cfg c = Ret () t"
  shows "the_config t = cfg \<and> the_reporter t = Some (output_dir cfg) \<and> is_initialized t = is_initialized c \<and>
    disk t = disk c \<and> cpu t = cpu c \<and> crash t = crash c \<and> monitor (io_part t) = monitor (io_part c) \<and>
    (\<exists>c1. init_hooks w (c\<lparr>the_config := cfg\<rparr>) = Ret () c1 \<and> same_hooks (alloc_hooks c1) (alloc_hooks t))"
proof -
  obtain c1 c2 c3 p c4 c5 where
    s1: "init_hooks w (c\<lparr>the_config := cfg\<rparr>) = Ret () c1" and
    s2: "on_alloc (Initialize (w_os w) (allocator_capacity_bytes cfg)) c1 = Ret () c2" and
    s3: "on_alloc (w_string w (output_dir cfg)) c2 = Ret () c3" and
    s4: "on_alloc (Allocate (w_os w) (w_reporter_size w) 16) c3 = Ret p c4" and
    s5: "on_alloc (w_string w (output_dir cfg)) c4 = Ret () c5" and
    t: "t = c5\<lparr>the_reporter := Some (output_dir cfg)\<rparr>"
    using assms by (auto simp: Init_setup_def obind_Ret_iff)
  have "same_hooks (alloc_hooks c1) (alloc_hooks c5)"
    using on_alloc_hooks [OF s2] on_alloc_hooks [OF s3] on_alloc_hooks [OF s4] on_alloc_hooks [OF s5]
    by (blast intro: same_hooks_trans)
  with s1 show ?thesis
    using init_hooks_kept [OF s1] on_alloc_kept [OF s2] on_alloc_kept [OF s3] on_alloc_kept [OF s4]
      on_alloc_kept [OF s5] by (simp add: t)
qed

lemma init_crash_kept:
  assumes "init_crash w cfg c = Ret () t"
  shows "the_reporter t = the_reporter c \<and> the_config t = the_config c \<and> is_initialized t = is_initialized c \<and>
    cpu t = cpu c \<and> io_part t = io_part c \<and> disk t = disk c \<and> same_hooks (alloc_hooks c) (alloc_hooks t) \<and>
    (enable_crash_handler cfg \<longrightarrow> installed (crash t)) \<and> (\<not> enable_crash_handler cfg \<longrightarrow> crash t = crash c)"
  using assms install_crash_kept install_crash_hooks
  by (fastforce simp: init_crash_def same_hooks_refl split: if_splits)

lemma Init_result:
  assumes "Init w cfg c = Ret () t" "\<not> is_initialized c"
  shows "is_initialized t \<and> the_config t = cfg \<and> the_reporter t = Some (output_dir cfg) \<and> disk t = disk c \<and>
    (enable_crash_handler cfg \<longrightarrow> installed (crash t)) \<and> (\<not> enable_crash_handler cfg \<longrightarrow> crash t = crash c) \<and>
    monitor (io_part t) = (if enable_io_monitoring cfg then Enable (w_platform w) (monitor (io_part c)) else monitor (io_part c)) \<and>
    cpu t = (if enable_cpu_profiler cfg then cpu_Start (cpu c) else cpu c) \<and>
    (\<exists>c1. init_hooks w (c\<lparr>the_config := cfg\<rparr>) = Ret () c1 \<and> same_hooks (alloc_hooks c1) (alloc_hooks t))"
proof -
  obtain c6 c7 where s: "Init_setup w cfg c = Ret () c6" "init_crash w cfg c6 = Ret () c7"
    "t = (init_cpu cfg (init_io w cfg c7))\<lparr>is_initialized := True\<rparr>"
    using assms by (auto simp: Init_def obind_Ret_iff)
  show ?thesis
    using Init_setup_kept [OF s(1)] init_crash_kept [OF s(2)]
    by (auto simp: s(3) init_cpu_def init_io_def intro: same_hooks_trans)
qed

text \<open>After \<open>Init\<close> on Linux the hooks are in place, and the table is empty if it was before.\<close>

lemma Init_tracking:
  assumes "Init w cfg c = Ret () t" "\<not> is_initialized c" "w_platform w = Linux" "dlsym_ok (w_host w)"
    and "hooks_initialized (alloc_hooks c) \<longrightarrow> hooks_ready (alloc_hooks c) \<and> tracked (alloc_hooks c) = Map.empty"
  shows "hooks_ready (alloc_hooks t) \<and> tracked (alloc_hooks t) = Map.empty"
proof -
  obtain c1 where c1: "init_hooks w (c\<lparr>the_config := cfg\<rparr>) = Ret () c1" "same_hooks (alloc_hooks c1) (alloc_hooks t)"
    using Init_result [OF assms(1,2)] by blast
  then have e: "EnsureInit (w_host w) (alloc_hooks c) = Ret () (alloc_hooks c1)"
    using assms(3) by (auto simp: init_hooks_def obind_Ret_iff)
  have "hooks_ready (alloc_hooks c1) \<and> tracked (alloc_hooks c1) = Map.empty"
  proof (cases "hooks_initialized (alloc_hooks c)")
    case True
    with e assms(5) show ?thesis by (simp add: EnsureInit_def)
  next
    case False
    with e obtain h where i: "InitHooks (w_host w) ((alloc_hooks c)\<lparr>hooks_initializing := True\<rparr>) = Ret () h"
      and h: "alloc_hooks c1 = h\<lparr>hooks_initialized := True\<rparr>"
      by (auto simp: EnsureInit_def obind_Ret_iff split: if_splits)
    from InitHooks_ready [OF assms(4) i] show ?thesis by (simp add: h hooks_ready_def tracked_def)
  qed
  with c1(2) show ?thesis by (simp add: same_hooks_def)
qed

end
