(* ===== verification/Core_Demo.thy ===== *)
theory Core_Demo
  imports Core
begin

text \<open>
  A concrete process in which the properties of the core are instantiated: a bump-allocating system,
  a C library, a kernel and a loader (from the component theories), and \<open>Init\<close> evaluated in them.
\<close>

text \<open>Memory in which every word is 0, no address belongs to an image, and the tracer knows one symbol.\<close>

definition flat_process :: process where
  "flat_process =
     \<lparr>mem_word = (\<lambda>a. Some 0), mem_dword = (\<lambda>a. Some 0), msvc_name = (\<lambda>a. None), mem_text = (\<lambda>a. None),
      module_of = (\<lambda>a. False), header_of = (\<lambda>a. 0), bad_read = (\<lambda>a n. True), dl_addr = (\<lambda>a. None),
      demangle = (\<lambda>s. None), symbolize = (\<lambda>a. Some ''vtable for Widget'')\<rparr>"

text \<open>A world in which the properties are instantiated.\<close>

definition demo_world :: "platform \<Rightarrow> (demo_heap, demo_kernel) world" where
  "demo_world pf =
     \<lparr>w_platform = pf, w_host = demo_host, w_io_host = demo_io_host, w_image = demo_image, w_env = demo_env,
      w_string = (\<lambda>s al. Ret () al), w_reporter_size = 40, w_iter = demo_iter, w_fd_iter = demo_fd_iter,
      w_heap = Windows_Heap [], w_toolchain = (if pf = Windows then MSVC else Posix), w_process = flat_process,
      w_file_handle = 64, w_stream_detoured = True\<rparr>"

lemma demo_resolve:
  "w_resolve (demo_world pf) a n = Some (if n < 8 \<or> pf = Windows then '''' else ''Widget'')"
  by (auto simp: w_resolve_def demo_world_def flat_process_def resolve_type_def word_bytes_def resolve_layout_def
      resolve_posix_def resolve_symbol_def c_str_def not_less)

lemma demo_world_resolves: "w_resolve (demo_world pf) a n \<noteq> None" "resolved_texts utf8_ok (w_resolve (demo_world pf))"
  by (auto simp: demo_resolve resolved_texts_def after_char_def byte_in_def)

text \<open>The serialiser has no part in it.\<close>

lemma resolve_other_env [simp]: "w_resolve (w\<lparr>w_env := e\<rparr>) = w_resolve w"
  by (simp add: w_resolve_def)

definition demo_core :: "(demo_heap, demo_kernel) core_state" where
  "demo_core =
     \<lparr>the_reporter = Some ''/tmp'', the_config = default_config\<lparr>enable_leak_detection := True\<rparr>,
      is_initialized = True, alloc_hooks = demo_one, io_part = demo_io, cpu = cpu_start, crash = demo_crash,
      disk = Map.empty\<rparr>"

text \<open>A process in which Domovoy has not been started, and a full configuration.\<close>

definition fresh_core :: "(demo_heap, demo_kernel) core_state" where
  "fresh_core =
     \<lparr>the_reporter = None, the_config = default_config, is_initialized = False,
      alloc_hooks = fresh_hooks (Map.empty, 4096), io_part = demo_io\<lparr>monitor := io_start\<rparr>, cpu = cpu_start,
      crash = demo_crash, disk = Map.empty\<rparr>"

definition full_config :: domovoy_config where
  "full_config =
     \<lparr>allocator_capacity_bytes = 8 * 1024 * 1024, enable_leak_detection = True,
      enable_heap_corruption_detection = False, enable_cpu_profiler = True,
      enable_io_monitoring = True, enable_crash_handler = False,
      leak_flags = \<lparr>enable_leak_report_summary = True, enable_leak_report_details = True\<rparr>,
      output_dir = ''/tmp''\<rparr>"

lemma demo_Init: "\<exists>t. Init (demo_world MacOS) full_config fresh_core = Ret () t"
proof -
  have head: "(8 * 1024 * 1024 :: u64) = 8388608" by simp
  have "\<exists>al. Initialize linear_os (8 * 1024 * 1024) empty_alloc = Ret () al \<and>
      (\<exists>p al'. Allocate linear_os 40 16 al = Ret p al')"
    by (simp add: Initialize_def AllocateOSBlock_def linear_os_def Let_def sizeof_Block_def max_def
        Allocate_def ensure_head_def alloc_in_chain_def try_block_def align_addr_def)
  then show ?thesis
    by (auto simp: Init_defs init_hooks_def on_alloc_def put_alloc_def demo_world_def demo_host_def fresh_core_def
        full_config_def fresh_hooks_def Let_def)
qed

lemma demo_init_hooks: "\<exists>c1. init_hooks (demo_world Linux) fresh_core = Ret () c1"
proof -
  let ?st = "fresh_hooks (Map.empty, 4096) :: demo_heap hooks"
  obtain s where "InitHooks demo_host (?st\<lparr>hooks_initializing := True\<rparr>) =
       obind (Allocate (host_os demo_host) (fst (host_map_layout demo_host)) (snd (host_map_layout demo_host))
           (isolated (?st\<lparr>hooks_initializing := True\<rparr>)))
         (\<lambda>_ al. Ret () (s\<lparr>isolated := al, g_allocations := Some Map.empty\<rparr>))
         (\<lambda>al. s\<lparr>isolated := al\<rparr>)"
    by (rule InitHooks_result [OF demo_dlsym_ok])
  then have "\<exists>t. EnsureInit demo_host ?st = Ret () t"
    using demo_Allocate by (auto simp: EnsureInit_def fresh_hooks_def)
  moreover have "\<exists>i. EnsureIoInit demo_io_host (demo_io\<lparr>monitor := io_start\<rparr>) = Ret () i"
    by (simp add: EnsureIoInit_def demo_io_def)
  ultimately show ?thesis
    by (auto simp: init_hooks_def demo_world_def fresh_core_def)
qed

text \<open>On Linux \<open>Init\<close> returns for every configuration, whatever the serialiser.\<close>

lemma demo_Init_any:
  assumes "\<not> installed cr"
  shows "\<exists>c. Init ((demo_world Linux)\<lparr>w_env := e\<rparr>) cfg (fresh_core\<lparr>crash := cr\<rparr>) = Ret () c"
proof -
  let ?w = "(demo_world Linux)\<lparr>w_env := e\<rparr>" and ?c = "fresh_core\<lparr>crash := cr\<rparr>"
  let ?al = "\<lambda>used. \<lparr>head_block = [\<lparr>bk_base = 4096, bk_memory = 4128, bk_size = 2097152, bk_used = used\<rparr>],
              maps = [(4096, 2097184)]\<rparr>"
  have 1: "Allocate linear_os 1024 8 empty_alloc = Ret 4128 (?al 1024)"
    by (simp add: Allocate_def ensure_head_def AllocateOSBlock_def linear_os_def alloc_in_chain_def Let_def
        try_block_def align_addr_def sizeof_Block_def)
  have 2: "Initialize linear_os n (?al 1024) = Ret () (?al 1024)" for n by (simp add: Initialize_def)
  have 3: "Allocate linear_os 40 16 (?al 1024) = Ret 5152 (?al 1064)"
    by (simp add: Allocate_def ensure_head_def alloc_in_chain_def Let_def try_block_def align_addr_def)
  have 4: "\<exists>p al'. Allocate linear_os 8192 16 (?al 1064) = Ret p al'"
    by (simp add: Allocate_def ensure_head_def alloc_in_chain_def Let_def try_block_def align_addr_def)
  have fresh: "hooks_initialized (alloc_hooks fresh_core) = False" "hooks_initializing (alloc_hooks fresh_core) = False"
    "isolated (alloc_hooks fresh_core) = empty_alloc" "is_initialized fresh_core = False"
    "io_hooks_initialized (io_part fresh_core) = False" "io_hooks_initializing (io_part fresh_core) = False"
    by (simp_all add: fresh_core_def fresh_hooks_def demo_io_def)
  have dlsym: "host_dlsym demo_host name s = Ret 1 s" for name s by (simp add: demo_host_def)
  have layout: "host_map_layout demo_host = (1024, 8)" "host_os demo_host = linear_os" by (simp_all add: demo_host_def)
  have w: "w_platform ?w = Linux" "w_host ?w = demo_host" "w_io_host ?w = demo_io_host"
    "w_string ?w = (\<lambda>s al. Ret () al)" "w_reporter_size ?w = 40" "w_image ?w = demo_image"
    by (simp_all add: demo_world_def)
  have "\<exists>h. EnsureInit demo_host (alloc_hooks fresh_core) = Ret () h \<and> isolated h = ?al 1024"
    by (simp add: EnsureInit_def InitHooks_def fresh(1-3) dlsym layout 1 Let_def)
  then obtain h where h: "EnsureInit demo_host (alloc_hooks fresh_core) = Ret () h" "isolated h = ?al 1024" by blast
  have "\<exists>i. EnsureIoInit demo_io_host (io_part fresh_core) = Ret () i"
    by (simp add: EnsureIoInit_def fresh(5,6))
  then obtain i where i: "EnsureIoInit demo_io_host (io_part fresh_core) = Ret () i" by blast
  obtain c6 where c6: "Init_setup ?w cfg ?c = Ret () c6" "isolated (alloc_hooks c6) = ?al 1064"
    using h i by (simp add: Init_setup_def init_hooks_def on_alloc_def put_alloc_def w layout 2 3)
  have "crash c6 = cr" using Init_setup_kept [OF c6(1)] by simp
  then have "\<exists>c7. init_crash ?w cfg c6 = Ret () c7"
    using 4 assms by (auto simp: init_crash_def install_crash_def Install_def w layout c6(2) demo_image_def)
  then obtain c7 where "init_crash ?w cfg c6 = Ret () c7" by blast
  with c6(1) fresh(4) show ?thesis by (simp add: Init_def)
qed

lemma demo_Init_Linux: "\<exists>c. Init (demo_world Linux) full_config fresh_core = Ret () c"
proof -
  have "(demo_world Linux)\<lparr>w_env := demo_env\<rparr> = demo_world Linux" "fresh_core\<lparr>crash := demo_crash\<rparr> = fresh_core"
    "\<not> installed demo_crash"
    by (simp_all add: demo_world_def fresh_core_def demo_crash_def)
  with demo_Init_any [of demo_crash demo_env full_config] show ?thesis by simp
qed

lemma demo_Init_heap:
  assumes "Init (demo_world Linux) full_config fresh_core = Ret () c"
  shows "heap (alloc_hooks c) = (Map.empty, 4096)"
proof -
  have "\<not> is_initialized fresh_core" by (simp add: fresh_core_def)
  from Init_result [OF assms this] obtain c1 where
    c1: "init_hooks (demo_world Linux) (fresh_core\<lparr>the_config := full_config\<rparr>) = Ret () c1"
    "same_hooks (alloc_hooks c1) (alloc_hooks c)" by blast
  have "EnsureInit demo_host (alloc_hooks fresh_core) = Ret () (alloc_hooks c1)"
    using c1(1) by (auto simp: init_hooks_def obind_Ret_iff demo_world_def)
  then have "heap (alloc_hooks c1) = heap (alloc_hooks fresh_core)"
    by (auto simp: EnsureInit_def InitHooks_def demo_host_def obind_Ret_iff Let_def split: if_splits
        dest!: arg_cong [where f = heap])
  then show ?thesis using c1(2) by (simp add: same_hooks_def fresh_core_def fresh_hooks_def)
qed

text \<open>Starting with the CPU profiler and the crash handler, on macOS.\<close>

definition crash_config :: domovoy_config where
  "crash_config = full_config\<lparr>enable_crash_handler := True\<rparr>"

lemma demo_setup:
  "\<exists>c6 c7. Init_setup (demo_world MacOS) crash_config fresh_core = Ret () c6 \<and>
     init_crash (demo_world MacOS) crash_config c6 = Ret () c7 \<and> installed (crash c7)"
proof -
  have "(8 * 1024 * 1024 :: u64) = 8388608" by simp
  then have "\<exists>al. Initialize linear_os (8 * 1024 * 1024) empty_alloc = Ret () al \<and>
      (\<exists>p al'. Allocate linear_os 40 16 al = Ret p al' \<and> (\<exists>q al''. Allocate linear_os 8192 16 al' = Ret q al''))"
    by (simp add: Initialize_def AllocateOSBlock_def linear_os_def Let_def sizeof_Block_def max_def
        Allocate_def ensure_head_def alloc_in_chain_def try_block_def align_addr_def)
  then obtain al p al' q al'' where al: "Initialize linear_os (8 * 1024 * 1024) empty_alloc = Ret () al"
    "Allocate linear_os 40 16 al = Ret p al'" "Allocate linear_os 8192 16 al' = Ret q al''" by blast
  obtain c6 where c6: "Init_setup (demo_world MacOS) crash_config fresh_core = Ret () c6"
    "isolated (alloc_hooks c6) = al'"
    using al by (auto simp: Init_setup_def init_hooks_def on_alloc_def put_alloc_def demo_world_def demo_host_def
        fresh_core_def full_config_def crash_config_def fresh_hooks_def)
  then have "crash c6 = demo_crash" using Init_setup_kept [OF c6(1)] by (simp add: fresh_core_def)
  then have "\<exists>c7. install_crash (demo_world MacOS) c6 = Ret () c7"
    using al(3) c6(2) by (simp add: install_crash_def Install_def demo_crash_def demo_image_def demo_world_def demo_host_def)
  then obtain c7 where "init_crash (demo_world MacOS) crash_config c6 = Ret () c7"
    by (auto simp: init_crash_def crash_config_def)
  with c6(1) init_crash_kept [OF this] show ?thesis by (auto simp: crash_config_def)
qed

lemma fresh_core_fields:
  "\<not> is_initialized fresh_core" "the_reporter fresh_core = None" "cpu fresh_core = cpu_start"
  "\<not> installed (crash fresh_core)" "\<not> locked (monitor (io_part fresh_core))"
  by (simp_all add: fresh_core_def demo_crash_def io_start_def)

end
