(* ===== verification/Core_Threads.thy ===== *)
theory Core_Threads
  imports Core_Demo
begin

text \<open>
  \<open>DomovoyCore\<close> among threads (src/core.cpp, with src/profiler/cpu_monitor.cpp and src/crash_handler.cpp).
  The application's thread calls \<open>Init\<close> and \<open>Shutdown\<close>, statement by statement; the monitor thread runs
  its loop; any other thread may crash and run the signal handler. All of them use the reporter
  object, which \<open>Shutdown\<close> destroys: \<open>alive\<close> says that it is constructed and not destroyed, and
  \<open>used_dead\<close> records that a report was made through a pointer to a destroyed one.

  An exception of the reporter ends \<open>Shutdown\<close> early; the process goes on, and \<open>Shutdown\<close> may be called
  again. With \<open>strict\<close>, \<open>Shutdown\<close> is not called while a handler runs. A second \<open>Init\<close>, or a \<open>Shutdown\<close> before
  \<open>Init\<close>, returns at once and is no step.
\<close>

section \<open>Threads and steps\<close>

datatype main_pc =
    Ready
  | Init_Crash domovoy_config | Init_Io domovoy_config | Init_Cpu domovoy_config | Init_Done
  | Stop_Cpu | Stop_Join | Stop_Leaks | Stop_Fds | Stop_Io | Stop_Destroy | Stop_Null | Stop_Reset

text \<open>The handler generates its trace, then reads the reporter pointer, then calls it.\<close>

datatype handler_pc = No_Crash | Tracing nat | Reporting nat string

record ('h, 'k) core_threads =
  core :: "('h, 'k) core_state"
  main :: main_pc
  handlers :: "nat \<Rightarrow> handler_pc"
  alive :: bool
  used_dead :: bool

datatype core_actor = Main | Monitor | Crashing nat

definition set_core :: "('h, 'k) core_state \<Rightarrow> main_pc \<Rightarrow> ('h, 'k) core_threads \<Rightarrow> ('h, 'k) core_threads" where
  "set_core c pc s = s\<lparr>core := c, main := pc\<rparr>"

text \<open>A call through the reporter pointer.\<close>

definition call_reporter :: "('h, 'k) core_threads \<Rightarrow> ('h, 'k) core_threads" where
  "call_reporter s = s\<lparr>used_dead := used_dead s \<or> \<not> alive s\<rparr>"

text \<open>The reports of one scan, in order: each has the trace and the time of its own call.\<close>

fun capture_all ::
  "('h, 'k) world \<Rightarrow> (u64 \<Rightarrow> frame list) \<Rightarrow> (u64 \<Rightarrow> int) \<Rightarrow> string option \<Rightarrow> u64 list \<Rightarrow> files \<Rightarrow> (unit, files) outcome" where
  "capture_all w trace ms dir [] fs = Ret () fs"
| "capture_all w trace ms dir (tid # tids) fs =
     obnd (CaptureBacktraceForThread (trace tid) (map_option (\<lambda>d. report (w_env w) d HighCpu (ms tid)) dir) tid fs)
       (\<lambda>_ fs'. capture_all w trace ms dir tids fs')"

definition monitor_checks :: "u64 list \<Rightarrow> cpu_monitor \<Rightarrow> files \<Rightarrow> ('h, 'k) core_threads \<Rightarrow> ('h, 'k) core_threads" where
  "monitor_checks hot m fs s =
     (let t = s\<lparr>core := (core s)\<lparr>cpu := m, disk := fs\<rparr>\<rparr>
      in if hot \<noteq> [] \<and> GetReporter (core s) \<noteq> None then call_reporter t else t)"

text \<open>One \<open>CheckThreadsForHighCpu\<close> in the monitor thread, if \<open>trace\<close> and \<open>ms\<close> are what the stack and the
  clock are for each report. (An exception out of it would end the process.)\<close>

definition monitor_scan ::
  "('h, 'k) world \<Rightarrow> (thread_map \<Rightarrow> u64 list \<times> thread_map) \<Rightarrow> (u64 \<Rightarrow> frame list) \<Rightarrow> (u64 \<Rightarrow> int) \<Rightarrow>
   ('h, 'k) core_threads \<Rightarrow> (unit, ('h, 'k) core_threads) outcome" where
  "monitor_scan w scan trace ms s =
     (let (hot, states) = scan (thread_states (cpu (core s)));
          m = (cpu (core s))\<lparr>loop := L_Test, thread_states := states\<rparr>
      in obind (capture_all w trace ms (GetReporter (core s)) hot (disk (core s)))
           (\<lambda>_ fs. Ret () (monitor_checks hot m fs s)) (\<lambda>fs. monitor_checks hot (cpu (core s)) fs s))"

text \<open>\<open>Shutdown\<close> has two more ends: an exception of the reporter leaves it, after the leak report or the
  descriptor report. In the monitor thread or in a handler such an exception would end the process; their
  steps are those in which the report returns. The handlers belong to threads other than the main one.\<close>

inductive core_step ::
  "('h, 'k) world \<Rightarrow> (thread_map \<Rightarrow> u64 list \<times> thread_map) \<Rightarrow> bool \<Rightarrow> core_actor \<Rightarrow>
   ('h, 'k) core_threads \<Rightarrow> ('h, 'k) core_threads \<Rightarrow> bool"
  for w :: "('h, 'k) world" and scan :: "thread_map \<Rightarrow> u64 list \<times> thread_map" and strict :: bool where
  init: "\<lbrakk>main s = Ready; \<not> is_initialized (core s); Init_setup w cfg (core s) = Ret () c\<rbrakk> \<Longrightarrow>
    core_step w scan strict Main s (set_core c (Init_Crash cfg) (s\<lparr>alive := True\<rparr>))"
| crash_on: "\<lbrakk>main s = Init_Crash cfg; init_crash w cfg (core s) = Ret () c\<rbrakk> \<Longrightarrow>
    core_step w scan strict Main s (set_core c (Init_Io cfg) s)"
| io_on: "main s = Init_Io cfg \<Longrightarrow>
    core_step w scan strict Main s (set_core (init_io w cfg (core s)) (Init_Cpu cfg) s)"
| cpu_on: "main s = Init_Cpu cfg \<Longrightarrow>
    core_step w scan strict Main s (set_core (init_cpu cfg (core s)) Init_Done s)"
| init_done: "main s = Init_Done \<Longrightarrow>
    core_step w scan strict Main s (set_core ((core s)\<lparr>is_initialized := True\<rparr>) Ready s)"
| crash_off: "\<lbrakk>main s = Ready; is_initialized (core s); strict \<longrightarrow> (\<forall>i. handlers s i = No_Crash)\<rbrakk> \<Longrightarrow>
    core_step w scan strict Main s
      (set_core ((core s)\<lparr>crash := Uninstall (w_platform w) (crash (core s))\<rparr>) Stop_Cpu s)"
| cpu_off: "main s = Stop_Cpu \<Longrightarrow>
    core_step w scan strict Main s (set_core ((core s)\<lparr>cpu := cpu_Stop_begin (cpu (core s))\<rparr>) Stop_Join s)"
| no_join: "\<lbrakk>main s = Stop_Join; \<not> joining (cpu (core s))\<rbrakk> \<Longrightarrow>
    core_step w scan strict Main s (set_core (core s) Stop_Leaks s)"
| join: "\<lbrakk>main s = Stop_Join; joining (cpu (core s)); loop (cpu (core s)) = L_Done\<rbrakk> \<Longrightarrow>
    core_step w scan strict Main s (set_core ((core s)\<lparr>cpu := cpu_Stop_end (cpu (core s))\<rparr>) Stop_Leaks s)"
| leaks: "\<lbrakk>main s = Stop_Leaks; run_leak_detection w ms (core s) = Ret () c\<rbrakk> \<Longrightarrow>
    core_step w scan strict Main s
      ((if GetReporter (core s) = None then id else call_reporter) (set_core c Stop_Fds s))"
| leaks_throw: "\<lbrakk>main s = Stop_Leaks; run_leak_detection w ms (core s) = Throw c\<rbrakk> \<Longrightarrow>
    core_step w scan strict Main s (call_reporter (set_core c Ready s))"
| fds: "\<lbrakk>main s = Stop_Fds; report_fds w ms (core s) = Ret () c\<rbrakk> \<Longrightarrow>
    core_step w scan strict Main s
      ((if GetReporter (core s) = None then id else call_reporter) (set_core c Stop_Io s))"
| fds_throw: "\<lbrakk>main s = Stop_Fds; report_fds w ms (core s) = Throw c\<rbrakk> \<Longrightarrow>
    core_step w scan strict Main s (call_reporter (set_core c Ready s))"
| io_off: "\<lbrakk>main s = Stop_Io; disable_io w (core s) = Ret () c\<rbrakk> \<Longrightarrow>
    core_step w scan strict Main s (set_core c Stop_Destroy s)"
| destroy: "main s = Stop_Destroy \<Longrightarrow>
    core_step w scan strict Main s
      (set_core (core s) Stop_Null (s\<lparr>alive := alive s \<and> GetReporter (core s) = None\<rparr>))"
| clear: "main s = Stop_Null \<Longrightarrow>
    core_step w scan strict Main s (set_core ((core s)\<lparr>the_reporter := None\<rparr>) Stop_Reset s)"
| reset: "main s = Stop_Reset \<Longrightarrow>
    core_step w scan strict Main s
      (set_core ((core s)\<lparr>the_config := default_config, is_initialized := False\<rparr>) Ready s)"
| walk: "\<lbrakk>loop (cpu (core s)) \<noteq> L_Check; cpu_step (snd \<circ> scan) Monitor_Thread (cpu (core s)) m\<rbrakk> \<Longrightarrow>
    core_step w scan strict Monitor s (s\<lparr>core := (core s)\<lparr>cpu := m\<rparr>\<rparr>)"
| check: "\<lbrakk>loop (cpu (core s)) = L_Check; cpu_step (snd \<circ> scan) Monitor_Thread (cpu (core s)) m;
    hot = fst (scan (thread_states (cpu (core s))));
    capture_all w trace mss (GetReporter (core s)) hot (disk (core s)) = Ret () fs\<rbrakk> \<Longrightarrow>
    core_step w scan strict Monitor s (monitor_checks hot m fs s)"
| crash: "\<lbrakk>handlers s i = No_Crash; w_platform w \<noteq> Windows; installed (crash (core s));
    sig \<in> set (crash_signals (w_platform w))\<rbrakk> \<Longrightarrow>
    core_step w scan strict (Crashing i) s (s\<lparr>handlers := (handlers s)(i := Tracing sig)\<rparr>)"
| read: "handlers s i = Tracing sig \<Longrightarrow>
    core_step w scan strict (Crashing i) s (s\<lparr>handlers := (handlers s)(i :=
      (case GetReporter (core s) of None \<Rightarrow> No_Crash | Some dir \<Rightarrow> Reporting sig dir))\<rparr>)"
| report_crash: "\<lbrakk>handlers s i = Reporting sig dir;
    report (w_env w) dir CrashReport ms (crash_report (JInt (int sig)) trace) (disk (core s)) = Ret () fs\<rbrakk> \<Longrightarrow>
    core_step w scan strict (Crashing i) s (call_reporter (s\<lparr>handlers := (handlers s)(i := No_Crash),
      core := (core s)\<lparr>disk := fs\<rparr>\<rparr>))"

inductive_cases core_stepE: "core_step w scan strict a s t"

text \<open>At the scan, the monitor thread's steps are \<open>monitor_scan\<close>, for all traces and clocks.\<close>

lemma check_step_iff:
  assumes "loop (cpu (core s)) = L_Check"
  shows "core_step w scan strict Monitor s t \<longleftrightarrow> (\<exists>trace ms. monitor_scan w scan trace ms s = Ret () t)"
proof -
  obtain hot states where sc: "scan (thread_states (cpu (core s))) = (hot, states)" by fastforce
  let ?m = "(cpu (core s))\<lparr>loop := L_Test, thread_states := states\<rparr>"
  have st: "cpu_step (snd \<circ> scan) Monitor_Thread (cpu (core s)) m \<longleftrightarrow> m = ?m" for m
    using assms sc by (auto simp: monitor_step_simps)
  have scan: "monitor_scan w scan trace ms s = Ret () t \<longleftrightarrow>
      (\<exists>fs. capture_all w trace ms (GetReporter (core s)) hot (disk (core s)) = Ret () fs \<and> t = monitor_checks hot ?m fs s)"
    for trace ms by (auto simp: monitor_scan_def sc obind_Ret_iff)
  show ?thesis
  proof
    assume "core_step w scan strict Monitor s t"
    then show "\<exists>trace ms. monitor_scan w scan trace ms s = Ret () t"
      unfolding scan using assms sc by (auto elim!: core_stepE simp: st) blast
  next
    assume "\<exists>trace ms. monitor_scan w scan trace ms s = Ret () t"
    then obtain trace ms fs where "capture_all w trace ms (GetReporter (core s)) hot (disk (core s)) = Ret () fs"
      "t = monitor_checks hot ?m fs s" unfolding scan by blast
    with core_step.check [of s scan ?m hot w trace ms fs strict] assms sc st show "core_step w scan strict Monitor s t" by simp
  qed
qed

text \<open>A process in which Domovoy has not been started.\<close>

definition not_started :: "('h, 'k) core_state \<Rightarrow> bool" where
  "not_started c \<longleftrightarrow> \<not> is_initialized c \<and> the_reporter c = None \<and> cpu c = cpu_start \<and>
     \<not> installed (crash c) \<and> \<not> locked (monitor (io_part c))"

definition core_start :: "('h, 'k) core_state \<Rightarrow> ('h, 'k) core_threads" where
  "core_start c = \<lparr>core = c, main = Ready, handlers = (\<lambda>_. No_Crash), alive = False, used_dead = False\<rparr>"

inductive core_reach ::
  "('h, 'k) world \<Rightarrow> (thread_map \<Rightarrow> u64 list \<times> thread_map) \<Rightarrow> bool \<Rightarrow> ('h, 'k) core_state \<Rightarrow>
   ('h, 'k) core_threads \<Rightarrow> bool"
  for w :: "('h, 'k) world" and scan :: "thread_map \<Rightarrow> u64 list \<times> thread_map" and strict :: bool
    and c0 :: "('h, 'k) core_state" where
  start: "core_reach w scan strict c0 (core_start c0)"
| step: "\<lbrakk>core_reach w scan strict c0 s; core_step w scan strict a s t\<rbrakk> \<Longrightarrow> core_reach w scan strict c0 t"

section \<open>The invariant\<close>

text \<open>The reporter may be used; the handlers may be installed; the monitor thread may run.\<close>

fun in_session :: "main_pc \<Rightarrow> bool \<Rightarrow> bool" where
  "in_session Ready on = on"
| "in_session Stop_Null on = False"
| "in_session Stop_Reset on = False"
| "in_session _ on = True"

fun listening :: "main_pc \<Rightarrow> bool \<Rightarrow> bool" where
  "listening Ready on = on"
| "listening (Init_Io cfg) on = True"
| "listening (Init_Cpu cfg) on = True"
| "listening Init_Done on = True"
| "listening _ on = False"

fun monitoring :: "main_pc \<Rightarrow> bool \<Rightarrow> bool" where
  "monitoring Ready on = on"
| "monitoring Init_Done on = True"
| "monitoring Stop_Cpu on = True"
| "monitoring Stop_Join on = True"
| "monitoring _ on = False"

text \<open>How far \<open>Shutdown\<close> is from its end; 0 outside it.\<close>

fun stop_rank :: "main_pc \<Rightarrow> nat" where
  "stop_rank Stop_Cpu = 8"
| "stop_rank Stop_Join = 7"
| "stop_rank Stop_Leaks = 6"
| "stop_rank Stop_Fds = 5"
| "stop_rank Stop_Io = 4"
| "stop_rank Stop_Destroy = 3"
| "stop_rank Stop_Null = 2"
| "stop_rank Stop_Reset = 1"
| "stop_rank _ = 0"

definition reporter_ok :: "('h, 'k) core_threads \<Rightarrow> bool" where
  "reporter_ok s \<longleftrightarrow>
     (if in_session (main s) (is_initialized (core s)) then alive s \<and> the_reporter (core s) \<noteq> None
      else \<not> alive s \<and> (main s = Stop_Null \<or> the_reporter (core s) = None)) \<and>
     (stop_rank (main s) > 0 \<longrightarrow> is_initialized (core s))"

definition monitor_ok :: "('h, 'k) core_threads \<Rightarrow> bool" where
  "monitor_ok s \<longleftrightarrow> cpu_inv (cpu (core s)) \<and>
     (running (cpu (core s)) \<longrightarrow> monitoring (main s) (is_initialized (core s)) \<and> main s \<noteq> Stop_Join) \<and>
     (joining (cpu (core s)) \<longrightarrow> main s = Stop_Join)"

definition handlers_ok :: "bool \<Rightarrow> ('h, 'k) core_threads \<Rightarrow> bool" where
  "handlers_ok strict s \<longleftrightarrow>
     (installed (crash (core s)) \<longrightarrow> listening (main s) (is_initialized (core s))) \<and>
     (strict \<longrightarrow> \<not> used_dead s \<and>
        (\<forall>i. handlers s i \<noteq> No_Crash \<longrightarrow> listening (main s) (is_initialized (core s))))"

lemma listening_session: "listening pc on \<Longrightarrow> in_session pc on"
  by (cases "(pc, on)" rule: listening.cases) auto

lemma monitoring_session: "monitoring pc on \<Longrightarrow> in_session pc on"
  by (cases "(pc, on)" rule: monitoring.cases) auto

lemma run_leak_detection_kept:
  "run_leak_detection w ms c = Ret () t \<Longrightarrow> \<exists>fs. t = c\<lparr>disk := fs\<rparr>"
  "run_leak_detection w ms c = Throw t \<Longrightarrow> \<exists>fs. t = c\<lparr>disk := fs\<rparr>"
  by (auto simp: run_leak_detection_def obind_Ret_iff obind_Throw_iff)

lemma report_fds_kept:
  "report_fds w ms c = Ret () t \<Longrightarrow> \<exists>m fs. t = c\<lparr>io_part := (io_part c)\<lparr>monitor := m\<rparr>, disk := fs\<rparr>"
  "report_fds w ms c = Throw t \<Longrightarrow> \<exists>m fs. t = c\<lparr>io_part := (io_part c)\<lparr>monitor := m\<rparr>, disk := fs\<rparr>"
  by (auto simp: report_fds_def obind_Ret_iff obind_Throw_iff Let_def)

lemma disable_io_kept: "disable_io w c = Ret () t \<Longrightarrow> \<exists>m. t = c\<lparr>io_part := (io_part c)\<lparr>monitor := m\<rparr>\<rparr>"
  by (auto simp: disable_io_def obind_Ret_iff Let_def)

lemma set_core_fields [simp]:
  "core (set_core c pc s) = c" "main (set_core c pc s) = pc" "handlers (set_core c pc s) = handlers s"
  "alive (set_core c pc s) = alive s" "used_dead (set_core c pc s) = used_dead s"
  by (simp_all add: set_core_def)

lemma call_reporter_fields [simp]:
  "core (call_reporter s) = core s" "main (call_reporter s) = main s" "handlers (call_reporter s) = handlers s"
  "alive (call_reporter s) = alive s" "used_dead (call_reporter s) = (used_dead s \<or> \<not> alive s)"
  by (simp_all add: call_reporter_def)

lemma monitor_checks_fields [simp]:
  "main (monitor_checks hot m fs s) = main s" "handlers (monitor_checks hot m fs s) = handlers s"
  "alive (monitor_checks hot m fs s) = alive s"
  "core (monitor_checks hot m fs s) = (core s)\<lparr>cpu := m, disk := fs\<rparr>"
  "used_dead (monitor_checks hot m fs s) =
     (used_dead s \<or> hot \<noteq> [] \<and> the_reporter (core s) \<noteq> None \<and> \<not> alive s)"
  by (auto simp: monitor_checks_def Let_def GetReporter_def)

lemma init_io_fields [simp]:
  "the_reporter (init_io w cfg c) = the_reporter c" "is_initialized (init_io w cfg c) = is_initialized c"
  "cpu (init_io w cfg c) = cpu c" "crash (init_io w cfg c) = crash c"
  by (simp_all add: init_io_def)

lemma init_cpu_fields [simp]:
  "the_reporter (init_cpu cfg c) = the_reporter c" "is_initialized (init_cpu cfg c) = is_initialized c"
  "crash (init_cpu cfg c) = crash c" "io_part (init_cpu cfg c) = io_part c"
  by (simp_all add: init_cpu_def)

lemma reporter_ok_step: "core_step w scan strict a s t \<Longrightarrow> reporter_ok s \<Longrightarrow> reporter_ok t"
  by (erule core_stepE)
    (auto simp: reporter_ok_def GetReporter_def dest!: Init_setup_kept init_crash_kept
      run_leak_detection_kept report_fds_kept disable_io_kept)

lemma cpu_inv_calls:
  "cpu_inv m \<Longrightarrow> \<not> joining m \<Longrightarrow> cpu_inv (cpu_Start m)"
  "cpu_inv m \<Longrightarrow> \<not> joining m \<Longrightarrow> cpu_inv (cpu_Stop_begin m)"
  "cpu_inv m \<Longrightarrow> joining m \<Longrightarrow> loop m = L_Done \<Longrightarrow> cpu_inv (cpu_Stop_end m)"
  using cpu_inv_step [OF cpu_step.Start] cpu_inv_step [OF cpu_step.Stop] cpu_inv_step [OF cpu_step.Join] by blast+

lemma cpu_call_fields:
  "running (cpu_Start m)" "joining (cpu_Start m) = joining m" "\<not> running (cpu_Stop_begin m)"
  "joining (cpu_Stop_begin m) \<Longrightarrow> joining m \<or> running m"
  "running (cpu_Stop_end m) = running m" "\<not> joining (cpu_Stop_end m)"
  by (auto simp: cpu_Start_def cpu_Stop_begin_def cpu_Stop_end_def Let_def split: if_splits)

lemma monitor_ok_step: "core_step w scan strict a s t \<Longrightarrow> monitor_ok s \<Longrightarrow> monitor_ok t"
proof (erule core_stepE, goal_cases)
  case (18 m)
  then have "cpu_inv m" using cpu_inv_step [OF 18(5)] by (simp add: monitor_ok_def)
  moreover have "running m = running (cpu (core s))" "joining m = joining (cpu (core s))"
    using 18(5) by (auto simp: monitor_step_simps)
  ultimately show ?case using 18 by (simp add: monitor_ok_def)
next
  case (19 m trace mss fs)
  then have "cpu_inv m" using cpu_inv_step [OF 19(5)] by (simp add: monitor_ok_def)
  moreover have "running m = running (cpu (core s))" "joining m = joining (cpu (core s))"
    using 19(5) by (auto simp: monitor_step_simps)
  ultimately show ?case using 19 by (simp add: monitor_ok_def)
qed (auto simp: monitor_ok_def init_cpu_def cpu_inv_calls cpu_call_fields
      dest: cpu_call_fields(4) dest!: Init_setup_kept init_crash_kept run_leak_detection_kept report_fds_kept disable_io_kept)

lemma monitor_active:
  assumes "monitor_ok s" "loop (cpu (core s)) \<noteq> L_None"
  shows "monitoring (main s) (is_initialized (core s))"
  using assms by (auto simp: monitor_ok_def cpu_inv_def)

lemma check_alive:
  assumes "monitor_ok s" "reporter_ok s" "loop (cpu (core s)) \<noteq> L_None"
  shows "alive s \<and> the_reporter (core s) \<noteq> None"
  using monitoring_session [OF monitor_active [OF assms(1,3)]] assms(2) by (simp add: reporter_ok_def)

lemma handlers_ok_step:
  "core_step w scan strict a s t \<Longrightarrow> monitor_ok s \<Longrightarrow> reporter_ok s \<Longrightarrow> handlers_ok strict s \<Longrightarrow> handlers_ok strict t"
proof (erule core_stepE, goal_cases)
  case (19 m trace mss fs)
  then have "alive s" using check_alive [of s] by simp
  with 19 show ?case by (simp add: handlers_ok_def)
next
  case (22 i sig dir ms trace fs)
  then have "alive s" if strict
    using that listening_session [of "main s" "is_initialized (core s)"]
    by (auto simp: handlers_ok_def reporter_ok_def)
  with 22 show ?case by (auto simp: handlers_ok_def)
qed (auto simp: handlers_ok_def reporter_ok_def GetReporter_def Uninstall_off
      dest!: Init_setup_kept init_crash_kept run_leak_detection_kept report_fds_kept disable_io_kept)

lemma core_reach_inv:
  "core_reach w scan strict c0 s \<Longrightarrow> not_started c0 \<Longrightarrow> reporter_ok s \<and> monitor_ok s \<and> handlers_ok strict s"
proof (induction rule: core_reach.induct)
  case start
  then show ?case
    by (simp add: not_started_def core_start_def reporter_ok_def monitor_ok_def handlers_ok_def cpu_inv_def cpu_start_def)
next
  case (step s a t)
  then show ?case using reporter_ok_step monitor_ok_step handlers_ok_step by blast
qed

text \<open>On Linux and macOS the monitor's mutex is free between the steps.\<close>

lemma unlocked_step:
  "core_step w scan strict a s t \<Longrightarrow> w_platform w \<noteq> Windows \<Longrightarrow> \<not> locked (monitor (io_part (core s))) \<Longrightarrow>
   \<not> locked (monitor (io_part (core t)))"
proof (erule core_stepE, goal_cases)
  case (12 ms c)
  with report_fds_plain [of w "core s" ms] plain_posix [of w] show ?case by auto
next
  case (13 ms c)
  with report_fds_plain [of w "core s" ms] plain_posix [of w] show ?case by auto
next
  case (14 c)
  with Disable_unlocked [of "monitor (io_part (core s))" "w_platform w"] show ?case
    by (auto simp: disable_io_def Let_def)
qed (auto simp: init_io_def Enable_def
      dest!: Init_setup_kept init_crash_kept run_leak_detection_kept)

lemma core_reach_unlocked:
  "core_reach w scan strict c0 s \<Longrightarrow> not_started c0 \<Longrightarrow> w_platform w \<noteq> Windows \<Longrightarrow>
   \<not> locked (monitor (io_part (core s)))"
proof (induction rule: core_reach.induct)
  case start
  then show ?case by (simp add: not_started_def core_start_def)
qed (use unlocked_step in blast)

section \<open>Shutdown as a sequence of steps\<close>

text \<open>Steps of the application's thread and of the monitor thread.\<close>

definition quiet_step ::
  "('h, 'k) world \<Rightarrow> (thread_map \<Rightarrow> u64 list \<times> thread_map) \<Rightarrow> bool \<Rightarrow>
   ('h, 'k) core_threads \<Rightarrow> ('h, 'k) core_threads \<Rightarrow> bool" where
  "quiet_step w scan strict s t \<longleftrightarrow> core_step w scan strict Main s t \<or> core_step w scan strict Monitor s t"

lemma quiet_reach:
  "(quiet_step w scan strict)\<^sup>*\<^sup>* s t \<Longrightarrow> core_reach w scan strict c0 s \<Longrightarrow> core_reach w scan strict c0 t"
  by (induction rule: rtranclp_induct) (auto simp: quiet_step_def intro: core_reach.step)

text \<open>\<open>Stop\<close>, if the monitor thread is not in a scan.\<close>

lemma stop_run:
  assumes "main s = Stop_Cpu" "cpu_inv (cpu (core s))" "\<not> joining (cpu (core s))" "loop (cpu (core s)) \<in> {L_None, L_Test}"
  shows "(quiet_step w scan strict)\<^sup>*\<^sup>* s (set_core ((core s)\<lparr>cpu := cpu_Stop (cpu (core s))\<rparr>) Stop_Leaks s)"
proof -
  let ?c = "core s"
  let ?s1 = "set_core (?c\<lparr>cpu := cpu_Stop_begin (cpu ?c)\<rparr>) Stop_Join s"
  have 1: "quiet_step w scan strict s ?s1"
    using core_step.cpu_off [OF assms(1)] by (simp add: quiet_step_def)
  show ?thesis
  proof (cases "running (cpu ?c)")
    case False
    then have "cpu_Stop_begin (cpu ?c) = cpu ?c" "cpu_Stop (cpu ?c) = cpu ?c"
      by (simp_all add: cpu_Stop_begin_def cpu_Stop_def)
    with assms(3) have "quiet_step w scan strict ?s1 (set_core (?c\<lparr>cpu := cpu_Stop (cpu ?c)\<rparr>) Stop_Leaks s)"
      using core_step.no_join [of ?s1] by (simp add: quiet_step_def set_core_def)
    with 1 show ?thesis by (meson converse_rtranclp_into_rtranclp r_into_rtranclp)
  next
    case True
    with assms have l: "loop (cpu ?c) = L_Test" by (auto simp: cpu_inv_def)
    let ?m = "(cpu_Stop_begin (cpu ?c))\<lparr>loop := L_Done\<rparr>"
    let ?s2 = "?s1\<lparr>core := ?c\<lparr>cpu := ?m\<rparr>\<rparr>"
    have b: "cpu_Stop_begin (cpu ?c) = (cpu ?c)\<lparr>running := False, joining := True\<rparr>"
      using True l by (simp add: cpu_Stop_begin_def Let_def)
    have "cpu_step (snd \<circ> scan) Monitor_Thread (cpu (core ?s1)) ?m"
      using l b by (simp add: monitor_step_simps)
    then have 2: "quiet_step w scan strict ?s1 ?s2"
      using core_step.walk [of ?s1 scan ?m] l b by (simp add: quiet_step_def)
    have 3: "quiet_step w scan strict ?s2 (set_core (?c\<lparr>cpu := cpu_Stop (cpu ?c)\<rparr>) Stop_Leaks s)"
      using core_step.join [of ?s2] True l b
      by (simp add: quiet_step_def set_core_def cpu_Stop_def cpu_Stop_end_def)
    from 1 2 3 show ?thesis by (meson converse_rtranclp_into_rtranclp r_into_rtranclp)
  qed
qed

text \<open>From the leak detection on, the disk is all that the reports change, and \<open>Shutdown\<close> ends where they end.\<close>

lemma shutdown_tail:
  assumes "main s = Stop_Io" "\<not> locked (monitor (io_part (core s)))" "the_reporter (core s) \<noteq> None"
    and "Disable (w_platform w) (monitor (io_part (core s))) = Ret () m"
  shows "\<exists>t. (quiet_step w scan strict)\<^sup>*\<^sup>* s t \<and> main t = Ready \<and> \<not> alive t \<and> handlers t = handlers s \<and>
    core t = (core s)\<lparr>io_part := (io_part (core s))\<lparr>monitor := m\<rparr>, the_reporter := None,
      the_config := default_config, is_initialized := False\<rparr>"
proof -
  let ?c5 = "(core s)\<lparr>io_part := (io_part (core s))\<lparr>monitor := m\<rparr>\<rparr>"
  let ?s5 = "set_core ?c5 Stop_Destroy s"
  let ?s6 = "set_core ?c5 Stop_Null (?s5\<lparr>alive := False\<rparr>)"
  let ?s7 = "set_core (?c5\<lparr>the_reporter := None\<rparr>) Stop_Reset ?s6"
  let ?s8 = "set_core (?c5\<lparr>the_reporter := None, the_config := default_config, is_initialized := False\<rparr>) Ready ?s7"
  have "disable_io w (core s) = Ret () ?c5" by (simp add: disable_io_def Let_def assms(4))
  then have 5: "quiet_step w scan strict s ?s5"
    using core_step.io_off [OF assms(1), of w ?c5 scan strict] by (simp add: quiet_step_def)
  have 6: "quiet_step w scan strict ?s5 ?s6"
    using core_step.destroy [of ?s5 w scan strict] assms(3) by (simp add: quiet_step_def GetReporter_def)
  have 7: "quiet_step w scan strict ?s6 ?s7"
    using core_step.clear [of ?s6 w scan strict] by (simp add: quiet_step_def)
  have 8: "quiet_step w scan strict ?s7 ?s8"
    using core_step.reset [of ?s7 w scan strict] by (simp add: quiet_step_def)
  have "(quiet_step w scan strict)\<^sup>*\<^sup>* s ?s8"
    using 5 6 7 8 by (meson converse_rtranclp_into_rtranclp r_into_rtranclp)
  then show ?thesis by (intro exI [of _ ?s8]) simp
qed

lemma shutdown_run:
  assumes "main s = Ready" "is_initialized (core s)" "w_platform w \<noteq> Windows" "\<not> locked (monitor (io_part (core s)))"
    and "\<And>a n. w_resolve w a n \<noteq> None" and "strict \<longrightarrow> (\<forall>i. handlers s i = No_Crash)"
    and "monitor_ok s" and "loop (cpu (core s)) \<in> {L_None, L_Test}"
    and "the_reporter (core s) \<noteq> None"
  shows "\<exists>t. (quiet_step w scan strict)\<^sup>*\<^sup>* s t \<and> main t = Ready \<and> handlers t = handlers s \<and>
    (Shutdown w ms1 ms2 (core s) = Ret () (core t) \<and> \<not> alive t \<or>
     Shutdown w ms1 ms2 (core s) = Throw (core t) \<and> alive t = alive s)"
proof -
  let ?c = "core s"
  let ?c1 = "?c\<lparr>crash := Uninstall (w_platform w) (crash ?c)\<rparr>"
  let ?c2 = "?c1\<lparr>cpu := cpu_Stop (cpu ?c)\<rparr>"
  let ?s1 = "set_core ?c1 Stop_Cpu s"
  let ?s2 = "set_core ?c2 Stop_Leaks s"
  have g: "GetReporter (?c2\<lparr>disk := fs\<rparr>) \<noteq> None" "GetReporter ?c2 \<noteq> None" for fs using assms(9) by (simp_all add: GetReporter_def)
  have 1: "quiet_step w scan strict s ?s1"
    using core_step.crash_off [OF assms(1,2,6)] by (simp add: quiet_step_def)
  have "cpu_inv (cpu ?c)" "\<not> joining (cpu ?c)" using assms(1,7) by (auto simp: monitor_ok_def)
  then have "(quiet_step w scan strict)\<^sup>*\<^sup>* ?s1 ?s2"
    using stop_run [of ?s1 w scan strict] assms(8) by (simp add: set_core_def)
  with 1 have 2: "(quiet_step w scan strict)\<^sup>*\<^sup>* s ?s2" by (meson converse_rtranclp_into_rtranclp)
  obtain fs1 where "run_leak_detection w ms1 ?c2 = Ret () (?c2\<lparr>disk := fs1\<rparr>) \<or> run_leak_detection w ms1 ?c2 = Throw (?c2\<lparr>disk := fs1\<rparr>)"
    using run_leak_detection_ends [of w ms1 ?c2] assms(5) by blast
  then consider (leaks) "run_leak_detection w ms1 ?c2 = Ret () (?c2\<lparr>disk := fs1\<rparr>)"
    | (throws) "run_leak_detection w ms1 ?c2 = Throw (?c2\<lparr>disk := fs1\<rparr>)" by blast
  then show ?thesis
  proof cases
    case throws
    let ?s3 = "call_reporter (set_core (?c2\<lparr>disk := fs1\<rparr>) Ready ?s2)"
    have "quiet_step w scan strict ?s2 ?s3"
      using core_step.leaks_throw [of ?s2 w ms1 "?c2\<lparr>disk := fs1\<rparr>" scan strict] throws by (simp add: quiet_step_def)
    with 2 have "(quiet_step w scan strict)\<^sup>*\<^sup>* s ?s3" by (rule rtranclp.rtrancl_into_rtrancl)
    moreover have "Shutdown w ms1 ms2 ?c = Throw (core ?s3)" using throws assms(2) by (simp add: Shutdown_def Let_def)
    ultimately show ?thesis by (intro exI [of _ ?s3]) simp
  next
    case leaks
    let ?s3 = "call_reporter (set_core (?c2\<lparr>disk := fs1\<rparr>) Stop_Fds ?s2)"
    have "quiet_step w scan strict ?s2 ?s3"
      using core_step.leaks [of ?s2 w ms1 "?c2\<lparr>disk := fs1\<rparr>" scan strict] leaks g(2) by (simp add: quiet_step_def)
    with 2 have 3: "(quiet_step w scan strict)\<^sup>*\<^sup>* s ?s3" by (rule rtranclp.rtrancl_into_rtrancl)
    have "\<not> locked (monitor (io_part (?c2\<lparr>disk := fs1\<rparr>)))" using assms(4) by simp
    from report_fds_plain [OF plain_posix [OF assms(3)] this, of ms2] obtain fs2 where
      "report_fds w ms2 (?c2\<lparr>disk := fs1\<rparr>) = Ret () (?c2\<lparr>disk := fs2\<rparr>) \<or> report_fds w ms2 (?c2\<lparr>disk := fs1\<rparr>) = Throw (?c2\<lparr>disk := fs2\<rparr>)"
      by auto
    then consider (fds) "report_fds w ms2 (?c2\<lparr>disk := fs1\<rparr>) = Ret () (?c2\<lparr>disk := fs2\<rparr>)"
      | (throws) "report_fds w ms2 (?c2\<lparr>disk := fs1\<rparr>) = Throw (?c2\<lparr>disk := fs2\<rparr>)" by blast
    then show ?thesis
    proof cases
      case throws
      let ?s4 = "call_reporter (set_core (?c2\<lparr>disk := fs2\<rparr>) Ready ?s3)"
      have "quiet_step w scan strict ?s3 ?s4"
        using core_step.fds_throw [of ?s3 w ms2 "?c2\<lparr>disk := fs2\<rparr>" scan strict] throws by (simp add: quiet_step_def)
      with 3 have "(quiet_step w scan strict)\<^sup>*\<^sup>* s ?s4" by (rule rtranclp.rtrancl_into_rtrancl)
      moreover have "Shutdown w ms1 ms2 ?c = Throw (core ?s4)"
        using throws leaks assms(2) by (simp add: Shutdown_def Let_def)
      ultimately show ?thesis by (intro exI [of _ ?s4]) simp
    next
      case fds
      let ?s4 = "call_reporter (set_core (?c2\<lparr>disk := fs2\<rparr>) Stop_Io ?s3)"
      have "quiet_step w scan strict ?s3 ?s4"
        using core_step.fds [of ?s3 w ms2 "?c2\<lparr>disk := fs2\<rparr>" scan strict] fds g(1) by (simp add: quiet_step_def)
      with 3 have 4: "(quiet_step w scan strict)\<^sup>*\<^sup>* s ?s4" by (rule rtranclp.rtrancl_into_rtrancl)
      obtain m where m: "Disable (w_platform w) (monitor (io_part ?c)) = Ret () m"
        using Disable_unlocked [OF assms(4)] by blast
      with assms(4,9) obtain t where t: "(quiet_step w scan strict)\<^sup>*\<^sup>* ?s4 t" "main t = Ready" "\<not> alive t"
        "handlers t = handlers s" "core t = ?c2\<lparr>disk := fs2, io_part := (io_part ?c)\<lparr>monitor := m\<rparr>, the_reporter := None,
          the_config := default_config, is_initialized := False\<rparr>"
        using shutdown_tail [of ?s4 w m scan strict] by auto
      have "Shutdown w ms1 ms2 ?c = Ret () (core t)"
        using leaks fds m assms(2) by (simp add: Shutdown_def Let_def disable_io_def t(5))
      moreover have "(quiet_step w scan strict)\<^sup>*\<^sup>* s t" using 4 t(1) by (rule rtranclp_trans)
      ultimately show ?thesis using t(2-4) by blast
    qed
  qed
qed

section \<open>Properties\<close>

text \<open>C8: The reporter outlives its users, in every interleaving of \<open>Init\<close> and \<open>Shutdown\<close>, the monitor thread and
  crashing threads: while the monitor thread exists, while the leak detector and the IO monitor report,
  the reporter is installed and alive; once it is destroyed there is no monitor thread and no crash
  handler is installed; and if \<open>Shutdown\<close> is never called while a handler runs, no report is ever made
  through a destroyed reporter.\<close>

theorem reporter_outlives_users:
  assumes "not_started c0" and "core_reach w scan strict c0 s"
  shows "(loop (cpu (core s)) \<noteq> L_None \<or> main s = Stop_Leaks \<or> main s = Stop_Fds \<longrightarrow>
            alive s \<and> GetReporter (core s) \<noteq> None) \<and>
         (\<not> alive s \<longrightarrow> loop (cpu (core s)) = L_None \<and> \<not> installed (crash (core s))) \<and>
         \<not> terminated (cpu (core s)) \<and>
         (strict \<longrightarrow> \<not> used_dead s \<and> (\<forall>i. handlers s i \<noteq> No_Crash \<longrightarrow> alive s))"
proof -
  have R: "reporter_ok s" and M: "monitor_ok s" and H: "handlers_ok strict s"
    using core_reach_inv [OF assms(2,1)] by simp_all
  have session: "alive s \<and> GetReporter (core s) \<noteq> None" if "in_session (main s) (is_initialized (core s))"
    using R that by (simp add: reporter_ok_def GetReporter_def)
  have "listening (main s) (is_initialized (core s)) \<Longrightarrow> alive s"
    using session listening_session by blast
  then show ?thesis
    using session M H check_alive [OF M R]
    by (auto simp: handlers_ok_def monitor_ok_def cpu_inv_def GetReporter_def)
qed

text \<open>A session with the CPU profiler, whose monitor thread has just begun a scan.\<close>

definition one_hot :: "thread_map \<Rightarrow> u64 list \<times> thread_map" where
  "one_hot states = ([7], states)"

lemma demo_session:
  assumes "Init_setup w cfg c0 = Ret () c6" and "not_started c0" and "init_crash w cfg c6 = Ret () c7"
    and "enable_cpu_profiler cfg"
  shows "\<exists>s. core_reach w scan strict c0 s \<and> main s = Ready \<and> handlers s = (\<lambda>_. No_Crash) \<and>
    is_initialized (core s) \<and> loop (cpu (core s)) = L_Test \<and> running (cpu (core s)) \<and>
    installed (crash (core s)) = installed (crash c7) \<and> the_reporter (core s) = Some (output_dir cfg) \<and>
    open_fds (monitor (io_part (core s))) = open_fds (monitor (io_part c0))"
proof -
  let ?s0 = "core_start c0"
  let ?s1 = "set_core c6 (Init_Crash cfg) (?s0\<lparr>alive := True\<rparr>)"
  let ?s2 = "set_core c7 (Init_Io cfg) ?s1"
  let ?s3 = "set_core (init_io w cfg c7) (Init_Cpu cfg) ?s2"
  let ?s4 = "set_core (init_cpu cfg (init_io w cfg c7)) Init_Done ?s3"
  let ?s5 = "set_core ((init_cpu cfg (init_io w cfg c7))\<lparr>is_initialized := True\<rparr>) Ready ?s4"
  have n: "\<not> is_initialized c0" "cpu c0 = cpu_start" using assms(2) by (simp_all add: not_started_def)
  have r: "core_reach w scan strict c0 ?s0" by (rule core_reach.start)
  have "core_step w scan strict Main ?s0 ?s1"
    using core_step.init [of ?s0 w cfg c6 scan strict] assms(1) n by (simp add: core_start_def)
  with r have r: "core_reach w scan strict c0 ?s1" by (rule core_reach.step)
  have "core_step w scan strict Main ?s1 ?s2"
    using core_step.crash_on [of ?s1 cfg w c7 scan strict] assms(3) by simp
  with r have r: "core_reach w scan strict c0 ?s2" by (rule core_reach.step)
  have "core_step w scan strict Main ?s2 ?s3"
    using core_step.io_on [of ?s2 cfg w scan strict] by simp
  with r have r: "core_reach w scan strict c0 ?s3" by (rule core_reach.step)
  have "core_step w scan strict Main ?s3 ?s4"
    using core_step.cpu_on [of ?s3 cfg w scan strict] by simp
  with r have r: "core_reach w scan strict c0 ?s4" by (rule core_reach.step)
  have "core_step w scan strict Main ?s4 ?s5"
    using core_step.init_done [of ?s4 w scan strict] by simp
  with r have r: "core_reach w scan strict c0 ?s5" by (rule core_reach.step)
  then show ?thesis
    using Init_setup_kept [OF assms(1)] init_crash_kept [OF assms(3)] n(2) assms(4)
    by (intro exI [of _ ?s5]) (simp add: core_start_def init_cpu_def cpu_Start_def cpu_start_def init_io_def Enable_def Let_def)
qed

lemma fresh_not_started: "not_started fresh_core"
  by (simp add: not_started_def fresh_core_fields)

lemma demo_serialisable:
  assumes "open_fds (monitor (io_part c)) = Map.empty"
  shows "serialisable (demo_world pf) c"
proof -
  have "map_of (demo_fd_iter Map.empty) = (Map.empty :: u32 \<Rightarrow> fd_info option)"
    using demo_fd_iter_ok by (simp add: fd_iter_ok_def)
  then have "demo_fd_iter Map.empty = []" by (metis map_of_eq_empty_iff)
  then show ?thesis
    using assms demo_dump_ok demo_world_resolves(2)
    by (simp add: serialisable_def) (simp add: demo_world_def)
qed

lemma demo_running:
  "\<exists>s. core_reach (demo_world MacOS) one_hot strict fresh_core s \<and> main s = Ready \<and> handlers s = (\<lambda>_. No_Crash) \<and>
     is_initialized (core s) \<and> loop (cpu (core s)) = L_Test \<and> running (cpu (core s)) \<and> installed (crash (core s)) \<and>
     serialisable (demo_world MacOS) (core s)"
proof -
  obtain c6 c7 where c: "Init_setup (demo_world MacOS) crash_config fresh_core = Ret () c6"
    "init_crash (demo_world MacOS) crash_config c6 = Ret () c7" "installed (crash c7)" using demo_setup by blast
  have "enable_cpu_profiler crash_config" by (simp add: crash_config_def full_config_def)
  moreover have "open_fds (monitor (io_part fresh_core)) = Map.empty" by (simp add: fresh_core_def io_start_def)
  ultimately show ?thesis
    using demo_session [OF c(1) fresh_not_started c(2), of one_hot strict] c(3) demo_serialisable by metis
qed

lemma reporter_outlives_users_witness:
  "\<exists>s. core_reach (demo_world MacOS) one_hot True fresh_core s \<and> loop (cpu (core s)) = L_Check \<and> alive s \<and> \<not> used_dead s"
proof -
  let ?w = "demo_world MacOS"
  obtain s where s: "core_reach ?w one_hot True fresh_core s" "loop (cpu (core s)) = L_Test" "running (cpu (core s))"
    using demo_running by blast
  let ?s1 = "s\<lparr>core := (core s)\<lparr>cpu := (cpu (core s))\<lparr>loop := L_Sleep\<rparr>\<rparr>\<rparr>"
  let ?s2 = "s\<lparr>core := (core s)\<lparr>cpu := (cpu (core s))\<lparr>loop := L_Check\<rparr>\<rparr>\<rparr>"
  have "core_step ?w one_hot True Monitor s ?s1"
    by (rule core_step.walk) (simp_all add: s monitor_step_simps)
  with s(1) have 1: "core_reach ?w one_hot True fresh_core ?s1" by (rule core_reach.step)
  have "core_step ?w one_hot True Monitor ?s1 ?s2"
    using core_step.walk [of ?s1 one_hot "(cpu (core s))\<lparr>loop := L_Check\<rparr>" ?w True] by (simp add: monitor_step_simps)
  with 1 have 2: "core_reach ?w one_hot True fresh_core ?s2" by (rule core_reach.step)
  have "loop (cpu (core ?s2)) = L_Check" "loop (cpu (core ?s2)) \<noteq> L_None" by simp_all
  with reporter_outlives_users [OF fresh_not_started 2] 2 show ?thesis by blast
qed

text \<open>The steps that \<open>Shutdown\<close> still has to make.\<close>

definition shutdown_rank :: "('h, 'k) core_threads \<Rightarrow> nat" where
  "shutdown_rank s = 4 * stop_rank (main s) + loop_rank (loop (cpu (core s)))"

lemma loop_rank_le: "loop_rank l \<le> 3"
  by (cases l) simp_all

lemma capture_all_returns:
  assumes "dump_ok (w_env w)" "\<And>tid. trace_texts utf8_ok (trace tid)"
  shows "\<exists>fs'. capture_all w trace ms dir hot fs = Ret () fs'"
proof (induction hot arbitrary: fs)
  case (Cons tid hot)
  have "dumpable (high_cpu_report (trace tid) tid)"
    by (rule conforms_dumpable(1) [OF cpu_typed HOL.refl schemas_utf8(3)]) (rule assms(2))
  then have "\<exists>fs'. CaptureBacktraceForThread (trace tid) (map_option (\<lambda>d. report (w_env w) d HighCpu (ms tid)) dir) tid fs = Ret () fs'"
    using report_ends [of "w_env w" _ HighCpu "ms tid" "high_cpu_report (trace tid) tid" fs] report_serialised [OF assms(1)]
    by (cases dir) (auto simp: CaptureBacktraceForThread_def, metis report.simps(2))
  with Cons.IH show ?case by auto
qed simp

text \<open>The application's thread has to wait for the monitor thread only in \<open>join\<close>.\<close>

definition joins :: "('h, 'k) core_threads \<Rightarrow> bool" where
  "joins s \<longleftrightarrow> main s = Stop_Join \<and> joining (cpu (core s)) \<and> loop (cpu (core s)) \<noteq> L_Done"

lemma main_step_enabled:
  assumes "stop_rank (main s) > 0" and "\<not> joins s" and "plain_streams w"
    and "\<not> locked (monitor (io_part (core s)))" and "\<And>a n. w_resolve w a n \<noteq> None"
  shows "\<exists>t. core_step w scan strict Main s t"
proof (cases "main s")
  case Stop_Join
  then consider "\<not> joining (cpu (core s))" | "joining (cpu (core s))" "loop (cpu (core s)) = L_Done"
    using assms(2) by (auto simp: joins_def)
  then show ?thesis using core_step.no_join [OF Stop_Join] core_step.join [OF Stop_Join] by cases blast+
next
  case Stop_Leaks
  obtain fs where "run_leak_detection w 0 (core s) = Ret () ((core s)\<lparr>disk := fs\<rparr>) \<or>
      run_leak_detection w 0 (core s) = Throw ((core s)\<lparr>disk := fs\<rparr>)"
    using run_leak_detection_ends [of w 0 "core s"] assms(5) by blast
  then show ?thesis using core_step.leaks [OF Stop_Leaks] core_step.leaks_throw [OF Stop_Leaks] by blast
next
  case Stop_Fds
  obtain fs where "report_fds w 0 (core s) = Ret () ((core s)\<lparr>disk := fs\<rparr>) \<or> report_fds w 0 (core s) = Throw ((core s)\<lparr>disk := fs\<rparr>)"
    using report_fds_plain [OF assms(3,4), of 0] by blast
  then show ?thesis using core_step.fds [OF Stop_Fds] core_step.fds_throw [OF Stop_Fds] by blast
next
  case Stop_Io
  obtain m where "disable_io w (core s) = Ret () m"
    using Disable_unlocked [OF assms(4), of "w_platform w"] by (auto simp: disable_io_def Let_def)
  with Stop_Io show ?thesis using core_step.io_off by blast
qed (use assms(1) core_step.cpu_off core_step.destroy core_step.clear core_step.reset in \<open>simp_all, blast+\<close>)

text \<open>The monitor thread's scan goes through whatever the stacks and the clock are.\<close>

lemma monitor_scan_returns:
  assumes "loop (cpu (core s)) = L_Check" and "dump_ok (w_env w)" and "\<And>tid. trace_texts utf8_ok (trace tid)"
  shows "\<exists>t. monitor_scan w scan trace ms s = Ret () t \<and> core_step w scan strict Monitor s t"
proof -
  obtain hot states where sc: "scan (thread_states (cpu (core s))) = (hot, states)" by fastforce
  obtain fs where "capture_all w trace ms (GetReporter (core s)) hot (disk (core s)) = Ret () fs"
    using capture_all_returns [of w trace] assms(2,3) by blast
  then have "\<exists>t. monitor_scan w scan trace ms s = Ret () t" by (simp add: monitor_scan_def sc Let_def)
  then show ?thesis using check_step_iff [OF assms(1)] by blast
qed

lemma monitor_walks:
  assumes "loop (cpu (core s)) = L_Test \<or> loop (cpu (core s)) = L_Sleep"
  shows "\<exists>t. core_step w scan strict Monitor s t"
proof -
  have "\<exists>m. cpu_step (snd \<circ> scan) Monitor_Thread (cpu (core s)) m" "loop (cpu (core s)) \<noteq> L_Check"
    using assms by (auto simp: monitor_step_simps)
  then show ?thesis using core_step.walk [of s scan] by blast
qed

lemma shutdown_step_rank:
  assumes "core_step w scan strict a s t" and "monitor_ok s" and "0 < stop_rank (main s)" and "main s \<noteq> Stop_Cpu"
  shows "if a = Main \<or> a = Monitor then shutdown_rank t < shutdown_rank s else shutdown_rank t = shutdown_rank s"
  using assms
proof (elim core_stepE, goal_cases)
  case (18 m)
  then have "\<not> running (cpu (core s))" by (cases "main s") (auto simp: monitor_ok_def)
  with 18 show ?case by (auto simp: shutdown_rank_def monitor_step_simps)
next
  case (19 m trace mss fs)
  then have "\<not> running (cpu (core s))" by (cases "main s") (auto simp: monitor_ok_def)
  with 19 show ?case by (auto simp: shutdown_rank_def monitor_step_simps)
qed (use loop_rank_le in \<open>auto simp: shutdown_rank_def cpu_Stop_end_def
       dest!: run_leak_detection_kept report_fds_kept disable_io_kept\<close>)

text \<open>C15: \<open>Shutdown\<close> completes among threads, on Linux and macOS: until it has returned or thrown, the
  application's thread can make its next step, unless it is in \<open>join\<close>; then the monitor thread can, and its
  scan goes through whatever UTF-8 traces and clock its reports meet. Once the monitor thread has been told to stop,
  every step of one of the two brings the end nearer, at most 31 steps away, and no crashing
  thread delays it.\<close>

theorem shutdown_completes:
  assumes "not_started c0" and "core_reach w scan strict c0 s" and "w_platform w \<noteq> Windows"
    and "\<And>a n. w_resolve w a n \<noteq> None" and "stop_rank (main s) > 0" and "dump_ok (w_env w)"
  shows "(\<not> joins s \<longrightarrow> (\<exists>t. core_step w scan strict Main s t)) \<and>
         (joins s \<longrightarrow> (\<exists>t. core_step w scan strict Monitor s t) \<and>
            (\<forall>trace ms. loop (cpu (core s)) = L_Check \<longrightarrow> (\<forall>tid. trace_texts utf8_ok (trace tid)) \<longrightarrow>
               (\<exists>t. monitor_scan w scan trace ms s = Ret () t \<and> core_step w scan strict Monitor s t))) \<and>
         (main s \<noteq> Stop_Cpu \<longrightarrow> shutdown_rank s \<le> 31 \<and>
            (\<forall>a t. core_step w scan strict a s t \<longrightarrow>
               (if a = Main \<or> a = Monitor then shutdown_rank t < shutdown_rank s
                else shutdown_rank t = shutdown_rank s))) \<and>
         (main s = Stop_Cpu \<longrightarrow> (\<exists>t. core_step w scan strict Main s t \<and> main t = Stop_Join))"
proof -
  have M: "monitor_ok s" using core_reach_inv [OF assms(2,1)] by simp
  have scans: "\<exists>t. monitor_scan w scan trace ms s = Ret () t \<and> core_step w scan strict Monitor s t"
    if "loop (cpu (core s)) = L_Check" "\<forall>tid. trace_texts utf8_ok (trace tid)" for trace ms
    using monitor_scan_returns [OF that(1) assms(6)] that(2) by blast
  have "\<exists>t. core_step w scan strict Monitor s t" if "joins s"
  proof (cases "loop (cpu (core s))")
    case L_Check
    have "\<forall>tid. trace_texts utf8_ok ((\<lambda>_. []) tid)" by (simp add: trace_texts_def)
    from scans [OF L_Check this] show ?thesis by blast
  qed (use that M monitor_walks [of s w scan strict] in \<open>auto simp: joins_def monitor_ok_def cpu_inv_def\<close>)
  moreover have "\<exists>t. core_step w scan strict Main s t \<and> main t = Stop_Join" if "main s = Stop_Cpu"
    using core_step.cpu_off [OF that] set_core_fields(2) by metis
  moreover have "shutdown_rank s \<le> 31" if "main s \<noteq> Stop_Cpu"
    using that loop_rank_le [of "loop (cpu (core s))"] by (cases "main s") (simp_all add: shutdown_rank_def)
  ultimately show ?thesis
    using main_step_enabled [OF assms(5) _ plain_posix [OF assms(3)] core_reach_unlocked [OF assms(2,1,3)] assms(4)]
      shutdown_step_rank [OF _ M assms(5)] scans by blast
qed

lemma shutdown_completes_witness:
  "\<exists>s. core_reach (demo_world MacOS) one_hot True fresh_core s \<and> joins s \<and>
     shutdown_rank s \<le> 31 \<and> (\<exists>t. core_step (demo_world MacOS) one_hot True Monitor s t)"
proof -
  let ?w = "demo_world MacOS"
  obtain s where s: "core_reach ?w one_hot True fresh_core s" "loop (cpu (core s)) = L_Test" "running (cpu (core s))"
    "main s = Ready" "is_initialized (core s)" "handlers s = (\<lambda>_. No_Crash)"
    using demo_running by blast
  let ?s1 = "set_core ((core s)\<lparr>crash := Uninstall (w_platform ?w) (crash (core s))\<rparr>) Stop_Cpu s"
  let ?s2 = "set_core ((core ?s1)\<lparr>cpu := cpu_Stop_begin (cpu (core ?s1))\<rparr>) Stop_Join ?s1"
  have "core_step ?w one_hot True Main s ?s1" by (rule core_step.crash_off) (simp_all add: s)
  with s(1) have 1: "core_reach ?w one_hot True fresh_core ?s1" by (rule core_reach.step)
  have "core_step ?w one_hot True Main ?s1 ?s2" by (rule core_step.cpu_off) simp
  with 1 have 2: "core_reach ?w one_hot True fresh_core ?s2" by (rule core_reach.step)
  have f: "w_platform ?w \<noteq> Windows" "stop_rank (main ?s2) > 0" "main ?s2 \<noteq> Stop_Cpu" "joins ?s2" "dump_ok (w_env ?w)"
    using s(2,3) demo_dump_ok by (simp_all add: demo_world_def cpu_Stop_begin_def Let_def joins_def)
  from shutdown_completes [OF fresh_not_started 2 f(1) demo_world_resolves(1) f(2,5)] f(3,4) 2 show ?thesis by blast
qed

text \<open>C16: The steps refine \<open>Shutdown\<close>: unless the monitor thread is in a scan, the application's thread and the
  monitor thread can run from the call of \<open>Shutdown\<close> to its end, and then the state is the one
  that \<open>Shutdown\<close> as a whole computes, whether it returns, and the reporter is gone, or throws, and the
  reporter is alive and Domovoy still initialised; it returns if the reports can be serialised.
  Handlers that are running still run afterwards.\<close>

theorem shutdown_is_refined:
  assumes "not_started c0" and "core_reach w scan strict c0 s" and "w_platform w \<noteq> Windows"
    and "\<And>a n. w_resolve w a n \<noteq> None" and "main s = Ready" and "is_initialized (core s)"
    and "strict \<longrightarrow> (\<forall>i. handlers s i = No_Crash)" and "loop (cpu (core s)) \<in> {L_None, L_Test}"
  shows "\<exists>t. (quiet_step w scan strict)\<^sup>*\<^sup>* s t \<and> main t = Ready \<and> handlers t = handlers s \<and>
     (Shutdown w ms1 ms2 (core s) = Ret () (core t) \<and> \<not> alive t \<or>
      Shutdown w ms1 ms2 (core s) = Throw (core t) \<and> alive t \<and> is_initialized (core t)) \<and>
     (serialisable w (core s) \<longrightarrow> \<not> alive t)"
proof -
  have inv: "monitor_ok s" "reporter_ok s" using core_reach_inv [OF assms(2,1)] by simp_all
  then have rep: "the_reporter (core s) \<noteq> None" "alive s" using assms(5,6) by (simp_all add: reporter_ok_def)
  note unlocked = core_reach_unlocked [OF assms(2,1,3)]
  obtain t where t: "(quiet_step w scan strict)\<^sup>*\<^sup>* s t" "main t = Ready" "handlers t = handlers s"
    "Shutdown w ms1 ms2 (core s) = Ret () (core t) \<and> \<not> alive t \<or> Shutdown w ms1 ms2 (core s) = Throw (core t) \<and> alive t"
    using shutdown_run [OF assms(5,6,3) unlocked assms(4,7) inv(1) assms(8) rep(1), where ?ms1.0 = ms1 and ?ms2.0 = ms2] rep(2) by auto
  have "reporter_ok t" using core_reach_inv [OF quiet_reach [OF t(1) assms(2)] assms(1)] by simp
  then have "alive t \<Longrightarrow> is_initialized (core t)" using t(2) by (auto simp: reporter_ok_def split: if_splits)
  moreover have "Shutdown w ms1 ms2 (core s) \<noteq> Throw (core t)" if "serialisable w (core s)"
    using Shutdown_steps [OF assms(6,3) unlocked assms(4) that, of ms1 ms2] by auto
  ultimately show ?thesis using t by blast
qed

lemma shutdown_is_refined_witness:
  "\<exists>s t. core_reach (demo_world MacOS) one_hot True fresh_core s \<and>
     (quiet_step (demo_world MacOS) one_hot True)\<^sup>*\<^sup>* s t \<and> Shutdown (demo_world MacOS) 7 7 (core s) = Ret () (core t)"
proof -
  let ?w = "demo_world MacOS"
  obtain s where s: "core_reach ?w one_hot True fresh_core s" "loop (cpu (core s)) = L_Test"
    "main s = Ready" "is_initialized (core s)" "handlers s = (\<lambda>_. No_Crash)" "serialisable ?w (core s)"
    using demo_running by blast
  have f: "w_platform ?w \<noteq> Windows" "w_resolve ?w a n \<noteq> None" "True \<longrightarrow> (\<forall>i. handlers s i = No_Crash)"
    "loop (cpu (core s)) \<in> {L_None, L_Test}" for a n
    by (simp_all add: demo_world_resolves s) (simp add: demo_world_def)
  from shutdown_is_refined [OF fresh_not_started s(1) f(1,2) s(3,4) f(3,4), of 7 7] s(1,6) show ?thesis by blast
qed

text \<open>C40: A crash that overlaps \<open>Shutdown\<close>: a thread that crashes before \<open>Shutdown\<close> removes the handlers and has
  read the reporter pointer may report after \<open>Shutdown\<close> has destroyed the reporter.\<close>

theorem crash_during_shutdown:
  assumes "not_started c0" and "core_reach w scan False c0 s" and "w_platform w \<noteq> Windows"
    and "\<And>a n. w_resolve w a n \<noteq> None" and "main s = Ready" and "is_initialized (core s)"
    and "installed (crash (core s))" and "handlers s i = No_Crash" and "loop (cpu (core s)) \<in> {L_None, L_Test}"
    and "serialisable w (core s)"
  shows "\<exists>t. core_reach w scan False c0 t \<and> main t = Ready \<and> \<not> is_initialized (core t) \<and> used_dead t"
proof -
  have sig: "11 \<in> set (crash_signals (w_platform w))" using assms(3) by (cases "w_platform w") simp_all
  have "reporter_ok s" using core_reach_inv [OF assms(2,1)] by simp
  then obtain dir where dir: "the_reporter (core s) = Some dir" using assms(5,6) by (auto simp: reporter_ok_def)
  let ?s1 = "s\<lparr>handlers := (handlers s)(i := Tracing 11)\<rparr>"
  let ?s2 = "s\<lparr>handlers := (handlers s)(i := Reporting 11 dir)\<rparr>"
  have "core_step w scan False (Crashing i) s ?s1" by (rule core_step.crash [OF assms(8,3,7) sig])
  with assms(2) have 1: "core_reach w scan False c0 ?s1" by (rule core_reach.step)
  have "core_step w scan False (Crashing i) ?s1 ?s2"
    using core_step.read [of ?s1 i 11 w scan False] dir by (simp add: GetReporter_def)
  with 1 have 2: "core_reach w scan False c0 ?s2" by (rule core_reach.step)
  note inv = core_reach_inv [OF 2 assms(1)] and unlocked = core_reach_unlocked [OF 2 assms(1,3)]
  have "\<exists>t. (quiet_step w scan False)\<^sup>*\<^sup>* ?s2 t \<and> main t = Ready \<and> handlers t = handlers ?s2 \<and>
     (Shutdown w 0 0 (core ?s2) = Ret () (core t) \<and> \<not> alive t \<or> Shutdown w 0 0 (core ?s2) = Throw (core t) \<and> alive t = alive ?s2)"
    by (rule shutdown_run) (use inv unlocked assms(3-6,9) dir in simp_all)
  moreover have "Shutdown w 0 0 (core ?s2) \<noteq> Throw c" for c
    using Shutdown_steps [of "core ?s2" w 0 0] unlocked assms(3,4,6,10) by auto
  ultimately obtain t where t: "(quiet_step w scan False)\<^sup>*\<^sup>* ?s2 t" "main t = Ready" "\<not> alive t" "handlers t = handlers ?s2"
    by blast
  have 3: "core_reach w scan False c0 t" by (rule quiet_reach [OF t(1) 2])
  then have off: "\<not> is_initialized (core t)"
    using core_reach_inv [OF 3 assms(1)] t(2,3) by (auto simp: reporter_ok_def split: if_splits)
  let ?doc = "crash_report (JInt (int 11)) []"
  have "conforms utf8_ok (S_Int 32) (JInt (int 11))" by simp
  then have "dumpable ?doc"
    by (intro conforms_dumpable(1) [OF crash_typed HOL.refl schemas_utf8(4)]) (simp_all add: trace_texts_def)
  then obtain fs where fs: "report (w_env w) dir CrashReport 0 ?doc (disk (core t)) = Ret () fs"
    using report_ends report_serialised assms(10) unfolding serialisable_def by metis
  have "handlers t i = Reporting 11 dir" by (simp add: t(4))
  from core_step.report_crash [OF this fs] 3
  have "core_reach w scan False c0 (call_reporter (t\<lparr>handlers := (handlers t)(i := No_Crash), core := (core t)\<lparr>disk := fs\<rparr>\<rparr>))"
    by (rule core_reach.step [rotated])
  with t(2,3) off show ?thesis by (intro exI conjI) (assumption, simp_all)
qed

lemma crash_during_shutdown_witness:
  "\<exists>t. core_reach (demo_world MacOS) one_hot False fresh_core t \<and> used_dead t"
proof -
  let ?w = "demo_world MacOS"
  obtain s where s: "core_reach ?w one_hot False fresh_core s" "loop (cpu (core s)) = L_Test"
    "main s = Ready" "is_initialized (core s)" "handlers s = (\<lambda>_. No_Crash)" "installed (crash (core s))"
    "serialisable ?w (core s)"
    using demo_running by blast
  have f: "w_platform ?w \<noteq> Windows" "w_resolve ?w a n \<noteq> None" "handlers s 3 = No_Crash"
    "loop (cpu (core s)) \<in> {L_None, L_Test}" for a n
    by (simp_all add: demo_world_resolves s) (simp add: demo_world_def)
  from crash_during_shutdown [OF fresh_not_started s(1) f(1,2) s(3,4,6) f(3,4) s(7)] show ?thesis by blast
qed

end
