(* ===== verification/Sessions.thy ===== *)
theory Sessions
  imports Core_Threads
begin

text \<open>
  Whole sessions: \<open>Init\<close>, what the application does in between, and the report that is on the disk at the
  end, for leaked descriptors, crashes and busy threads (src/core.cpp with src/io, src/crash_handler.cpp,
  src/profiler/cpu_monitor.cpp and src/reporter.cpp). The session that ends with the leak report is in
  the root theory.
\<close>

section \<open>Init and the IO hooks\<close>

lemma Init_setup_io:
  assumes "Init_setup w cfg c = Ret () t"
  shows "\<exists>c1. init_hooks w (c\<lparr>the_config := cfg\<rparr>) = Ret () c1 \<and> io_part t = io_part c1"
proof -
  obtain c1 c2 c3 p c4 c5 where
    s1: "init_hooks w (c\<lparr>the_config := cfg\<rparr>) = Ret () c1" and
    s: "on_alloc (Initialize (w_os w) (allocator_capacity_bytes cfg)) c1 = Ret () c2"
      "on_alloc (w_string w (output_dir cfg)) c2 = Ret () c3"
      "on_alloc (Allocate (w_os w) (w_reporter_size w) 16) c3 = Ret p c4"
      "on_alloc (w_string w (output_dir cfg)) c4 = Ret () c5"
    and t: "t = c5\<lparr>the_reporter := Some (output_dir cfg)\<rparr>"
    using assms by (auto simp: Init_setup_def obind_Ret_iff)
  from s [THEN on_alloc_kept] s1 show ?thesis by (simp add: t)
qed

lemma EnsureIoInit_monitor:
  "EnsureIoInit host st = Ret () i \<Longrightarrow>
   EnsureIoInit host (st\<lparr>monitor := m\<rparr>) = Ret () (i\<lparr>monitor := m\<rparr>) \<and> monitor i = monitor st"
  by (auto simp: EnsureIoInit_def InitIoHooks_def split: if_splits)

text \<open>\<open>io_enabled pf st\<close> are the hooks once the monitor is switched on.\<close>

definition io_enabled :: "platform \<Rightarrow> 'k io_hooks \<Rightarrow> 'k io_hooks" where
  "io_enabled pf st = st\<lparr>monitor := Enable pf (monitor st)\<rparr>"

lemma Init_monitoring:
  assumes "Init w cfg c0 = Ret () c" "\<not> is_initialized c0" "w_platform w = Linux" "enable_io_monitoring cfg"
    and "io_symbols (w_io_host w)" "io_inv (w_io_host w) (io_enabled Linux (io_part c0))"
  shows "io_inv (w_io_host w) (io_part c) \<and> kernel (io_part c) = kernel (io_part c0) \<and>
    monitor (io_part c) = Enable Linux (monitor (io_part c0))"
proof -
  obtain c6 c7 where s: "Init_setup w cfg c0 = Ret () c6" "init_crash w cfg c6 = Ret () c7"
    "c = (init_cpu cfg (init_io w cfg c7))\<lparr>is_initialized := True\<rparr>"
    using assms(1,2) by (auto simp: Init_def obind_Ret_iff)
  obtain c1 where c1: "init_hooks w (c0\<lparr>the_config := cfg\<rparr>) = Ret () c1" "io_part c6 = io_part c1"
    using Init_setup_io [OF s(1)] by blast
  then have e: "EnsureIoInit (w_io_host w) (io_part c0) = Ret () (io_part c1)"
    using assms(3) by (auto simp: init_hooks_def obind_Ret_iff)
  have p: "io_part c = io_enabled Linux (io_part c1)"
    using c1(2) init_crash_kept [OF s(2)] assms(3,4) by (simp add: s(3) init_cpu_def init_io_def io_enabled_def)
  have e': "EnsureIoInit (w_io_host w) (io_enabled Linux (io_part c0)) = Ret () (io_part c)"
    using EnsureIoInit_monitor [OF e] by (simp add: p io_enabled_def)
  obtain s where "EnsureIoInit (w_io_host w) (io_enabled Linux (io_part c0)) = Ret () s" "io_inv (w_io_host w) s"
    "monitor s = monitor (io_enabled Linux (io_part c0))" "kernel s = kernel (io_enabled Linux (io_part c0))"
    by (rule EnsureIoInit_inv [OF assms(5,6)])
  with e' show ?thesis by (simp add: io_enabled_def)
qed

section \<open>What Shutdown leaves on the disk\<close>

lemma report_frame:
  assumes "report env dir k ms d fs = Ret () fs' \<or> report env dir k ms d fs = Throw fs'" and "k' \<noteq> k"
  shows "fs' (report_filename dir (report_prefix k') ms') = fs (report_filename dir (report_prefix k') ms')"
  using json_file.emit_frame [OF assms(1), of k' ms'] assms(2) by (simp add: stored_report_def)

lemma report_stores:
  assumes "report env dir k ms d fs = Ret () fs'" and "env_can_open env (report_filename dir (report_prefix k) ms)"
    and "dump_ok env" and "dumpable d"
  shows "fs' (report_filename dir (report_prefix k) ms) = env_dump env d \<and> env_dump env d \<noteq> None"
proof -
  obtain contents where c: "env_dump env d = Some contents" using assms(3,4) unfolding dump_ok_def by blast
  from json_file.emit_stores [OF assms(2) this, of fs] assms(1) c show ?thesis by (simp add: stored_report_def)
qed

lemma run_leak_detection_disk:
  assumes "run_leak_detection w ms c = Ret () (c\<lparr>disk := fs\<rparr>)"
  shows "fs = disk c \<or> (\<exists>dir d. the_reporter c = Some dir \<and> report (w_env w) dir Leaks ms d (disk c) = Ret () fs)"
proof -
  have "fs = disk (c\<lparr>disk := fs\<rparr>)" by simp
  with assms show ?thesis
    by (auto simp: run_leak_detection_def RunLeakDetection_def GetReporter_def obind_Ret_iff
        split: option.splits dest!: arg_cong [where f = disk])
qed

text \<open>\<open>Shutdown\<close> writes the descriptors of the monitor's table, if there are any.\<close>

lemma shutdown_writes_fds:
  assumes "is_initialized c" and "plain_streams w" and "\<not> locked (monitor (io_part c))"
    and "enabled (monitor (io_part c))" and "\<And>a n. w_resolve w a n \<noteq> None" and "serialisable w c"
    and "the_reporter c = Some dir" and "env_can_open (w_env w) (report_filename dir (report_prefix IoLeak) ms2)"
  defines "es \<equiv> w_fd_iter w (open_fds (monitor (io_part c)))"
    and "file \<equiv> report_filename dir (report_prefix IoLeak) ms2"
  shows "\<exists>t. Shutdown w ms1 ms2 c = Ret () t \<and>
     (es = [] \<longrightarrow> disk t file = disk c file) \<and>
     (es \<noteq> [] \<longrightarrow> disk t file = env_dump (w_env w) (io_report es) \<and> disk t file \<noteq> None)"
proof -
  let ?c2 = "c\<lparr>crash := Uninstall (w_platform w) (crash c), cpu := cpu_Stop (cpu c)\<rparr>"
  obtain fs1 fs2 m where S: "run_leak_detection w ms1 ?c2 = Ret () (?c2\<lparr>disk := fs1\<rparr>)"
    "report_fds w ms2 (?c2\<lparr>disk := fs1\<rparr>) = Ret () (?c2\<lparr>disk := fs2\<rparr>)"
    "Shutdown w ms1 ms2 c = Ret () (?c2\<lparr>disk := fs2, io_part := (io_part c)\<lparr>monitor := m\<rparr>, the_reporter := None,
      the_config := default_config, is_initialized := False\<rparr>)"
    using Shutdown_steps_plain [OF assms(1-3,5,6), of ms1 ms2] by blast
  have 1: "fs1 file = disk c file"
    using run_leak_detection_disk [OF S(1)] report_frame [of "w_env w" dir Leaks ms1 _ "disk c" fs1 IoLeak ms2] assms(7)
    by (auto simp: file_def)
  have 2: "es = [] \<Longrightarrow> fs2 = fs1" "es \<noteq> [] \<Longrightarrow> report (w_env w) dir IoLeak ms2 (io_report es) fs1 = Ret () fs2"
    using S(2) assms(2-4,7)
    by (auto simp: report_fds_def ReportLeakedFds_def emit_io_def plain_streams_def GetReporter_def Let_def obind_Ret_iff es_def
        dest!: arg_cong [where f = disk])
  have "dumpable (io_report es)" using assms(6) by (simp add: serialisable_def fd_report_dumpable es_def)
  then have "es \<noteq> [] \<Longrightarrow> fs2 file = env_dump (w_env w) (io_report es) \<and> env_dump (w_env w) (io_report es) \<noteq> None"
    using report_stores [OF 2(2) assms(8)] assms(6) by (simp add: serialisable_def file_def)
  with S(3) 1 2(1) show ?thesis by simp
qed

text \<open>\<open>Shutdown\<close> changes no file but its two reports.\<close>

lemma report_changes:
  "report env dir k ms d fs = Ret () fs' \<Longrightarrow> p \<noteq> report_filename dir (report_prefix k) ms \<Longrightarrow> fs' p = fs p"
  by (auto simp: report_outcomes split: option.splits if_splits)

lemma Shutdown_disk_frame:
  assumes "Shutdown w ms1 ms2 c = Ret () t" and "is_initialized c" and "w_platform w \<noteq> Windows"
    and "\<not> locked (monitor (io_part c))" and "\<And>a n. w_resolve w a n \<noteq> None" and "serialisable w c"
    and "the_reporter c = Some dir" and "p \<noteq> report_filename dir (report_prefix Leaks) ms1"
    and "p \<noteq> report_filename dir (report_prefix IoLeak) ms2"
  shows "disk t p = disk c p"
proof -
  let ?c2 = "c\<lparr>crash := Uninstall (w_platform w) (crash c), cpu := cpu_Stop (cpu c)\<rparr>"
  obtain fs1 fs2 m where S: "run_leak_detection w ms1 ?c2 = Ret () (?c2\<lparr>disk := fs1\<rparr>)"
    "fs2 = fs1 \<or> (\<exists>dir d. the_reporter c = Some dir \<and> report (w_env w) dir IoLeak ms2 d fs1 = Ret () fs2)"
    "Shutdown w ms1 ms2 c = Ret () (?c2\<lparr>disk := fs2, io_part := (io_part c)\<lparr>monitor := m\<rparr>, the_reporter := None,
      the_config := default_config, is_initialized := False\<rparr>)"
    using Shutdown_steps [OF assms(2-6), of ms1 ms2] by blast
  have "fs1 p = disk c p"
    using run_leak_detection_disk [OF S(1)] report_changes [of "w_env w" dir Leaks ms1 _ "disk c" fs1 p] assms(7,8) by auto
  moreover have "fs2 p = fs1 p" using S(2) report_changes [of "w_env w" dir IoLeak ms2 _ fs1 fs2 p] assms(7,9) by auto
  ultimately show ?thesis using S(3) assms(1) by simp
qed

text \<open>On Windows, if the report's file is opened through the detour, the report locks the mutex that it holds.\<close>

lemma windows_report_relocks:
  assumes "w_platform w = Windows" and "w_stream_detoured w" and "the_reporter c = Some dir" and "fd_iter_ok (w_fd_iter w)"
    and "enabled (monitor (io_part c))" and "\<not> locked (monitor (io_part c))" and "detoured (monitor (io_part c))"
    and "open_fds (monitor (io_part c)) \<noteq> Map.empty"
    and "w_file_handle w \<noteq> INVALID_HANDLE_VALUE" and "0 \<le> sint (ucast (w_file_handle w) :: u32)"
  shows "report_fds w ms c = Undefined"
proof -
  have "finite (dom (open_fds (monitor (io_part c))))" by (rule finite)
  then have "map_of (w_fd_iter w (open_fds (monitor (io_part c)))) = open_fds (monitor (io_part c))"
    using assms(4) by (simp add: fd_iter_ok_def)
  then have "w_fd_iter w (open_fds (monitor (io_part c))) \<noteq> []" using assms(8) by auto
  then show ?thesis
    using assms
    by (simp add: report_fds_def ReportLeakedFds_def GetReporter_def emit_io_def HookedCreateFileW_def OnOpen_def
        store_fd_def with_lock_def Let_def)
qed

section \<open>A crash in a session\<close>

text \<open>The kernel delivers a signal by the process's disposition: to the handler \<open>Init\<close> has installed, or as the
  application has asked. A handler of the application is not modelled beyond its call.\<close>

definition deliver_signal ::
  "('h, 'k) world \<Rightarrow> int \<Rightarrow> frame list \<Rightarrow> nat \<Rightarrow> ('h, 'k) core_state \<Rightarrow> (crash_effect, ('h, 'k) core_state) outcome" where
  "deliver_signal w ms trace sig c =
     (if dispositions (crash c) sig = \<lparr>sa_siginfo = True, sa_pointer = own_handler (w_image w)\<rparr>
      then obind (HandleCrashSignal trace (map_option (\<lambda>dir. report (w_env w) dir CrashReport ms) (GetReporter c)) sig
                    (crash c, disk c))
             (\<lambda>effect (cr, fs). Ret effect (c\<lparr>crash := cr, disk := fs\<rparr>)) (\<lambda>(cr, fs). c\<lparr>crash := cr, disk := fs\<rparr>)
      else Ret (deliver (dispositions (crash c) sig) sig) c)"

lemma Init_installs:
  assumes "Init w cfg c0 = Ret () c" "\<not> is_initialized c0" "enable_crash_handler cfg"
  shows "\<exists>al al'. Install (w_platform w) (w_image w) (w_os w) (crash c0, al) = Ret () (crash c, al')"
proof -
  obtain c6 c7 where s: "Init_setup w cfg c0 = Ret () c6" "init_crash w cfg c6 = Ret () c7"
    "c = (init_cpu cfg (init_io w cfg c7))\<lparr>is_initialized := True\<rparr>"
    using assms(1,2) by (auto simp: Init_def obind_Ret_iff)
  have "crash c6 = crash c0" using Init_setup_kept [OF s(1)] by simp
  with s(2) assms(3) show ?thesis
    by (auto simp: s(3) init_cpu_def init_io_def init_crash_def install_crash_def put_alloc_def obind_Ret_iff) blast
qed

text \<open>The handler writes its report whenever the files can be opened and the texts are UTF-8.\<close>

lemma deliver_reports:
  assumes "the_reporter c = Some dir" and "sig < 2 ^ 31"
    and "dispositions (crash c) sig = \<lparr>sa_siginfo = True, sa_pointer = own_handler (w_image w)\<rparr>"
    and "trace_texts utf8_ok trace" and "dump_ok (w_env w)"
    and "env_can_open (w_env w) (report_filename dir (report_prefix CrashReport) ms)"
  shows "\<exists>contents. env_dump (w_env w) (crash_report (JInt (int sig)) trace) = Some contents \<and>
     deliver_signal w ms trace sig c = Ret (fst (chain_signal sig (crash c)))
       (c\<lparr>crash := snd (chain_signal sig (crash c)),
          disk := (disk c)(report_filename dir (report_prefix CrashReport) ms \<mapsto> contents)\<rparr>)"
proof -
  let ?doc = "crash_report (JInt (int sig)) trace"
  have "dumpable ?doc"
    using assms(2) by (intro conforms_dumpable(1) [OF crash_typed HOL.refl schemas_utf8(4)]) (simp_all add: assms(4))
  then obtain contents where contents: "env_dump (w_env w) ?doc = Some contents"
    using assms(5) unfolding dump_ok_def by blast
  then have "report (w_env w) dir CrashReport ms ?doc (disk c) =
      Ret () ((disk c)(report_filename dir (report_prefix CrashReport) ms \<mapsto> contents))"
    using assms(6) unfolding report_outcomes by simp
  then show ?thesis
    using assms(1,3) contents by (simp add: deliver_signal_def HandleCrashSignal_def GetReporter_def split_beta Let_def)
qed

lemma crash_signal_small: "sig \<in> set (crash_signals pf) \<Longrightarrow> sig < 2 ^ 31"
  by (cases pf) auto

text \<open>\<open>Init\<close> takes the crash signals over; the handler passes them on as the application had asked.\<close>

lemma Init_takes_signals:
  assumes "Init w cfg c0 = Ret () c" "\<not> is_initialized c0" "enable_crash_handler cfg"
    and "w_platform w \<noteq> Windows" "\<not> installed (crash c0)" "sig \<in> set (crash_signals (w_platform w))"
  shows "dispositions (crash c) sig = \<lparr>sa_siginfo = True, sa_pointer = own_handler (w_image w)\<rparr>"
    and "(sa_siginfo (dispositions (crash c0) sig) \<longrightarrow> 1 < sa_pointer (dispositions (crash c0) sig)) \<Longrightarrow>
      fst (chain_signal sig (crash c)) = deliver (dispositions (crash c0) sig) sig"
proof -
  obtain al al' where i: "Install (w_platform w) (w_image w) (w_os w) (crash c0, al) = Ret () (crash c, al')"
    using Init_installs [OF assms(1-3)] by blast
  note P = Install_posix [OF i assms(5,4)]
  show "dispositions (crash c) sig = \<lparr>sa_siginfo = True, sa_pointer = own_handler (w_image w)\<rparr>"
    using P(2) assms(6) by simp
  show "fst (chain_signal sig (crash c)) = deliver (dispositions (crash c0) sig) sig"
    if "sa_siginfo (dispositions (crash c0) sig) \<longrightarrow> 1 < sa_pointer (dispositions (crash c0) sig)"
    using P(3) assms(6) that by (auto simp: chain_signal_def deliver_def Let_def)
qed

section \<open>A scan in a session\<close>

text \<open>The reports of a scan, in order: a later one replaces an earlier one of the same millisecond.\<close>

lemma capture_all_disk:
  assumes "capture_all w trace ms (Some dir) hot fs = Ret () fs'" and "\<And>f. env_can_open (w_env w) f"
  defines "file \<equiv> \<lambda>tid. report_filename dir (report_prefix HighCpu) (ms tid)"
  shows "(\<forall>p. fs' p = (case find (\<lambda>tid. file tid = p) (rev hot) of
            None \<Rightarrow> fs p | Some tid \<Rightarrow> env_dump (w_env w) (high_cpu_report (trace tid) tid))) \<and>
         (\<forall>tid \<in> set hot. env_dump (w_env w) (high_cpu_report (trace tid) tid) \<noteq> None)"
  using assms(1)
proof (induction hot arbitrary: fs)
  case (Cons x xs)
  obtain fs1 where 1: "report (w_env w) dir HighCpu (ms x) (high_cpu_report (trace x) x) fs = Ret () fs1"
    and rest: "capture_all w trace ms (Some dir) xs fs1 = Ret () fs'"
    using Cons.prems by (auto simp: CaptureBacktraceForThread_def obind_Ret_iff)
  then obtain contents where c: "env_dump (w_env w) (high_cpu_report (trace x) x) = Some contents" "fs1 = fs(file x \<mapsto> contents)"
    using assms(2) unfolding report_outcomes file_def by (auto split: option.splits if_splits)
  have app: "find P (ys @ [x]) = (case find P ys of None \<Rightarrow> if P x then Some x else None | Some y \<Rightarrow> Some y)" for P ys
    by (induction ys) simp_all
  show ?case using Cons.IH [OF rest] c by (auto simp: app split: option.split)
qed simp

section \<open>Properties\<close>

text \<open>C3: A whole session with IO monitoring on Linux: \<open>Init\<close>, then any sequence of calls of the six interposed
  functions, then \<open>Shutdown\<close>. If names and paths are UTF-8, \<open>Shutdown\<close> returns; if some descriptor that was
  not open before the session, or was closed in it, is open in the kernel then, the IO report file
  lists exactly these descriptors, each once, with what they were opened as; if none is, no IO report is
  written.\<close>

theorem session_reports_open_fds:
  assumes "Init w cfg c0 = Ret () c" and "\<not> is_initialized c0" and "w_platform w = Linux" and "enable_io_monitoring cfg"
    and "io_symbols (w_io_host w)" and "kernel_ok (w_io_host w) fds" and "fd_iter_ok (w_fd_iter w)"
    and "io_inv (w_io_host w) (io_enabled Linux (io_part c0))" and "open_fds (monitor (io_part c0)) = Map.empty"
    and "io_calls (w_io_host w) cs (io_part c) = Ret rs (io_part c')"
    and "is_initialized c'" and "GetReporter c' = GetReporter c" and "\<And>a n. w_resolve w a n \<noteq> None"
    and "serialisable w c'" and "env_can_open (w_env w) file"
    and "file = report_filename (output_dir cfg) ''domovoy_io_leak'' ms2"
    and "old = dom (fds (kernel (io_part c0)))"
  shows "\<exists>t entries. Shutdown w ms1 ms2 c' = Ret () t \<and> distinct (map fst entries) \<and>
     map_of entries = map_option fit_info \<circ> (fds (kernel (io_part c')) |` (- (old - closed_fds cs))) \<and>
     (if entries = [] then disk t file = disk c' file
      else disk t file = env_dump (w_env w) (io_report entries) \<and> disk t file \<noteq> None)"
proof -
  have I: "io_inv (w_io_host w) (io_part c)" "kernel (io_part c) = kernel (io_part c0)"
    "monitor (io_part c) = Enable Linux (monitor (io_part c0))"
    using Init_monitoring [OF assms(1-5,8)] by simp_all
  have "mirrors old fds (io_part c)"
    using I(2,3) assms(9,17) by (auto simp: mirrors_def Enable_def Let_def fun_eq_iff restrict_map_def dom_def)
  from io_calls_done [OF assms(5,6) I(1) this, of cs] assms(10)
  have E: "io_inv (w_io_host w) (io_part c')" "mirrors (old - closed_fds cs) fds (io_part c')" by auto
  let ?es = "w_fd_iter w (open_fds (monitor (io_part c')))"
  have "finite (dom (open_fds (monitor (io_part c'))))" by (rule finite)
  then have it: "distinct (map fst ?es)" "map_of ?es = open_fds (monitor (io_part c'))"
    using assms(7) by (simp_all add: fd_iter_ok_def)
  have m: "open_fds (monitor (io_part c')) = map_option fit_info \<circ> (fds (kernel (io_part c')) |` (- (old - closed_fds cs)))"
    using E(2) by (simp add: mirrors_def)
  have c': "\<not> locked (monitor (io_part c'))" "enabled (monitor (io_part c'))" using E(1) by (simp_all add: io_inv_def)
  have rep: "the_reporter c' = Some (output_dir cfg)"
    using Init_result [OF assms(1,2)] assms(12) by (simp add: GetReporter_def)
  have pf: "w_platform w \<noteq> Windows" and f: "file = report_filename (output_dir cfg) (report_prefix IoLeak) ms2"
    using assms(3,16) by (simp_all add: report_prefix_def)
  obtain t where t: "Shutdown w ms1 ms2 c' = Ret () t" "?es = [] \<longrightarrow> disk t file = disk c' file"
    "?es \<noteq> [] \<longrightarrow> disk t file = env_dump (w_env w) (io_report ?es) \<and> disk t file \<noteq> None"
    using shutdown_writes_fds [OF assms(11) plain_posix [OF pf] c' assms(13,14) rep assms(15) [unfolded f], of ms1] unfolding f by blast
  have "if ?es = [] then disk t file = disk c' file
      else disk t file = env_dump (w_env w) (io_report ?es) \<and> disk t file \<noteq> None"
    unfolding if_bool_eq_conj using t(2,3) by blast
  with t(1) it(1) trans [OF it(2) m] show ?thesis by blast
qed

lemma demo_one_open:
  assumes "io_inv demo_io_host st" "mirrors {} demo_fds st" "kernel st = (Map.empty, 3)"
  shows "\<exists>s. io_calls demo_io_host [COpen ''a'' 0 0] st = Ret [3] s \<and> io_inv demo_io_host s \<and>
     mirrors {} demo_fds s \<and> demo_fds (kernel s) = [3 \<mapsto> \<lparr>fi_path = ''a'', fi_is_socket = False\<rparr>]"
proof -
  have "hooked_call demo_io_host (COpen ''a'' 0 0) (kernel st) = (3, [3 \<mapsto> \<lparr>fi_path = ''a'', fi_is_socket = False\<rparr>], 4)"
    by (simp add: assms(3) demo_io_host_def demo_new_def as_opened_def)
  moreover have "demo_fds ([3 \<mapsto> i], 4) = [3 \<mapsto> i]" for i
    by (auto simp: demo_fds_def fun_eq_iff)
  ultimately show ?thesis
    using io_call_done [OF demo_io_symbols demo_kernel_ok assms(1,2), of "COpen ''a'' 0 0"]
    by (auto simp: call_done_def)
qed

lemma session_reports_open_fds_witness:
  "\<exists>c s t entries. Init (demo_world Linux) full_config fresh_core = Ret () c \<and>
     io_calls demo_io_host [COpen ''a'' 0 0] (io_part c) = Ret [3] s \<and>
     Shutdown (demo_world Linux) 7 8 (c\<lparr>io_part := s\<rparr>) = Ret () t \<and>
     map_of entries = [3 \<mapsto> \<lparr>fi_path = ''a'', fi_is_socket = False\<rparr>] \<and>
     disk t (report_filename ''/tmp'' ''domovoy_io_leak'' 8) = demo_dump (io_report entries)"
proof -
  let ?w = "demo_world Linux"
  obtain c where c: "Init ?w full_config fresh_core = Ret () c" using demo_Init_Linux by blast
  have w: "w_platform ?w = Linux" "w_io_host ?w = demo_io_host" "w_fd_iter ?w = demo_fd_iter" "w_env ?w = demo_env"
    "w_resolve ?w a n \<noteq> None" "resolved_texts utf8_ok (w_resolve ?w)" for a n
    by (simp_all add: demo_world_resolves) (simp_all add: demo_world_def)
  have cfg: "enable_io_monitoring full_config" "output_dir full_config = ''/tmp''" by (simp_all add: full_config_def)
  have f: "\<not> is_initialized fresh_core" "io_enabled Linux (io_part fresh_core) = demo_io"
    "open_fds (monitor (io_part fresh_core)) = Map.empty" "kernel (io_part fresh_core) = (Map.empty, 3)"
    "monitor (io_part fresh_core) = io_start"
    by (simp_all add: fresh_core_def io_enabled_def demo_io_def io_start_def)
  have host: "io_symbols (w_io_host ?w)" "kernel_ok (w_io_host ?w) demo_fds" "fd_iter_ok (w_fd_iter ?w)"
    "io_inv (w_io_host ?w) (io_enabled Linux (io_part fresh_core))"
    unfolding w f by (rule demo_io_symbols demo_kernel_ok demo_fd_iter_ok demo_io_inv)+
  have i: "io_inv demo_io_host (io_part c)" "kernel (io_part c) = (Map.empty, 3)"
    "monitor (io_part c) = Enable Linux io_start"
    using Init_monitoring [OF c f(1) w(1) cfg(1) host(1,4)] unfolding w f by blast+
  have none: "demo_fds (Map.empty, 3) = Map.empty" by (simp add: demo_fds_def fun_eq_iff)
  then have "mirrors {} demo_fds (io_part c)" by (simp add: mirrors_def i(2,3) Enable_def io_start_def)
  from demo_one_open [OF i(1) this i(2)] obtain s where s: "io_calls demo_io_host [COpen ''a'' 0 0] (io_part c) = Ret [3] s"
    "mirrors {} demo_fds s" "demo_fds (kernel s) = [3 \<mapsto> \<lparr>fi_path = ''a'', fi_is_socket = False\<rparr>]" by blast
  let ?c = "c\<lparr>io_part := s\<rparr>"
  have c': "is_initialized ?c" "GetReporter ?c = GetReporter c"
    using Init_result [OF c f(1)] by (simp_all add: GetReporter_def)
  have m: "map_option fit_info \<circ> demo_fds (kernel s) = [3 \<mapsto> \<lparr>fi_path = ''a'', fi_is_socket = False\<rparr>]"
    by (simp add: s(3) fun_eq_iff fit_info_def fit_path_def)
  have "finite (dom (open_fds (monitor s)))" by (rule finite)
  then have "distinct (map fst (demo_fd_iter (open_fds (monitor s))))"
    "map_of (demo_fd_iter (open_fds (monitor s))) = [3 \<mapsto> \<lparr>fi_path = ''a'', fi_is_socket = False\<rparr>]"
    using demo_fd_iter_ok s(2) m by (simp_all add: fd_iter_ok_def mirrors_def restrict_map_def)
  then have "fi_path info = ''a''" if "(fd, info) \<in> set (demo_fd_iter (open_fds (monitor s)))" for fd info
    using map_of_is_SomeI [OF _ that] by (simp split: if_splits) (metis fd_info.select_convs(1))
  moreover have a: "utf8_ok ''a''" by (simp add: after_char_def byte_in_def)
  ultimately have ser: "serialisable ?w ?c"
    using demo_dump_ok w(6) a by (auto simp: serialisable_def w(3,4))
  have calls: "io_calls (w_io_host ?w) [COpen ''a'' 0 0] (io_part c) = Ret [3] (io_part ?c)" using s(1) by (simp add: w)
  let ?file = "report_filename ''/tmp'' ''domovoy_io_leak'' 8" and ?calls = "[COpen ''a'' 0 0]"
  have can: "env_can_open (w_env ?w) (report_filename (output_dir full_config) ''domovoy_io_leak'' 8)"
    by (simp add: w(4) demo_env_fields)
  from session_reports_open_fds [OF c f(1) w(1) cfg(1) host f(3) calls c' w(5) ser can HOL.refl HOL.refl, of 7]
  obtain t entries where t: "Shutdown ?w 7 8 ?c = Ret () t"
    "map_of entries = map_option fit_info \<circ>
       (demo_fds (kernel (io_part ?c)) |` (- (dom (demo_fds (kernel (io_part fresh_core))) - closed_fds ?calls)))"
    "if entries = [] then disk t ?file = disk ?c ?file
     else disk t ?file = env_dump demo_env (io_report entries) \<and> disk t ?file \<noteq> None"
    unfolding cfg(2) w(4) by (elim exE conjE) (rule that)
  have "map_of entries = [3 \<mapsto> \<lparr>fi_path = ''a'', fi_is_socket = False\<rparr>]"
    using t(2) m by (simp add: f(4) none restrict_map_def)
  moreover from this have "entries \<noteq> []" by (auto dest: fun_cong [where x = 3])
  ultimately show ?thesis using c s(1) t(1,3)
    by (intro exI [of _ c] exI [of _ s] exI [of _ t] exI [of _ entries]) (simp add: demo_env_fields)
qed

text \<open>C4: A whole session with the crash handler, on Linux and macOS: after \<open>Init\<close>, a crash signal that reaches the
  process leaves the crash report, with the signal and the trace, in the configured directory and no
  other file is changed; then the process goes on as it would have without Domovoy.\<close>

theorem session_reports_crash:
  assumes "Init w cfg c0 = Ret () c" and "\<not> is_initialized c0" and "enable_crash_handler cfg"
    and "w_platform w \<noteq> Windows" and "\<not> installed (crash c0)"
    and "crash c' = crash c" and "GetReporter c' = GetReporter c" and "sig \<in> set (crash_signals (w_platform w))"
    and "sa_siginfo (dispositions (crash c0) sig) \<longrightarrow> 1 < sa_pointer (dispositions (crash c0) sig)"
    and "trace_texts utf8_ok trace" and "dump_ok (w_env w)" and "env_can_open (w_env w) file"
    and "file = report_filename (output_dir cfg) ''domovoy_crash'' ms"
  shows "\<exists>t. deliver_signal w ms trace sig c' = Ret (deliver (dispositions (crash c0) sig) sig) t \<and>
     disk t file = env_dump (w_env w) (crash_report (JInt (int sig)) trace) \<and> disk t file \<noteq> None \<and>
     (\<forall>p. p \<noteq> file \<longrightarrow> disk t p = disk c' p)"
proof -
  have rep: "the_reporter c' = Some (output_dir cfg)"
    using Init_result [OF assms(1,2)] assms(7) by (simp add: GetReporter_def)
  note I = Init_takes_signals [OF assms(1-5,8), folded assms(6)]
  have can: "env_can_open (w_env w) (report_filename (output_dir cfg) (report_prefix CrashReport) ms)"
    using assms(12,13) by (simp add: report_prefix_def)
  from deliver_reports [OF rep crash_signal_small [OF assms(8)] I(1) assms(10,11) can] I(2) [OF assms(9)]
  show ?thesis by (auto simp: assms(13) report_prefix_def)
qed

lemma session_reports_crash_witness:
  "\<exists>c t. Init (demo_world MacOS) crash_config fresh_core = Ret () c \<and>
     deliver_signal (demo_world MacOS) 9 [] 11 c = Ret (deliver (dispositions demo_crash 11) 11) t \<and>
     disk t (report_filename ''/tmp'' ''domovoy_crash'' 9) = demo_dump (crash_report (JInt 11) [])"
proof -
  let ?w = "demo_world MacOS"
  have f: "\<not> is_initialized fresh_core" "\<not> installed (crash fresh_core)" "crash fresh_core = demo_crash"
    by (simp_all add: fresh_core_def demo_crash_def)
  obtain c6 c7 where s: "Init_setup ?w crash_config fresh_core = Ret () c6" "init_crash ?w crash_config c6 = Ret () c7"
    using demo_setup by blast
  then obtain c where c: "Init ?w crash_config fresh_core = Ret () c" using f(1) by (simp add: Init_def)
  have w: "w_platform ?w \<noteq> Windows" "w_env ?w = demo_env" "w_platform ?w = MacOS" by (simp_all add: demo_world_def)
  have cfg: "enable_crash_handler crash_config" "output_dir crash_config = ''/tmp''"
    by (simp_all add: crash_config_def full_config_def)
  have sig: "11 \<in> set (crash_signals (w_platform ?w))"
    "sa_siginfo (dispositions (crash fresh_core) 11) \<longrightarrow> 1 < sa_pointer (dispositions (crash fresh_core) 11)"
    by (simp_all add: w f(3) demo_crash_def)
  have d: "trace_texts utf8_ok []" "dump_ok (w_env ?w)"
    "env_can_open (w_env ?w) (report_filename (output_dir crash_config) ''domovoy_crash'' 9)"
    by (simp_all add: trace_texts_def w(2) demo_dump_ok demo_env_fields)
  from session_reports_crash [OF c f(1) cfg(1) w(1) f(2) HOL.refl HOL.refl sig d HOL.refl] c
  show ?thesis by (auto simp: w(2) demo_env_fields f(3) cfg(2))
qed

text \<open>C20: The monitor thread's scan on Linux, with a reporter installed, whatever UTF-8 traces its reports meet and
  whatever the clock \<open>ms\<close> is at each of them: the scan completes, remembers all readings, and writes the CPU report of each
  thread that is busy against the previous readings into the configured directory, in order. The file for a
  millisecond holds the report of the last busy thread reported in it, so that each busy thread
  has its report on the disk if no two of them share a millisecond; no other file is touched. Every scan
  of the monitor thread is one of these.\<close>

theorem busy_threads_are_written:
  fixes s :: "('h, 'k) core_threads" and ms :: "u64 \<Rightarrow> int"
  assumes "loop (cpu (core s)) = L_Check" and "GetReporter (core s) = Some dir"
    and "linux = List.map_filter (read_task (clock_ticks hz)) tasks" and "distinct (map fst linux)"
    and "\<And>f. env_can_open (w_env w) f" and "dump_ok (w_env w)" and "\<And>tid. trace_texts utf8_ok (trace tid)"
    and "hot = map fst (filter (is_hot (thread_states (cpu (core s)))) linux)"
    and "file = (\<lambda>tid. report_filename dir ''domovoy_cpu'' (ms tid))"
    and "doc = (\<lambda>tid. env_dump (w_env w) (high_cpu_report (trace tid) tid))"
  shows "(\<exists>t. monitor_scan w (CheckThreads_Linux hz (Some tasks)) trace ms s = Ret () t \<and>
            core_step w (CheckThreads_Linux hz (Some tasks)) strict Monitor s t \<and>
            thread_states (cpu (core t)) = fold remember linux (thread_states (cpu (core s))) \<and>
            (\<forall>p. disk (core t) p =
               (case find (\<lambda>tid. file tid = p) (rev hot) of None \<Rightarrow> disk (core s) p | Some tid \<Rightarrow> doc tid)) \<and>
            (\<forall>tid \<in> set hot. doc tid \<noteq> None) \<and>
            (inj_on ms (set hot) \<longrightarrow> (\<forall>tid \<in> set hot. disk (core t) (file tid) = doc tid))) \<and>
         (\<forall>t. core_step w (CheckThreads_Linux hz (Some tasks)) strict Monitor s t \<longrightarrow>
            (\<exists>trace ms. monitor_scan w (CheckThreads_Linux hz (Some tasks)) trace ms s = Ret () t))"
proof -
  let ?scan = "CheckThreads_Linux hz (Some tasks)"
  have scan: "?scan (thread_states (cpu (core s))) = (hot, fold remember linux (thread_states (cpu (core s))))"
    using linux_tasks.scan_spec assms(3,4,8) by (simp add: CheckThreads_Linux_def)
  obtain t where t: "monitor_scan w ?scan trace ms s = Ret () t" "core_step w ?scan strict Monitor s t"
    using monitor_scan_returns [of s w trace ?scan ms strict] assms(1,6,7) by blast
  have prefix: "report_prefix HighCpu = ''domovoy_cpu''" by (simp add: report_prefix_def)
  obtain fs where fs: "capture_all w trace ms (Some dir) hot (disk (core s)) = Ret () fs"
    "core t = (core s)\<lparr>cpu := (cpu (core s))\<lparr>loop := L_Test, thread_states := fold remember linux (thread_states (cpu (core s)))\<rparr>, disk := fs\<rparr>"
    using t(1) assms(2) by (auto simp: monitor_scan_def scan obind_Ret_iff)
  note D = capture_all_disk [OF fs(1) assms(5), unfolded prefix]
  have disk: "disk (core t) p = (case find (\<lambda>tid. file tid = p) (rev hot) of None \<Rightarrow> disk (core s) p | Some tid \<Rightarrow> doc tid)" for p
    using D unfolding fs(2) assms(9,10) by simp
  have each: "disk (core t) (file tid) = doc tid" if "inj_on ms (set hot)" "tid \<in> set hot" for tid
  proof -
    have same: "tid' = tid" if "tid' \<in> set hot" "file tid' = file tid" for tid'
      using that \<open>inj_on ms (set hot)\<close> \<open>tid \<in> set hot\<close> by (auto simp: assms(9) report_filename_inj inj_on_def)
    have "find (\<lambda>tid'. file tid' = file tid) (rev hot) \<noteq> None"
      using that(2) by (auto simp: find_None_iff)
    then obtain tid' where f: "find (\<lambda>tid'. file tid' = file tid) (rev hot) = Some tid'" by blast
    then have "tid' \<in> set hot" "file tid' = file tid" by (auto simp: find_Some_iff in_set_conv_nth [of _ "rev hot", simplified])
    then have "tid' = tid" by (rule same)
    with f disk [of "file tid"] show ?thesis by simp
  qed
  have "thread_states (cpu (core t)) = fold remember linux (thread_states (cpu (core s)))" by (simp add: fs(2))
  moreover have "\<forall>tid \<in> set hot. doc tid \<noteq> None" using D unfolding assms(10) by blast
  moreover have "\<exists>trace ms. monitor_scan w ?scan trace ms s = Ret () u" if "core_step w ?scan strict Monitor s u" for u
    using check_step_iff [OF assms(1)] that by blast
  ultimately show ?thesis using t disk each by blast
qed

text \<open>The monitor is about to scan a process with a busy thread.\<close>

definition demo_scanning :: "(demo_heap, demo_kernel) core_threads" where
  "demo_scanning = core_start (demo_core\<lparr>cpu := cpu_start\<lparr>running := True, loop := L_Check,
     thread_states := [17 \<mapsto> \<lparr>last_cpu_time_ns = 2000000000, last_check_time_ns = 100000000\<rparr>]\<rparr>\<rparr>)"

lemma busy_threads_are_written_witness:
  "\<exists>t. core_step (demo_world Linux) (CheckThreads_Linux 100 (Some [demo_task])) True Monitor demo_scanning t \<and>
     disk (core t) (report_filename ''/tmp'' ''domovoy_cpu'' 7) = demo_dump (high_cpu_report [] 17)"
proof -
  let ?w = "demo_world Linux" and ?scan = "CheckThreads_Linux 100 (Some [demo_task])"
  let ?st = "thread_states (cpu (core demo_scanning))"
  have s: "loop (cpu (core demo_scanning)) = L_Check" "GetReporter (core demo_scanning) = Some ''/tmp''"
    by (simp_all add: demo_scanning_def core_start_def GetReporter_def demo_core_def)
  have env: "dump_ok (w_env ?w)" "env_can_open (w_env ?w) f" "w_env ?w = demo_env" for f
    by (simp_all add: demo_world_def demo_dump_ok demo_env_fields)
  let ?readings = "List.map_filter (read_task (clock_ticks 100)) [demo_task]"
  have r: "?readings = [(17, 2670000000, 800000000)]"
    using demo_task_reading by (simp add: List.map_filter_def clock_ticks_def)
  then have d: "distinct (map fst ?readings)" by simp
  have "?st = [17 \<mapsto> \<lparr>last_cpu_time_ns = 2000000000, last_check_time_ns = 100000000\<rparr>]"
    by (simp add: demo_scanning_def core_start_def)
  then have hot: "map fst (filter (is_hot ?st) ?readings) = [17]" unfolding r using demo_task_hot by simp
  have trace: "trace_texts utf8_ok ((\<lambda>_. []) (tid :: u64))" for tid by (simp add: trace_texts_def)
  have inj: "inj_on (\<lambda>_. 7 :: int) (set [17 :: u64])" by simp
  from busy_threads_are_written [OF s HOL.refl d env(2,1) trace HOL.refl HOL.refl HOL.refl,
      where ms = "\<lambda>_. 7" and strict = True, unfolded hot] inj
  show ?thesis by (auto simp: env(3) demo_env_fields)
qed

end
