(* ===== verification/Integration_Tests.thy ===== *)
theory Integration_Tests
  imports Sessions "HOL-Library.List_Lexorder" "HOL-Library.Char_ord"
begin

text \<open>
  The integration tests (tests/integration/): the helpers of test_utils.h and the tests
  \<open>IoLeak\<close> and \<open>CrashHandler\<close> as programs over the model of the library. A test is a function from the state of
  the process to its verdict; the theorems show when the verdict is \<open>True\<close>, and when \<open>IoLeak\<close> runs into
  undefined behaviour on Windows. Of the others, \<open>MemoryLeak\<close> follows the session in the root theory, and \<open>HighCpu\<close> and
  \<open>MemoryLeakStress\<close> depend on the scheduling of their threads.
\<close>

section \<open>test_utils.h\<close>

text \<open>The working directory, whose files have the names ''./...'': what \<open>directory_iterator\<close> lists, in its
  order, which files an \<open>ifstream\<close> opens, and the parser (\<open>None\<close> if it throws).\<close>

record test_env =
  list_dir :: "files \<Rightarrow> string list"
  can_read :: "string \<Rightarrow> bool"
  parse_json :: "string \<Rightarrow> json option"

definition in_dir :: "string \<Rightarrow> string" where
  "in_dir name = ''./'' @ name"

definition is_report_of :: "string \<Rightarrow> string \<Rightarrow> bool" where
  "is_report_of pre name \<longleftrightarrow> prefix pre name \<and> sublist ''.json'' name"

definition CleanUpOldReports :: "test_env \<Rightarrow> files \<Rightarrow> files" where
  "CleanUpOldReports te fs =
     fold (\<lambda>name fs. if is_report_of ''domovoy_'' name then fs(in_dir name := None) else fs) (list_dir te fs) fs"

definition FindAndParseReport :: "test_env \<Rightarrow> string \<Rightarrow> files \<Rightarrow> json \<times> files" where
  "FindAndParseReport te pre fs =
     (case find (is_report_of pre) (list_dir te fs) of
        None \<Rightarrow> (JNull, fs)
      | Some name \<Rightarrow>
          (if can_read te (in_dir name)
           then (case Option.bind (fs (in_dir name)) (parse_json te) of None \<Rightarrow> JNull | Some d \<Rightarrow> d)
           else JNull,
           fs(in_dir name := None)))"

text \<open>\<open>report[key]\<close> on an object; on anything else it throws, which fails the test.\<close>

fun json_at :: "json \<Rightarrow> string \<Rightarrow> json option" where
  "json_at (JObj kvs) key = map_of kvs key"
| "json_at _ key = None"

text \<open>The directory has the files that exist; reading back an object keeps its \<open>type\<close>.\<close>

definition dir_ok :: "test_env \<Rightarrow> bool" where
  "dir_ok te \<longleftrightarrow> (\<forall>fs. finite (dom fs) \<longrightarrow> set (list_dir te fs) = {n. fs (in_dir n) \<noteq> None \<and> CHR ''/'' \<notin> set n})"

definition parse_ok :: "test_env \<Rightarrow> environment \<Rightarrow> bool" where
  "parse_ok te env \<longleftrightarrow>
     (\<forall>kvs s v. env_dump env (JObj kvs) = Some s \<and> distinct (map fst kvs) \<and> map_of kvs ''type'' = Some (JStr v) \<longrightarrow>
        (\<exists>d. parse_json te s = Some d \<and> json_at d ''type'' = Some (JStr v)))"

section \<open>The tests\<close>

text \<open>Each test starts from a directory without old reports.\<close>

definition clean_up :: "test_env \<Rightarrow> ('h, 'k) core_state \<Rightarrow> ('h, 'k) core_state" where
  "clean_up te c = c\<lparr>disk := CleanUpOldReports te (disk c)\<rparr>"

text \<open>The last lines of each test: the report is there and has the right type.\<close>

definition expect_report ::
  "test_env \<Rightarrow> string \<Rightarrow> (json \<Rightarrow> bool) \<Rightarrow> ('h, 'k) core_state \<Rightarrow> (bool, ('h, 'k) core_state) outcome" where
  "expect_report te pre check c =
     (let (report, fs) = FindAndParseReport te pre (disk c)
      in Ret (report \<noteq> JNull \<and> check report) (c\<lparr>disk := fs\<rparr>))"

definition io_test_config :: domovoy_config where
  "io_test_config = default_config\<lparr>output_dir := ''.'', enable_io_monitoring := True\<rparr>"

text \<open>The leak: \<open>open\<close> with \<open>O_CREAT | O_RDWR\<close> and mode 0666 on Linux (the first value) and macOS,
  \<open>CreateFileA\<close> (with the real one a parameter) on Windows. Files opened here are not on \<open>disk\<close>, which
  has only the reports.\<close>

definition leak_fd ::
  "('h, 'k) world \<Rightarrow> (string \<Rightarrow> 'k \<Rightarrow> u64 \<times> 'k) \<Rightarrow> ('h, 'k) core_state \<Rightarrow> (bool, ('h, 'k) core_state) outcome" where
  "leak_fd w create c =
     (let io = io_part c; back = (\<lambda>(m, k). c\<lparr>io_part := io\<lparr>monitor := m, kernel := k\<rparr>\<rparr>) in
      case w_platform w of
        Linux \<Rightarrow> obind (open_hook (w_io_host w) (Some ''test_io_leak.tmp'') 0x42 0x1B6 io)
                   (\<lambda>fd i. Ret (0 \<le> sint fd) (c\<lparr>io_part := i\<rparr>)) (\<lambda>i. c\<lparr>io_part := i\<rparr>)
      | MacOS \<Rightarrow> obind (my_open (sys_open (w_io_host w) Open 0) (Some ''test_io_leak.tmp'') 0x202 0x1B6 (monitor io, kernel io))
                   (\<lambda>fd s. Ret (0 \<le> sint fd) (back s)) back
      | Windows \<Rightarrow> obind (HookedCreateFileA create ''test_io_leak.tmp'' (monitor io, kernel io))
                   (\<lambda>h s. Ret (h \<noteq> INVALID_HANDLE_VALUE) (back s)) back)"

definition IoLeak_test ::
  "('h, 'k) world \<Rightarrow> test_env \<Rightarrow> (string \<Rightarrow> 'k \<Rightarrow> u64 \<times> 'k) \<Rightarrow> int \<Rightarrow> int \<Rightarrow> ('h, 'k) core_state \<Rightarrow>
   (bool, ('h, 'k) core_state) outcome" where
  "IoLeak_test w te create ms1 ms2 c =
     obnd (Init w io_test_config (clean_up te c)) (\<lambda>_ c1.
     obnd (leak_fd w create c1) (\<lambda>opened c2.
       if \<not> opened then Ret False c2
       else obnd (Shutdown w ms1 ms2 c2) (\<lambda>_ c3.
         expect_report te ''domovoy_io_leak'' (\<lambda>d. json_at d ''type'' = Some (JStr ''fd_leak'')) c3)))"

definition crash_test_config :: domovoy_config where
  "crash_test_config = default_config\<lparr>output_dir := ''.'', enable_crash_handler := True\<rparr>"

text \<open>\<open>EXPECT_DEATH\<close> runs its statement in a child process, which shares only the disk with the test; writing
  to address 0 raises SIGSEGV. The death is expected if the signal kills the child.\<close>

definition CrashHandler_child ::
  "('h, 'k) world \<Rightarrow> int \<Rightarrow> frame list \<Rightarrow> ('h, 'k) core_state \<Rightarrow> (crash_effect, ('h, 'k) core_state) outcome" where
  "CrashHandler_child w ms trace c = obnd (Init w crash_test_config c) (\<lambda>_ c1. deliver_signal w ms trace 11 c1)"

definition CrashHandler_test ::
  "('h, 'k) world \<Rightarrow> test_env \<Rightarrow> int \<Rightarrow> frame list \<Rightarrow> ('h, 'k) core_state \<Rightarrow> (bool, ('h, 'k) core_state) outcome" where
  "CrashHandler_test w te ms trace c =
     obind (CrashHandler_child w ms trace (clean_up te c))
       (\<lambda>effect child.
          if effect \<noteq> Killed 11 then Ret False (c\<lparr>disk := disk child\<rparr>)
          else expect_report te ''domovoy_crash'' (\<lambda>d. json_at d ''type'' = Some (JStr ''crash'')) (c\<lparr>disk := disk child\<rparr>))
       (\<lambda>child. c\<lparr>disk := disk child\<rparr>)"

section \<open>Lemmas\<close>

lemma fold_remove:
  "fold (\<lambda>name fs. if P name then fs(in_dir name := None) else fs) ns fs p =
     (if \<exists>n \<in> set ns. P n \<and> in_dir n = p then None else fs p)"
  by (induction ns arbitrary: fs) auto

lemma in_dir_inj [simp]: "in_dir n = in_dir m \<longleftrightarrow> n = m"
  by (simp add: in_dir_def)

lemma clean_up_fields [simp]:
  "is_initialized (clean_up te c) = is_initialized c" "io_part (clean_up te c) = io_part c"
  "crash (clean_up te c) = crash c" "disk (clean_up te c) = CleanUpOldReports te (disk c)"
  by (simp_all add: clean_up_def)

lemma cleaned:
  assumes "dir_ok te" "finite (dom fs)"
  shows "finite (dom (CleanUpOldReports te fs))"
    and "is_report_of ''domovoy_'' n \<Longrightarrow> CHR ''/'' \<notin> set n \<Longrightarrow> CleanUpOldReports te fs (in_dir n) = None"
proof -
  have l: "set (list_dir te fs) = {n. fs (in_dir n) \<noteq> None \<and> CHR ''/'' \<notin> set n}"
    using assms by (simp add: dir_ok_def)
  show "CleanUpOldReports te fs (in_dir n) = None" if "is_report_of ''domovoy_'' n" "CHR ''/'' \<notin> set n"
    using that by (auto simp: CleanUpOldReports_def fold_remove l)
  have "dom (CleanUpOldReports te fs) \<subseteq> dom fs"
    by (auto simp: CleanUpOldReports_def fold_remove split: if_splits)
  then show "finite (dom (CleanUpOldReports te fs))" using assms(2) by (rule finite_subset)
qed

text \<open>The name of a report in the working directory.\<close>

definition report_name :: "string \<Rightarrow> int \<Rightarrow> string" where
  "report_name pre ms = pre @ ''_'' @ to_string_int ms @ ''.json''"

lemma report_filename_dir: "report_filename ''.'' pre ms = in_dir (report_name pre ms)"
  by (simp add: report_filename_def in_dir_def report_name_def)

lemma report_name_found:
  assumes "CHR ''/'' \<notin> set pre"
  shows "is_report_of pre (report_name pre ms)" and "CHR ''/'' \<notin> set (report_name pre ms)"
proof -
  have "sublist ''.json'' (report_name pre ms)" unfolding report_name_def by (metis append.assoc sublist_append_leftI)
  then show "is_report_of pre (report_name pre ms)" by (simp add: is_report_of_def report_name_def)
  have "CHR ''/'' \<notin> set (dec_string i)" for i
    using dec_string_digits(1) [of i] by (auto simp: is_digit_def dest: bspec [where x = "CHR ''/''"])
  then have "CHR ''/'' \<notin> set (to_string_int ms)" by (simp add: to_string_int_def)
  then show "CHR ''/'' \<notin> set (report_name pre ms)" using assms by (simp add: report_name_def)
qed

text \<open>The only report of its prefix is found, whatever the order of the listing.\<close>

lemma only_report_found:
  assumes "dir_ok te" and "finite (dom fs)" and "fs (in_dir n) = Some s" and "is_report_of pre n" and "CHR ''/'' \<notin> set n"
    and "\<And>m. is_report_of pre m \<Longrightarrow> CHR ''/'' \<notin> set m \<Longrightarrow> m \<noteq> n \<Longrightarrow> fs (in_dir m) = None"
    and "can_read te (in_dir n)" and "parse_json te s = Some d"
  shows "FindAndParseReport te pre fs = (d, fs(in_dir n := None))"
proof -
  have l: "set (list_dir te fs) = {n. fs (in_dir n) \<noteq> None \<and> CHR ''/'' \<notin> set n}"
    using assms(1,2) by (simp add: dir_ok_def)
  have "find (is_report_of pre) (list_dir te fs) = Some n"
  proof (cases "find (is_report_of pre) (list_dir te fs)")
    case None
    moreover have "n \<in> set (list_dir te fs)" using l assms(3,5) by simp
    ultimately show ?thesis using assms(4) by (auto simp: find_None_iff)
  next
    case (Some m)
    then have m: "m \<in> set (list_dir te fs)" "is_report_of pre m" by (auto simp: find_Some_iff)
    then have f: "fs (in_dir m) \<noteq> None" "CHR ''/'' \<notin> set m" using l by simp_all
    have "m = n"
    proof (rule ccontr)
      assume "m \<noteq> n"
      from assms(6) [OF m(2) f(2) this] f(1) show False by simp
    qed
    with Some show ?thesis by simp
  qed
  then show ?thesis using assms(3,7,8) by (simp add: FindAndParseReport_def)
qed

lemma expect_report_ok:
  assumes "dir_ok te" and "finite (dom (disk c))" and "disk c (in_dir n) = Some s" and "is_report_of pre n"
    and "CHR ''/'' \<notin> set n"
    and "\<And>m. is_report_of pre m \<Longrightarrow> CHR ''/'' \<notin> set m \<Longrightarrow> m \<noteq> n \<Longrightarrow> disk c (in_dir m) = None"
    and "can_read te (in_dir n)" and "parse_ok te env" and "env_dump env (JObj kvs) = Some s" and "distinct (map fst kvs)"
    and "map_of kvs ''type'' = Some (JStr v)"
  shows "\<exists>t. expect_report te pre (\<lambda>d. json_at d ''type'' = Some (JStr v)) c = Ret True t"
proof -
  obtain d where d: "parse_json te s = Some d" "json_at d ''type'' = Some (JStr v)"
    using assms(8-11) unfolding parse_ok_def by blast
  then have "d \<noteq> JNull" by auto
  with only_report_found [OF assms(1-7) d(1)] d(2) show ?thesis by (simp add: expect_report_def)
qed

lemma reports_gone:
  assumes "dir_ok te" "finite (dom (disk c))" "prefix ''domovoy_'' pre" "is_report_of pre m" "CHR ''/'' \<notin> set m"
  shows "disk (clean_up te c) (in_dir m) = None"
proof -
  have "is_report_of ''domovoy_'' m" using assms(3,4) by (auto simp: is_report_of_def intro: prefix_order.trans)
  then show ?thesis using cleaned(2) [OF assms(1,2) _ assms(5)] by simp
qed

text \<open>The descriptor the test leaks is the only one in the monitor's table.\<close>

lemma leak_fd_linux:
  assumes "w_platform w = Linux" and "io_symbols (w_io_host w)" and "kernel_ok (w_io_host w) fds"
    and "io_inv (w_io_host w) (io_part c)" and "open_fds (monitor (io_part c)) = Map.empty"
    and "sys_open (w_io_host w) Open 0 (Some ''test_io_leak.tmp'') 0x42 0x1B6 (kernel (io_part c)) = (fd, k)" and "0 \<le> sint fd"
  shows "\<exists>i. leak_fd w create c = Ret True (c\<lparr>io_part := i\<rparr>) \<and> \<not> locked (monitor i) \<and> enabled (monitor i) \<and>
     open_fds (monitor i) = [fd \<mapsto> \<lparr>fi_path = ''test_io_leak.tmp'', fi_is_socket = False\<rparr>]"
proof -
  let ?h = "w_io_host w" and ?call = "COpen ''test_io_leak.tmp'' 0x42 0x1B6" and ?old = "dom (fds (kernel (io_part c)))"
  have "mirrors ?old fds (io_part c)" using assms(5) by (auto simp: mirrors_def fun_eq_iff restrict_map_def dom_def)
  from io_call_done [OF assms(2,3,4) this, of ?call]
  have d: "call_done ?h ?old fds (hooked_call ?h ?call (kernel (io_part c))) (run_io ?h ?call (io_part c))" by simp
  have h: "hooked_call ?h ?call (kernel (io_part c)) = (fd, k)"
    using assms(6) by (simp add: open_mode_def O_CREAT_def)
  obtain i where i: "run_io ?h ?call (io_part c) = Ret fd i" "io_inv ?h i" "mirrors ?old fds i" "kernel i = k"
    using d unfolding h call_done_def by auto
  have "new_fd fds (kernel (io_part c)) (as_opened (Some ''test_io_leak.tmp'')) fd k"
    using assms(3,6) unfolding kernel_ok_def by (metis fst_conv snd_conv)
  then have "fds k = (fds (kernel (io_part c)))(fd \<mapsto> as_opened (Some ''test_io_leak.tmp''))" "fd \<notin> ?old"
    using assms(7) by (auto simp: new_fd_def)
  then have "open_fds (monitor i) = [fd \<mapsto> \<lparr>fi_path = ''test_io_leak.tmp'', fi_is_socket = False\<rparr>]"
    using i(3,4) by (auto simp: mirrors_def fun_eq_iff restrict_map_def fit_info_def fit_path_def as_opened_def)
  moreover have "leak_fd w create c = Ret True (c\<lparr>io_part := i\<rparr>)"
    using i(1) assms(1,7) by (simp add: leak_fd_def Let_def)
  ultimately show ?thesis using i(2) by (intro exI [of _ i]) (simp add: io_inv_def)
qed

text \<open>What the two reports of \<open>Shutdown\<close> are called.\<close>

lemma names_differ:
  assumes "is_report_of ''domovoy_io_leak'' m"
  shows "in_dir m \<noteq> report_filename ''.'' (report_prefix Leaks) ms"
proof
  assume "in_dir m = report_filename ''.'' (report_prefix Leaks) ms"
  then have "m = report_name ''domovoy_leaks'' ms" by (simp add: report_filename_dir report_prefix_def)
  then show False using assms by (simp add: is_report_of_def report_name_def)
qed

section \<open>A test environment\<close>

text \<open>The directory is listed in alphabetical order; a serialiser and a parser that keep the type of a document.\<close>

definition typed_env :: environment where
  "typed_env =
     \<lparr>env_dump = (\<lambda>d. if \<not> dumpable d then None
                    else Some (case json_at d ''type'' of Some (JStr v) \<Rightarrow> v | _ \<Rightarrow> ''object'')),
      env_can_open = (\<lambda>_. True)\<rparr>"

definition demo_tests :: test_env where
  "demo_tests =
     \<lparr>list_dir = (\<lambda>fs. sorted_list_of_set {n. fs (in_dir n) \<noteq> None \<and> CHR ''/'' \<notin> set n}), can_read = (\<lambda>_. True),
      parse_json = (\<lambda>s. Some (JObj [(''type'', JStr s)]))\<rparr>"

definition test_world :: "platform \<Rightarrow> (demo_heap, demo_kernel) world" where
  "test_world pf = (demo_world pf)\<lparr>w_env := typed_env\<rparr>"

text \<open>A process with default actions for all signals.\<close>

definition plain_core :: "(demo_heap, demo_kernel) core_state" where
  "plain_core = fresh_core\<lparr>crash := demo_crash\<lparr>dispositions := (\<lambda>_. \<lparr>sa_siginfo = False, sa_pointer = SIG_DFL\<rparr>)\<rparr>\<rparr>"

lemma typed_env_ok: "dump_ok typed_env" "env_can_open typed_env f" "parse_ok demo_tests typed_env"
  by (auto simp: dump_ok_def parse_ok_def typed_env_def demo_tests_def split: if_splits)

lemma demo_tests_ok: "dir_ok demo_tests" "can_read demo_tests f"
proof -
  have "finite {n. fs (in_dir n) \<noteq> None \<and> CHR ''/'' \<notin> set n}" if "finite (dom fs)" for fs :: files
  proof -
    have "in_dir ` {n. fs (in_dir n) \<noteq> None \<and> CHR ''/'' \<notin> set n} \<subseteq> dom fs" by auto
    then have "finite (in_dir ` {n. fs (in_dir n) \<noteq> None \<and> CHR ''/'' \<notin> set n})" using that by (rule finite_subset)
    then show ?thesis by (rule finite_imageD) (simp add: inj_on_def)
  qed
  then show "dir_ok demo_tests" by (simp add: dir_ok_def demo_tests_def)
qed (simp add: demo_tests_def)

lemma test_world_fields:
  "w_platform (test_world pf) = pf" "w_io_host (test_world pf) = demo_io_host" "w_fd_iter (test_world pf) = demo_fd_iter"
  "w_env (test_world pf) = typed_env" "w_resolve (test_world pf) a n \<noteq> None"
  "resolved_texts utf8_ok (w_resolve (test_world pf))" "w_file_handle (test_world pf) = 64"
    "w_stream_detoured (test_world pf)"
  by (simp_all add: test_world_def demo_world_resolves) (simp_all add: demo_world_def)

lemma plain_core_fields:
  "\<not> is_initialized plain_core" "\<not> installed (crash plain_core)"
  "dispositions (crash plain_core) s = \<lparr>sa_siginfo = False, sa_pointer = SIG_DFL\<rparr>"
  "monitor (io_part plain_core) = io_start" "io_enabled Linux (io_part plain_core) = demo_io"
  "kernel (io_part plain_core) = (Map.empty, 3)" "finite (dom (disk plain_core))"
  "clean_up demo_tests plain_core = plain_core"
  by (simp_all add: plain_core_def fresh_core_def demo_crash_def io_enabled_def demo_io_def clean_up_def
      CleanUpOldReports_def demo_tests_def)

lemma demo_sys_open: "sys_open demo_io_host kind d path oflag m = demo_new (as_opened path)"
  by (simp add: demo_io_host_def)

lemma plain_Init: "\<exists>c. Init (test_world Linux) cfg (clean_up demo_tests plain_core) = Ret () c"
  unfolding plain_core_fields(8) unfolding test_world_def plain_core_def by (rule demo_Init_any) (simp add: demo_crash_def)

lemma plain_Init_Windows: "\<exists>c. Init (test_world Windows) io_test_config (clean_up demo_tests plain_core) = Ret () c"
proof -
  have "\<exists>al. Initialize linear_os 2097152 empty_alloc = Ret () al \<and> (\<exists>p al'. Allocate linear_os 40 16 al = Ret p al')"
    by (simp add: Initialize_def AllocateOSBlock_def linear_os_def Let_def sizeof_Block_def max_def
        Allocate_def ensure_head_def alloc_in_chain_def try_block_def align_addr_def)
  then show ?thesis
    unfolding plain_core_fields(8)
    by (auto simp: Init_defs init_hooks_def on_alloc_def put_alloc_def test_world_def demo_world_def demo_host_def plain_core_def
        fresh_core_def io_test_config_def default_config_def fresh_hooks_def Let_def)
qed

section \<open>Properties\<close>

text \<open>C25: The integration test \<open>IoLeak\<close> passes on Linux, in any directory and with any old reports in it: if \<open>Init\<close>
  returns and the kernel opens the file, \<open>Shutdown\<close> returns and the report that is found is of type
  \<open>fd_leak\<close>. (The directory must be writable and readable, and nothing the type resolver produces be other
  than UTF-8.)\<close>

theorem IoLeak_test_passes:
  assumes "Init w io_test_config (clean_up te c) = Ret () c1" and "\<not> is_initialized c" and "w_platform w = Linux"
    and "io_symbols (w_io_host w)" and "kernel_ok (w_io_host w) fds" and "fd_iter_ok (w_fd_iter w)"
    and "io_inv (w_io_host w) (io_enabled Linux (io_part c))" and "open_fds (monitor (io_part c)) = Map.empty"
    and "0 \<le> sint (fst (sys_open (w_io_host w) Open 0 (Some ''test_io_leak.tmp'') 0x42 0x1B6 (kernel (io_part c))))"
    and "\<And>a n. w_resolve w a n \<noteq> None" and "resolved_texts utf8_ok (w_resolve w)" and "dump_ok (w_env w)"
    and "\<And>f. env_can_open (w_env w) f" and "\<And>f. can_read te f" and "dir_ok te" and "parse_ok te (w_env w)"
    and "finite (dom (disk c))"
  shows "\<exists>t. IoLeak_test w te create ms1 ms2 c = Ret True t"
proof -
  let ?info = "\<lparr>fi_path = ''test_io_leak.tmp'', fi_is_socket = False\<rparr>"
  obtain fd k where o: "sys_open (w_io_host w) Open 0 (Some ''test_io_leak.tmp'') 0x42 0x1B6 (kernel (io_part c)) = (fd, k)"
    "0 \<le> sint fd" using assms(9) by (metis fst_conv surj_pair)
  have c0: "\<not> is_initialized (clean_up te c)" using assms(2) by simp
  note R = Init_result [OF assms(1) c0]
  have cfg: "enable_io_monitoring io_test_config" "output_dir io_test_config = ''.''" by (simp_all add: io_test_config_def)
  have M: "io_inv (w_io_host w) (io_part c1)" "kernel (io_part c1) = kernel (io_part c)"
    "monitor (io_part c1) = Enable Linux (monitor (io_part c))"
    using Init_monitoring [OF assms(1) c0 assms(3) cfg(1) assms(4)] assms(7) by simp_all
  have e: "open_fds (monitor (io_part c1)) = Map.empty" using assms(8) by (simp add: M(3) Enable_def Let_def)
  obtain i where i: "leak_fd w create c1 = Ret True (c1\<lparr>io_part := i\<rparr>)" "\<not> locked (monitor i)" "enabled (monitor i)"
    "open_fds (monitor i) = [fd \<mapsto> ?info]"
    using leak_fd_linux [OF assms(3-5) M(1) e o(1) [folded M(2)] o(2)] by blast
  let ?c2 = "c1\<lparr>io_part := i\<rparr>"
  let ?es = "w_fd_iter w (open_fds (monitor (io_part ?c2)))"
  have "finite (dom (open_fds (monitor i)))" by (rule finite)
  then have es: "map_of ?es = [fd \<mapsto> ?info]" "distinct (map fst ?es)" using assms(6) i(4) by (simp_all add: fd_iter_ok_def)
  then have ne: "?es \<noteq> []" by (auto dest: fun_cong [where x = fd])
  have "utf8_ok (fi_path inf)" if "(f, inf) \<in> set ?es" for f inf
    using map_of_is_SomeI [OF es(2) that] es(1) by (auto simp: after_char_def byte_in_def split: if_splits)
  then have ser: "serialisable w ?c2" using assms(11,12) by (auto simp: serialisable_def)
  have s: "is_initialized ?c2" "w_platform w \<noteq> Windows" "\<not> locked (monitor (io_part ?c2))"
    "enabled (monitor (io_part ?c2))" "the_reporter ?c2 = Some ''.''"
    using R assms(3) i(2,3) cfg(2) by simp_all
  let ?name = "report_name ''domovoy_io_leak'' ms2"
  obtain t where t: "Shutdown w ms1 ms2 ?c2 = Ret () t"
    "disk t (in_dir ?name) = env_dump (w_env w) (io_report ?es)" "disk t (in_dir ?name) \<noteq> None"
    using shutdown_writes_fds [OF s(1) plain_posix [OF s(2)] s(3,4) assms(10) ser s(5) assms(13), of ms1 ms2] ne
    unfolding report_filename_dir report_prefix_def report_kind.case by blast
  have frame: "disk t p = disk (clean_up te c) p" if "p \<noteq> report_filename ''.'' (report_prefix Leaks) ms1" "p \<noteq> in_dir ?name" for p
    using Shutdown_disk_frame [OF t(1) s(1-3) assms(10) ser s(5) that(1)] that(2) R
    by (simp add: report_filename_dir report_prefix_def)
  have "dom (disk t) \<subseteq> insert (report_filename ''.'' (report_prefix Leaks) ms1) (insert (in_dir ?name) (dom (disk (clean_up te c))))"
    using frame by (auto simp: dom_def)
  then have fin: "finite (dom (disk t))" using cleaned(1) [OF assms(15,17)] by (simp add: finite_subset)
  have others: "disk t (in_dir m) = None" if "is_report_of ''domovoy_io_leak'' m" "CHR ''/'' \<notin> set m" "m \<noteq> ?name" for m
    using frame [OF names_differ [OF that(1)]] reports_gone [OF assms(15,17) _ that(1,2)] that(3) by simp
  obtain contents where contents: "disk t (in_dir ?name) = Some contents" "env_dump (w_env w) (io_report ?es) = Some contents"
    using t(2,3) by auto
  have "\<exists>u. expect_report te ''domovoy_io_leak'' (\<lambda>d. json_at d ''type'' = Some (JStr ''fd_leak'')) t = Ret True u"
    by (rule expect_report_ok [OF assms(15) fin contents(1) report_name_found others assms(14,16) contents(2) [unfolded io_report_def]])
      simp_all
  then show ?thesis using assms(1) i(1) t(1) by (simp add: IoLeak_test_def)
qed

lemma IoLeak_test_passes_witness:
  "\<exists>t. IoLeak_test (test_world Linux) demo_tests (\<lambda>_ k. (0, k)) 7 8 plain_core = Ret True t"
proof -
  obtain c1 where c1: "Init (test_world Linux) io_test_config (clean_up demo_tests plain_core) = Ret () c1"
    using plain_Init by blast
  note w = test_world_fields [of Linux] and p = plain_core_fields
  show ?thesis
    by (rule IoLeak_test_passes [OF c1 p(1), where fds = demo_fds])
      (simp_all add: w p demo_io_symbols demo_kernel_ok demo_fd_iter_ok demo_io_inv io_start_def typed_env_ok demo_tests_ok
        demo_sys_open demo_new_def)
qed

text \<open>C26: The integration test \<open>CrashHandler\<close> passes on Linux and macOS: if the child's \<open>Init\<close> returns and the
  process has the default action for SIGSEGV, the child dies of the signal and the report the parent
  finds is of type \<open>crash\<close>.\<close>

theorem CrashHandler_test_passes:
  assumes "Init w crash_test_config (clean_up te c) = Ret () c1" and "\<not> is_initialized c" and "w_platform w \<noteq> Windows"
    and "\<not> installed (crash c)" and "dispositions (crash c) 11 = \<lparr>sa_siginfo = False, sa_pointer = SIG_DFL\<rparr>"
    and "trace_texts utf8_ok trace" and "dump_ok (w_env w)"
    and "\<And>f. env_can_open (w_env w) f" and "\<And>f. can_read te f" and "dir_ok te" and "parse_ok te (w_env w)"
    and "finite (dom (disk c))"
  shows "\<exists>t. CrashHandler_test w te ms trace c = Ret True t"
proof -
  let ?name = "report_name ''domovoy_crash'' ms"
  have c0: "\<not> is_initialized (clean_up te c)" "\<not> installed (crash (clean_up te c))" using assms(2,4) by simp_all
  note R = Init_result [OF assms(1) c0(1)]
  have cfg: "enable_crash_handler crash_test_config" "output_dir crash_test_config = ''.''"
    by (simp_all add: crash_test_config_def)
  have sig: "11 \<in> set (crash_signals (w_platform w))" using assms(3) by (cases "w_platform w") simp_all
  note T = Init_takes_signals [OF assms(1) c0(1) cfg(1) assms(3) c0(2) sig]
  have rep: "the_reporter c1 = Some ''.''" using R cfg(2) by simp
  have killed: "fst (chain_signal 11 (crash c1)) = Killed 11" using T(2) assms(5) by (simp add: deliver_def)
  obtain contents child where d: "env_dump (w_env w) (crash_report (JInt (int 11)) trace) = Some contents"
    "deliver_signal w ms trace 11 c1 = Ret (Killed 11) child" "disk child = (disk c1)(in_dir ?name \<mapsto> contents)"
    using deliver_reports [OF rep _ T(1) assms(6-8), of ms] unfolding killed report_filename_dir report_prefix_def
    by auto
  have disk: "disk child p = (if p = in_dir ?name then Some contents else disk (clean_up te c) p)" for p
    using d(3) R by simp
  let ?c = "c\<lparr>disk := disk child\<rparr>"
  have "dom (disk child) \<subseteq> insert (in_dir ?name) (dom (disk (clean_up te c)))" by (auto simp: disk split: if_splits)
  then have fin: "finite (dom (disk ?c))" using cleaned(1) [OF assms(10,12)] by (simp add: finite_subset)
  have others: "disk ?c (in_dir m) = None" if "is_report_of ''domovoy_crash'' m" "CHR ''/'' \<notin> set m" "m \<noteq> ?name" for m
    using reports_gone [OF assms(10,12) _ that(1,2)] that(3) by (simp add: disk)
  have stored: "disk ?c (in_dir ?name) = Some contents" by (simp add: disk)
  have "\<exists>u. expect_report te ''domovoy_crash'' (\<lambda>d. json_at d ''type'' = Some (JStr ''crash'')) ?c = Ret True u"
    by (rule expect_report_ok [OF assms(10) fin stored report_name_found others assms(9,11) d(1) [unfolded crash_report_def]])
      simp_all
  then show ?thesis using assms(1) d(2) by (simp add: CrashHandler_test_def CrashHandler_child_def)
qed

lemma CrashHandler_test_passes_witness:
  "\<exists>t. CrashHandler_test (test_world Linux) demo_tests 7 [] plain_core = Ret True t"
proof -
  obtain c1 where c1: "Init (test_world Linux) crash_test_config (clean_up demo_tests plain_core) = Ret () c1"
    using plain_Init by blast
  show ?thesis
    by (rule CrashHandler_test_passes [OF c1 plain_core_fields(1)])
      (simp_all add: test_world_fields plain_core_fields typed_env_ok demo_tests_ok trace_texts_def)
qed

text \<open>On Windows, if \<open>std::ofstream\<close> opens its file through the detoured \<open>CreateFileW\<close>, \<open>IoLeak\<close> runs into undefined
  behaviour: \<open>Shutdown\<close> locks the mutex that its own report holds.\<close>

theorem IoLeak_test_relocks_on_windows:
  assumes "Init w io_test_config (clean_up te c) = Ret () c1" and "\<not> is_initialized c" and "w_platform w = Windows" and "w_stream_detoured w"
    and "\<not> locked (monitor (io_part c))" and "\<not> enabled (monitor (io_part c))"
    and "create ''test_io_leak.tmp'' (kernel (io_part c1)) = (h, k)" and "h \<noteq> INVALID_HANDLE_VALUE" and "0 \<le> sint (ucast h :: u32)"
    and "\<And>a n. w_resolve w a n \<noteq> None" and "resolved_texts utf8_ok (w_resolve w)" and "dump_ok (w_env w)"
    and "fd_iter_ok (w_fd_iter w)" and "w_file_handle w \<noteq> INVALID_HANDLE_VALUE"
    and "0 \<le> sint (ucast (w_file_handle w) :: u32)"
  shows "IoLeak_test w te create ms1 ms2 c = Undefined"
proof -
  have c0: "\<not> is_initialized (clean_up te c)" using assms(2) by simp
  note R = Init_result [OF assms(1) c0]
  have m1: "monitor (io_part c1) = Enable Windows (monitor (io_part c))"
    using R assms(3) by (simp add: io_test_config_def)
  have E: "enabled (Enable Windows m)" "detoured (Enable Windows m)" "\<not> locked (Enable Windows m)"
    if "\<not> enabled m" "\<not> locked m" for m using that by (simp_all add: Enable_def Let_def)
  let ?info = "\<lparr>fi_path = fit_path ''test_io_leak.tmp'', fi_is_socket = False\<rparr>"
  let ?m = "monitor (io_part c1)"
  let ?c2 = "c1\<lparr>io_part := (io_part c1)\<lparr>monitor := add_fd (ucast h) ?info ?m, kernel := k\<rparr>\<rparr>"
  have m: "enabled ?m" "detoured ?m" "\<not> locked ?m" unfolding m1 by (rule E [OF assms(6,5)])+
  have leak: "leak_fd w create c1 = Ret True ?c2"
    using assms(3,7-9) m by (simp add: leak_fd_def HookedCreateFileA_def OnOpen_def store_fd_armed Let_def)
  let ?c3 = "?c2\<lparr>crash := Uninstall (w_platform w) (crash ?c2), cpu := cpu_Stop (cpu ?c2)\<rparr>"
  obtain fs1 where 1: "run_leak_detection w ms1 ?c3 = Ret () (?c3\<lparr>disk := fs1\<rparr>)"
    using run_leak_detection_returns [of w ms1 ?c3] assms(10-12) by blast
  have "report_fds w ms2 (?c3\<lparr>disk := fs1\<rparr>) = Undefined"
    by (rule windows_report_relocks [OF assms(3,4) _ assms(13)]) (use R m assms in \<open>simp_all add: add_fd_def store_fd_def with_lock_def map_upd_nonempty\<close>)
  with 1 have "Shutdown w ms1 ms2 ?c2 = Undefined" using R by (simp add: Shutdown_def Let_def)
  with assms(1) leak show ?thesis by (simp add: IoLeak_test_def)
qed

lemma IoLeak_test_relocks_on_windows_witness:
  "IoLeak_test (test_world Windows) demo_tests (\<lambda>_ k. (100, k)) 7 8 plain_core = Undefined"
proof -
  obtain c1 where c1: "Init (test_world Windows) io_test_config (clean_up demo_tests plain_core) = Ret () c1"
    using plain_Init_Windows by blast
  show ?thesis
    by (rule IoLeak_test_relocks_on_windows [OF c1 plain_core_fields(1), where h = 100])
      (simp_all add: test_world_fields plain_core_fields io_start_def typed_env_ok demo_fd_iter_ok INVALID_HANDLE_VALUE_def)
qed

end
