(* ===== verification/Concurrent_Tracking.thy ===== *)
theory Concurrent_Tracking
  imports Prelude
begin

text \<open>
  Tracking among threads. The interposed functions hold no lock across the real call and the
  update of their table: an acquisition (\<open>malloc\<close>, \<open>open\<close>) is the real call and then the entry, a
  release (\<open>free\<close>, \<open>close\<close>) erases the entry and then makes the real call. A step is one thread
  executing one of these halves; threads interleave arbitrarily.

  A client is disciplined about a key if it releases it only when it is live, after the call that
  returned it has returned, and once. \<open>tr_wild\<close> are the keys that the client may also release at any
  other moment. The locale \<open>two_phase\<close> proves that for all other keys the table never holds anything that is
  not live, and is exact when no call is in progress: the misuse of a key harms that key only.
\<close>

section \<open>Threads and steps\<close>

datatype ('k, 'v) track_pc =
    Idle
  | Acquired 'k 'v \<comment> \<open>between the real acquisition and the entry\<close>
  | Releasing 'k \<comment> \<open>between the erasure and the real release\<close>

record ('q, 's, 'k, 'v) tracker =
  tr_legal :: "'q \<Rightarrow> bool"
  tr_acquire :: "'q \<Rightarrow> 's \<Rightarrow> ('k \<times> 'v) option \<times> 's"
  tr_add :: "'k \<Rightarrow> 'v \<Rightarrow> 's \<Rightarrow> 's"
  tr_del :: "'k \<Rightarrow> 's \<Rightarrow> 's"
  tr_release :: "'k \<Rightarrow> 's \<Rightarrow> 's"
  tr_live :: "'s \<Rightarrow> 'k \<Rightarrow> 'v option"
  tr_wild :: "'k set"

record ('s, 'k, 'v) track_threads =
  shared :: 's
  track_pcs :: "nat \<Rightarrow> ('k, 'v) track_pc"

fun in_flight :: "('k, 'v) track_pc \<Rightarrow> 'k option" where
  "in_flight Idle = None"
| "in_flight (Acquired k v) = Some k"
| "in_flight (Releasing k) = Some k"

definition busy_key :: "('s, 'k, 'v) track_threads \<Rightarrow> 'k \<Rightarrow> bool" where
  "busy_key s k \<longleftrightarrow> (\<exists>i. in_flight (track_pcs s i) = Some k)"

definition goto :: "nat \<Rightarrow> ('k, 'v) track_pc \<Rightarrow> 's \<Rightarrow> ('s, 'k, 'v) track_threads \<Rightarrow> ('s, 'k, 'v) track_threads" where
  "goto i pc t s = s\<lparr>shared := t, track_pcs := (track_pcs s)(i := pc)\<rparr>"

inductive track_step ::
  "('q, 's, 'k, 'v) tracker \<Rightarrow> nat \<Rightarrow> ('s, 'k, 'v) track_threads \<Rightarrow> ('s, 'k, 'v) track_threads \<Rightarrow> bool"
  for ops :: "('q, 's, 'k, 'v) tracker" where
  acquire: "\<lbrakk>track_pcs s i = Idle; tr_legal ops q; tr_acquire ops q (shared s) = (Some (k, v), t)\<rbrakk> \<Longrightarrow>
    track_step ops i s (goto i (Acquired k v) t s)"
| fail: "\<lbrakk>track_pcs s i = Idle; tr_legal ops q; tr_acquire ops q (shared s) = (None, t)\<rbrakk> \<Longrightarrow>
    track_step ops i s (goto i Idle t s)"
| enter: "track_pcs s i = Acquired k v \<Longrightarrow>
    track_step ops i s (goto i Idle (tr_add ops k v (shared s)) s)"
| erase: "\<lbrakk>track_pcs s i = Idle; k \<in> tr_wild ops \<or> tr_live ops (shared s) k \<noteq> None \<and> \<not> busy_key s k\<rbrakk> \<Longrightarrow>
    track_step ops i s (goto i (Releasing k) (tr_del ops k (shared s)) s)"
| release: "track_pcs s i = Releasing k \<Longrightarrow>
    track_step ops i s (goto i Idle (tr_release ops k (shared s)) s)"

inductive_cases track_stepE: "track_step ops i s t"

definition track_start :: "'s \<Rightarrow> ('s, 'k, 'v) track_threads" where
  "track_start s0 = \<lparr>shared = s0, track_pcs = (\<lambda>_. Idle)\<rparr>"

inductive track_reach :: "('q, 's, 'k, 'v) tracker \<Rightarrow> 's \<Rightarrow> ('s, 'k, 'v) track_threads \<Rightarrow> bool"
  for ops :: "('q, 's, 'k, 'v) tracker" and s0 :: 's where
  start: "track_reach ops s0 (track_start s0)"
| step: "\<lbrakk>track_reach ops s0 s; track_step ops i s t\<rbrakk> \<Longrightarrow> track_reach ops s0 t"

definition quiescent :: "('s, 'k, 'v) track_threads \<Rightarrow> bool" where
  "quiescent s \<longleftrightarrow> (\<forall>i. track_pcs s i = Idle)"

section \<open>The contract\<close>

locale two_phase =
  fixes ops :: "('q, 's, 'k, 'v) tracker"
    and ok :: "'s \<Rightarrow> bool"
    and table :: "'s \<Rightarrow> 'k \<Rightarrow> 'v option"
  assumes acquire_some: "\<lbrakk>ok s; tr_legal ops q; tr_acquire ops q s = (Some (k, v), t)\<rbrakk> \<Longrightarrow>
      ok t \<and> table t = table s \<and> tr_live ops s k = None \<and> tr_live ops t = (tr_live ops s)(k \<mapsto> v)"
    and acquire_none: "\<lbrakk>ok s; tr_legal ops q; tr_acquire ops q s = (None, t)\<rbrakk> \<Longrightarrow>
      ok t \<and> table t = table s \<and> tr_live ops t = tr_live ops s"
    and add_law: "\<lbrakk>ok s; tr_live ops s k = Some v\<rbrakk> \<Longrightarrow>
      ok (tr_add ops k v s) \<and> table (tr_add ops k v s) = (table s)(k \<mapsto> v) \<and>
      tr_live ops (tr_add ops k v s) = tr_live ops s"
    and del_law: "\<lbrakk>ok s; tr_live ops s k \<noteq> None\<rbrakk> \<Longrightarrow>
      ok (tr_del ops k s) \<and> table (tr_del ops k s) = (table s)(k := None) \<and>
      tr_live ops (tr_del ops k s) = tr_live ops s"
    and release_law: "\<lbrakk>ok s; tr_live ops s k \<noteq> None\<rbrakk> \<Longrightarrow>
      ok (tr_release ops k s) \<and> table (tr_release ops k s) = table s \<and>
      tr_live ops (tr_release ops k s) = (tr_live ops s)(k := None)"
    and wild_add: "\<lbrakk>ok s; k \<in> tr_wild ops\<rbrakk> \<Longrightarrow>
      ok (tr_add ops k v s) \<and> tr_live ops (tr_add ops k v s) = tr_live ops s \<and>
      (\<forall>l. l \<noteq> k \<longrightarrow> table (tr_add ops k v s) l = table s l)"
    and wild_del: "\<lbrakk>ok s; k \<in> tr_wild ops\<rbrakk> \<Longrightarrow>
      ok (tr_del ops k s) \<and> tr_live ops (tr_del ops k s) = tr_live ops s \<and>
      (\<forall>l. l \<noteq> k \<longrightarrow> table (tr_del ops k s) l = table s l)"
    and wild_release: "\<lbrakk>ok s; k \<in> tr_wild ops\<rbrakk> \<Longrightarrow>
      ok (tr_release ops k s) \<and> table (tr_release ops k s) = table s \<and>
      (\<forall>l. l \<noteq> k \<longrightarrow> tr_live ops (tr_release ops k s) l = tr_live ops s l)"
begin

definition live_in :: "('s, 'k, 'v) track_threads \<Rightarrow> 'k \<Rightarrow> 'v option" where
  "live_in s = tr_live ops (shared s)"

definition pcs_ok :: "('s, 'k, 'v) track_threads \<Rightarrow> bool" where
  "pcs_ok s \<longleftrightarrow>
     (\<forall>i k v. track_pcs s i = Acquired k v \<longrightarrow> k \<notin> tr_wild ops \<longrightarrow> live_in s k = Some v) \<and>
     (\<forall>i k. track_pcs s i = Releasing k \<longrightarrow> k \<notin> tr_wild ops \<longrightarrow> live_in s k \<noteq> None) \<and>
     (\<forall>i j k. k \<notin> tr_wild ops \<longrightarrow> in_flight (track_pcs s i) = Some k \<longrightarrow> in_flight (track_pcs s j) = Some k \<longrightarrow> i = j)"

text \<open>\<open>old\<close> are keys that were live before tracking began and that no thread has touched since.\<close>

definition table_ok :: "'k set \<Rightarrow> ('s, 'k, 'v) track_threads \<Rightarrow> bool" where
  "table_ok old s \<longleftrightarrow>
     (\<forall>k. k \<notin> tr_wild ops \<longrightarrow> table (shared s) k = (if busy_key s k \<or> k \<in> old then None else live_in s k)) \<and>
     (\<forall>k \<in> old. k \<notin> tr_wild ops \<longrightarrow> live_in s k \<noteq> None \<and> \<not> busy_key s k)"

definition track_inv :: "'k set \<Rightarrow> ('s, 'k, 'v) track_threads \<Rightarrow> bool" where
  "track_inv old s \<longleftrightarrow> ok (shared s) \<and> pcs_ok s \<and> table_ok old s"

lemma busy_live: "pcs_ok s \<Longrightarrow> busy_key s k \<Longrightarrow> k \<notin> tr_wild ops \<Longrightarrow> live_in s k \<noteq> None"
  unfolding busy_key_def pcs_ok_def by (metis in_flight.elims option.distinct(1) option.inject)

lemma start_inv:
  "\<lbrakk>ok s0; table s0 = tr_live ops s0 |` (- old)\<rbrakk> \<Longrightarrow> track_inv (old \<inter> dom (tr_live ops s0)) (track_start s0)"
  by (auto simp: track_inv_def track_start_def pcs_ok_def table_ok_def busy_key_def live_in_def restrict_map_def)

text \<open>What a step of thread \<open>i\<close> has to establish.\<close>

lemma pcs_ok_goto:
  assumes "pcs_ok s" and "\<And>k. in_flight pc = Some k \<Longrightarrow> k \<notin> tr_wild ops \<Longrightarrow> \<not> busy_key s k"
    and "\<And>j k. j \<noteq> i \<Longrightarrow> in_flight (track_pcs s j) = Some k \<Longrightarrow> k \<notin> tr_wild ops \<Longrightarrow> tr_live ops t k = live_in s k"
    and "\<And>k v. pc = Acquired k v \<Longrightarrow> k \<notin> tr_wild ops \<Longrightarrow> tr_live ops t k = Some v"
    and "\<And>k. pc = Releasing k \<Longrightarrow> k \<notin> tr_wild ops \<Longrightarrow> tr_live ops t k \<noteq> None"
  shows "pcs_ok (goto i pc t s)"
  unfolding pcs_ok_def
proof (intro conjI allI impI)
  fix j k v assume a: "track_pcs (goto i pc t s) j = Acquired k v" and k: "k \<notin> tr_wild ops"
  show "live_in (goto i pc t s) k = Some v"
  proof (cases "j = i")
    case False
    with a have p: "track_pcs s j = Acquired k v" by (simp add: goto_def)
    then have "live_in s k = Some v" using assms(1) k by (simp add: pcs_ok_def)
    with assms(3) [OF False, of k] p k show ?thesis by (simp add: goto_def live_in_def)
  qed (use a k assms(4) in \<open>simp add: goto_def live_in_def\<close>)
next
  fix j k assume a: "track_pcs (goto i pc t s) j = Releasing k" and k: "k \<notin> tr_wild ops"
  show "live_in (goto i pc t s) k \<noteq> None"
  proof (cases "j = i")
    case False
    with a have p: "track_pcs s j = Releasing k" by (simp add: goto_def)
    then have "live_in s k \<noteq> None" using assms(1) k by (simp add: pcs_ok_def)
    with assms(3) [OF False, of k] p k show ?thesis by (simp add: goto_def live_in_def)
  qed (use a k assms(5) in \<open>simp add: goto_def live_in_def\<close>)
next
  fix j l k assume "k \<notin> tr_wild ops"
    "in_flight (track_pcs (goto i pc t s) j) = Some k" "in_flight (track_pcs (goto i pc t s) l) = Some k"
  with assms(1) assms(2) [of k] show "j = l"
    by (auto simp: goto_def pcs_ok_def busy_key_def split: if_splits)
qed

lemma busy_goto:
  "busy_key (goto i pc t s) k \<longleftrightarrow>
     in_flight pc = Some k \<or> (\<exists>j. j \<noteq> i \<and> in_flight (track_pcs s j) = Some k)"
proof -
  have "in_flight (track_pcs (goto i pc t s) j) = (if j = i then in_flight pc else in_flight (track_pcs s j))" for j
    by (simp add: goto_def)
  then show ?thesis unfolding busy_key_def by metis
qed

lemma busy_begin:
  assumes "track_pcs s i = Idle"
  shows "busy_key (goto i pc t s) k \<longleftrightarrow> in_flight pc = Some k \<or> busy_key s k"
proof -
  have "j \<noteq> i" if "in_flight (track_pcs s j) = Some k" for j using that assms by auto
  then show ?thesis unfolding busy_goto unfolding busy_key_def by blast
qed

lemma busy_finish:
  assumes "pcs_ok s" "in_flight (track_pcs s i) = Some k0" "k \<notin> tr_wild ops"
  shows "busy_key (goto i Idle t s) k \<longleftrightarrow> busy_key s k \<and> k \<noteq> k0"
proof -
  have "j = i \<longleftrightarrow> k = k0" if "in_flight (track_pcs s j) = Some k" for j
    using assms that unfolding pcs_ok_def by auto
  then show ?thesis unfolding busy_goto unfolding busy_key_def by auto
qed

lemma goto_fields [simp]: "shared (goto i pc t s) = t" "live_in (goto i pc t s) = tr_live ops t"
  by (simp_all add: goto_def live_in_def)

text \<open>Steps that begin a call, and steps that end one.\<close>

lemma begin_inv:
  assumes "track_inv old s" "track_pcs s i = Idle" "ok t"
    and "\<And>k. in_flight pc = Some k \<Longrightarrow> k \<notin> tr_wild ops \<Longrightarrow> \<not> busy_key s k"
    and "\<And>k. in_flight pc \<noteq> Some k \<Longrightarrow> tr_live ops t k = live_in s k \<and> table t k = table (shared s) k"
    and "\<And>k. in_flight pc = Some k \<Longrightarrow> k \<notin> tr_wild ops \<Longrightarrow> table t k = None"
    and "\<And>k v. pc = Acquired k v \<Longrightarrow> k \<notin> tr_wild ops \<Longrightarrow> tr_live ops t k = Some v"
    and "\<And>k. pc = Releasing k \<Longrightarrow> k \<notin> tr_wild ops \<Longrightarrow> tr_live ops t k \<noteq> None"
  shows "track_inv (old - {k. in_flight pc = Some k}) (goto i pc t s)"
proof -
  have "tr_live ops t k = live_in s k" if "in_flight (track_pcs s j) = Some k" "k \<notin> tr_wild ops" for j k
    using that assms(4,5) [of k] unfolding busy_key_def by blast
  then have "pcs_ok (goto i pc t s)"
    using assms(1,4,7,8) by (intro pcs_ok_goto) (auto simp: track_inv_def)
  moreover have "table t k = (if busy_key (goto i pc t s) k \<or> k \<in> old - {k. in_flight pc = Some k} then None
      else tr_live ops t k)" if "k \<notin> tr_wild ops" for k
    using that assms(1) assms(4,5,6) [of k]
    by (cases "in_flight pc = Some k") (auto simp: track_inv_def table_ok_def busy_begin [OF assms(2)])
  moreover have "tr_live ops t k \<noteq> None \<and> \<not> busy_key (goto i pc t s) k"
    if "k \<in> old - {k. in_flight pc = Some k}" "k \<notin> tr_wild ops" for k
    using that assms(1) assms(5) [of k] by (auto simp: track_inv_def table_ok_def busy_begin [OF assms(2)])
  ultimately show ?thesis using assms(3) by (simp add: track_inv_def table_ok_def)
qed

lemma finish_inv:
  assumes "track_inv old s" "in_flight (track_pcs s i) = Some k0" "ok t"
    and "\<And>k. k \<noteq> k0 \<Longrightarrow> tr_live ops t k = live_in s k \<and> table t k = table (shared s) k"
    and "k0 \<notin> tr_wild ops \<Longrightarrow> table t k0 = tr_live ops t k0"
  shows "track_inv old (goto i Idle t s)"
proof -
  have p: "pcs_ok s" using assms(1) by (simp add: track_inv_def)
  have "k \<noteq> k0" if "j \<noteq> i" "in_flight (track_pcs s j) = Some k" "k \<notin> tr_wild ops" for j k
    using that assms(2) p unfolding pcs_ok_def by blast
  then have "pcs_ok (goto i Idle t s)"
    using p assms(4) by (intro pcs_ok_goto) auto
  moreover have "busy_key s k0" using assms(2) by (auto simp: busy_key_def)
  then have k0: "k0 \<notin> old \<or> k0 \<in> tr_wild ops" using assms(1) by (auto simp: track_inv_def table_ok_def)
  have "table t k = (if busy_key (goto i Idle t s) k \<or> k \<in> old then None else tr_live ops t k)"
    if "k \<notin> tr_wild ops" for k
  proof (cases "k = k0")
    case True
    with that assms(5) k0 busy_finish [OF p assms(2) that] show ?thesis by simp
  next
    case False
    with that assms(1) assms(4) [of k] busy_finish [OF p assms(2) that] show ?thesis
      by (simp add: track_inv_def table_ok_def)
  qed
  moreover have "tr_live ops t k \<noteq> None \<and> \<not> busy_key (goto i Idle t s) k" if "k \<in> old" "k \<notin> tr_wild ops" for k
  proof -
    have "k \<noteq> k0" using that k0 by blast
    with assms(4) [of k] that assms(1) show ?thesis
      by (auto simp: track_inv_def table_ok_def busy_finish [OF p assms(2) that(2)])
  qed
  ultimately show ?thesis using assms(3) by (simp add: track_inv_def table_ok_def)
qed

lemma step_inv:
  assumes "track_step ops i s t" "track_inv old s"
  shows "\<exists>rest \<subseteq> old. track_inv rest t"
proof -
  from assms(2) have ok: "ok (shared s)" by (simp add: track_inv_def)
  have begin_ex: "\<exists>rest \<subseteq> old. track_inv rest u" if "track_inv (old - A) u" for A u
    using that by (intro exI [of _ "old - A"]) auto
  have finish_ex: "\<exists>rest \<subseteq> old. track_inv rest u" if "track_inv old u" for u
    using that by blast
  from assms(1) show ?thesis
  proof (cases rule: track_step.cases)
    case (acquire q k v u)
    from acquire_some [OF ok acquire(3,4)] have u: "ok u" "table u = table (shared s)"
      "live_in s k = None" "tr_live ops u = (live_in s)(k \<mapsto> v)" by (simp_all add: live_in_def)
    have n: "\<not> busy_key s k" if "k \<notin> tr_wild ops"
      using busy_live [of s k] assms(2) u(3) that by (auto simp: track_inv_def)
    then have "table (shared s) k = None" if "k \<notin> tr_wild ops"
      using assms(2) u(3) that by (simp add: track_inv_def table_ok_def)
    with u n have "track_inv (old - {l. in_flight (Acquired k v) = Some l}) (goto i (Acquired k v) u s)"
      by (intro begin_inv [OF assms(2) acquire(2)]) auto
    then show ?thesis unfolding acquire(1) by (rule begin_ex)
  next
    case (fail q u)
    from acquire_none [OF ok fail(3,4)]
    have "track_inv (old - {l. in_flight (Idle :: ('k, 'v) track_pc) = Some l}) (goto i Idle u s)"
      by (intro begin_inv [OF assms(2) fail(2)]) (auto simp: live_in_def)
    then show ?thesis unfolding fail(1) by (rule begin_ex)
  next
    case (enter k v)
    have live: "tr_live ops (shared s) k = Some v" if "k \<notin> tr_wild ops"
      using assms(2) enter(2) that by (simp add: track_inv_def pcs_ok_def live_in_def)
    have "ok (tr_add ops k v (shared s)) \<and> tr_live ops (tr_add ops k v (shared s)) = tr_live ops (shared s) \<and>
        (\<forall>l. l \<noteq> k \<longrightarrow> table (tr_add ops k v (shared s)) l = table (shared s) l) \<and>
        (k \<notin> tr_wild ops \<longrightarrow> table (tr_add ops k v (shared s)) k = tr_live ops (tr_add ops k v (shared s)) k)"
      using wild_add [OF ok, of k v] add_law [OF ok live] live by (cases "k \<in> tr_wild ops") auto
    with enter(2) show ?thesis
      unfolding enter(1) by (intro finish_ex finish_inv [OF assms(2)]) (auto simp: live_in_def)
  next
    case (erase k)
    have d: "ok (tr_del ops k (shared s)) \<and> tr_live ops (tr_del ops k (shared s)) = tr_live ops (shared s) \<and>
        (\<forall>l. l \<noteq> k \<longrightarrow> table (tr_del ops k (shared s)) l = table (shared s) l) \<and>
        (k \<notin> tr_wild ops \<longrightarrow> table (tr_del ops k (shared s)) k = None \<and> tr_live ops (shared s) k \<noteq> None \<and> \<not> busy_key s k)"
      using wild_del [OF ok, of k] del_law [OF ok, of k] erase(3) by (cases "k \<in> tr_wild ops") auto
    then have "track_inv (old - {l. in_flight (Releasing k :: ('k, 'v) track_pc) = Some l}) (goto i (Releasing k) (tr_del ops k (shared s)) s)"
      by (intro begin_inv [OF assms(2) erase(2)]) (auto simp: live_in_def)
    then show ?thesis unfolding erase(1) by (rule begin_ex)
  next
    case (release k)
    have o: "tr_live ops (shared s) k \<noteq> None" if "k \<notin> tr_wild ops"
      using assms(2) release(2) that by (auto simp: track_inv_def pcs_ok_def live_in_def)
    have "busy_key s k" unfolding busy_key_def using release(2) by (metis in_flight.simps(3))
    then have n: "table (shared s) k = None" if "k \<notin> tr_wild ops"
      using assms(2) that by (simp add: track_inv_def table_ok_def)
    have "ok (tr_release ops k (shared s)) \<and> table (tr_release ops k (shared s)) = table (shared s) \<and>
        (\<forall>l. l \<noteq> k \<longrightarrow> tr_live ops (tr_release ops k (shared s)) l = tr_live ops (shared s) l) \<and>
        (k \<notin> tr_wild ops \<longrightarrow> tr_live ops (tr_release ops k (shared s)) k = None)"
      using wild_release [OF ok, of k] release_law [OF ok o] by (cases "k \<in> tr_wild ops") auto
    with n release(2) show ?thesis
      unfolding release(1) by (intro finish_ex finish_inv [OF assms(2)]) (auto simp: live_in_def)
  qed
qed

lemma reach_inv:
  assumes "track_reach ops s0 s" "ok s0" "table s0 = tr_live ops s0 |` (- old)"
  shows "\<exists>rest \<subseteq> old. track_inv rest s"
  using assms(1)
proof (induction rule: track_reach.induct)
  case start
  show ?case using start_inv [OF assms(2,3)] by blast
next
  case (step s i t)
  then obtain rest where "rest \<subseteq> old" "track_inv rest s" by blast
  with step_inv [OF step.hyps(2), of rest] show ?case by (meson order_trans)
qed

text \<open>At every moment the table holds live keys with their values only; a live key is missing only if
  it is old or a call about it is in progress; and if no call is, the table is exact.\<close>

lemma table_exact:
  assumes "track_reach ops s0 s" "ok s0" "table s0 = tr_live ops s0 |` (- old)"
  shows "k \<notin> tr_wild ops \<Longrightarrow> table (shared s) k = Some v \<Longrightarrow> tr_live ops (shared s) k = Some v"
    and "k \<notin> tr_wild ops \<Longrightarrow> table (shared s) k = None \<Longrightarrow> tr_live ops (shared s) k \<noteq> None \<Longrightarrow> busy_key s k \<or> k \<in> old"
    and "quiescent s \<Longrightarrow> \<exists>rest \<subseteq> old. table (shared s) |` (- tr_wild ops) = tr_live ops (shared s) |` (- (rest \<union> tr_wild ops))"
proof -
  obtain rest where rest: "rest \<subseteq> old" "track_inv rest s" using reach_inv [OF assms] by blast
  then have t: "table (shared s) k = (if busy_key s k \<or> k \<in> rest then None else tr_live ops (shared s) k)"
    if "k \<notin> tr_wild ops" for k
    using that by (simp add: track_inv_def table_ok_def live_in_def)
  show "tr_live ops (shared s) k = Some v" if "k \<notin> tr_wild ops" "table (shared s) k = Some v"
    using t [of k] that by (auto split: if_splits)
  show "k \<notin> tr_wild ops \<Longrightarrow> table (shared s) k = None \<Longrightarrow> tr_live ops (shared s) k \<noteq> None \<Longrightarrow> busy_key s k \<or> k \<in> old"
    using t [of k] rest(1) by (auto split: if_splits)
  show "\<exists>rest \<subseteq> old. table (shared s) |` (- tr_wild ops) = tr_live ops (shared s) |` (- (rest \<union> tr_wild ops))"
    if "quiescent s"
  proof (intro exI conjI)
    show "table (shared s) |` (- tr_wild ops) = tr_live ops (shared s) |` (- (rest \<union> tr_wild ops))"
      using t that by (auto simp: busy_key_def quiescent_def restrict_map_def fun_eq_iff)
  qed (rule rest(1))
qed

text \<open>A disciplined client.\<close>

lemma table_exact_disciplined:
  assumes "track_reach ops s0 s" "ok s0" "table s0 = tr_live ops s0 |` (- old)" "tr_wild ops = {}"
  shows "table (shared s) \<subseteq>\<^sub>m tr_live ops (shared s)"
    and "table (shared s) k = None \<Longrightarrow> tr_live ops (shared s) k \<noteq> None \<Longrightarrow> busy_key s k \<or> k \<in> old"
    and "quiescent s \<Longrightarrow> \<exists>rest \<subseteq> old. table (shared s) = tr_live ops (shared s) |` (- rest)"
proof -
  have "m |` UNIV = m" for m :: "'k \<Rightarrow> 'v option" by (simp add: restrict_map_def)
  then show "quiescent s \<Longrightarrow> \<exists>rest \<subseteq> old. table (shared s) = tr_live ops (shared s) |` (- rest)"
    using table_exact(3) [OF assms(1-3)] assms(4) by simp
qed (use table_exact(1,2) [OF assms(1-3)] assms(4) in \<open>auto simp: map_le_def\<close>)

end

end
