(* ===== verification/Concurrent_Hooks.thy ===== *)
theory Concurrent_Hooks
  imports Alloc_Hooks_Correct Io_Hooks Concurrent_Tracking
begin

text \<open>
  The hooks among threads. Once initialised, \<open>malloc\<close>, \<open>calloc\<close>, \<open>memalign\<close>, \<open>posix_memalign\<close> and
  \<open>free\<close> (src/memory/linux_alloc_hooks.cpp), and \<open>open\<close>, \<open>openat\<close>, their 64-bit variants, \<open>socket\<close>
  and \<open>close\<close> (src/io/linux_io_hooks.cpp) are two atomic halves each: the call of the real function
  and the update of the table, which a mutex protects. The halves are given here, shown to
  compose to the hooks, and to satisfy \<open>two_phase\<close>. (\<open>realloc\<close> of a block is in \<open>Concurrent_Realloc\<close>.)
\<close>

section \<open>The heap\<close>

text \<open>\<open>RRealloc n\<close> is \<open>realloc(nullptr, n)\<close>.\<close>

datatype heap_request = RMalloc u64 | RCalloc u64 u64 | RMemalign u64 u64 | RPosixMemalign addr u64 u64 | RRealloc u64

fun request_call :: "heap_request \<Rightarrow> heap_call" where
  "request_call (RMalloc n) = Malloc n"
| "request_call (RCalloc m n) = Calloc m n"
| "request_call (RMemalign a n) = Memalign a n"
| "request_call (RPosixMemalign mp a n) = PosixMemalign mp a n"
| "request_call (RRealloc n) = Realloc nullptr n"

definition obtained :: "addr \<Rightarrow> u64 \<Rightarrow> (addr \<times> u64) option" where
  "obtained p n = (if p = nullptr then None else Some (p, n))"

fun heap_acquire :: "'h host \<Rightarrow> heap_request \<Rightarrow> 'h hooks \<Rightarrow> (addr \<times> u64) option \<times> 'h hooks" where
  "heap_acquire host (RMalloc n) st =
     (let (p, h) = c_malloc host n (heap st) in (obtained p n, st\<lparr>heap := h\<rparr>))"
| "heap_acquire host (RCalloc m n) st =
     (let (p, h) = c_calloc host m n (heap st) in (obtained p (m * n), st\<lparr>heap := h\<rparr>))"
| "heap_acquire host (RMemalign a n) st =
     (let (p, h) = c_memalign host a n (heap st) in (obtained p n, st\<lparr>heap := h\<rparr>))"
| "heap_acquire host (RPosixMemalign mp a n) st =
     (let (r, p, h) = c_posix_memalign host mp a n (heap st)
      in (if r = 0 then obtained p n else None, st\<lparr>heap := h\<rparr>))"
| "heap_acquire host (RRealloc n) st =
     (case c_realloc host nullptr n (heap st) of
        None \<Rightarrow> (None, st)
      | Some (p, h) \<Rightarrow> (obtained p n, st\<lparr>heap := h\<rparr>))"

definition heap_release :: "'h host \<Rightarrow> addr \<Rightarrow> 'h hooks \<Rightarrow> 'h hooks" where
  "heap_release host p st = (case c_free host p (heap st) of Some h \<Rightarrow> st\<lparr>heap := h\<rparr> | None \<Rightarrow> st)"

definition heap_ops :: "'h host \<Rightarrow> ('h \<Rightarrow> addr \<Rightarrow> u64 option) \<Rightarrow> (heap_request, 'h hooks, addr, u64) tracker" where
  "heap_ops host live =
     \<lparr>tr_legal = (\<lambda>q. legal_call Map.empty (request_call q)), tr_acquire = heap_acquire host,
      tr_add = AddAllocation True, tr_del = RemoveAllocation True, tr_release = heap_release host,
      tr_live = (\<lambda>st. live (heap st)), tr_wild = {}\<rparr>"

text \<open>The halves compose to the hooks.\<close>

lemma AddAllocation_null: "AddAllocation track nullptr n st = st"
  by (simp add: AddAllocation_def)

lemma request_two_steps:
  assumes "libc_ok host live" and "hooks_ready st" and "legal_call Map.empty (request_call q)"
  shows "hook_call host True (request_call q) st =
     (case heap_acquire host q st of
        (None, t) \<Rightarrow> Ret nullptr t
      | (Some (p, n), t) \<Rightarrow> Ret p (AddAllocation True p n t))"
proof (cases q)
  case (RMalloc n)
  obtain p h where "c_malloc host n (heap st) = (p, h)" by fastforce
  with RMalloc assms(2) show ?thesis by (simp add: ready_malloc obtained_def AddAllocation_null)
next
  case (RCalloc m n)
  obtain p h where "c_calloc host m n (heap st) = (p, h)" by fastforce
  with RCalloc assms(2) show ?thesis by (simp add: ready_calloc obtained_def AddAllocation_null)
next
  case (RMemalign a n)
  obtain p h where "c_memalign host a n (heap st) = (p, h)" by fastforce
  with RMemalign assms(2) show ?thesis by (simp add: ready_memalign obtained_def AddAllocation_null)
next
  case (RPosixMemalign mp a n)
  obtain r p h where "c_posix_memalign host mp a n (heap st) = (r, p, h)" by (rule prod_cases3)
  with RPosixMemalign assms(2,3) show ?thesis by (simp add: ready_posix_memalign obtained_def AddAllocation_null)
next
  case (RRealloc n)
  obtain p h where "c_realloc host nullptr n (heap st) = Some (p, h)"
    using libc_realloc [OF assms(1), of nullptr "heap st" n] by blast
  with RRealloc assms(2) show ?thesis by (simp add: ready_realloc obtained_def AddAllocation_null)
qed

lemma free_two_steps:
  assumes "libc_ok host live" and "hooks_ready st" and "live (heap st) p \<noteq> None"
  shows "hook_call host True (Free p) st = Ret nullptr (heap_release host p (RemoveAllocation True p st))"
proof -
  from libc_free [OF assms(1)] assms(3) obtain h where "c_free host p (heap st) = Some h" by blast
  then show ?thesis using ready_free [OF assms(2)] by (simp add: heap_release_def)
qed

text \<open>The C library's contract gives the laws of \<open>two_phase\<close>.\<close>

lemma heap_acquire_result:
  assumes "libc_ok host live" "legal_call Map.empty (request_call q)" "heap_acquire host q st = (r, t)"
  shows "\<exists>h. t = st\<lparr>heap := h\<rparr> \<and>
     (case r of None \<Rightarrow> live h = live (heap st)
      | Some (p, n) \<Rightarrow> p \<noteq> nullptr \<and> live (heap st) p = None \<and> live h = (live (heap st))(p \<mapsto> n))"
proof (cases q)
  case (RMalloc n)
  obtain p h where c: "c_malloc host n (heap st) = (p, h)" by fastforce
  with assms(1) have "allocates live (heap st) n p h" by (simp add: libc_ok_def)
  with RMalloc c assms(3) show ?thesis by (auto simp: obtained_def allocates_def split: if_splits)
next
  case (RCalloc m n)
  obtain p h where c: "c_calloc host m n (heap st) = (p, h)" by fastforce
  with assms(1) have "allocates live (heap st) (m * n) p h" by (simp add: libc_ok_def)
  with RCalloc c assms(3) show ?thesis by (auto simp: obtained_def allocates_def split: if_splits)
next
  case (RMemalign a n)
  obtain p h where c: "c_memalign host a n (heap st) = (p, h)" by fastforce
  with assms(1) have "allocates live (heap st) n p h" by (simp add: libc_ok_def)
  with RMemalign c assms(3) show ?thesis by (auto simp: obtained_def allocates_def split: if_splits)
next
  case (RPosixMemalign mp a n)
  obtain c p h where c: "c_posix_memalign host mp a n (heap st) = (c, p, h)" by (rule prod_cases3)
  have "mp \<noteq> nullptr" using assms(2) RPosixMemalign by simp
  from libc_posix_memalign [OF assms(1) this c]
  have "if c = 0 then allocates live (heap st) n p h else live h = live (heap st)" .
  with RPosixMemalign c assms(3) show ?thesis by (auto simp: obtained_def allocates_def split: if_splits)
next
  case (RRealloc n)
  obtain p h where c: "c_realloc host nullptr n (heap st) = Some (p, h)"
    "if p = nullptr then live h = live (heap st)
     else live (heap st) p = None \<and> live h = (live (heap st))(nullptr := None, p \<mapsto> n)"
    using libc_realloc [OF assms(1), of nullptr "heap st" n] live_null [OF assms(1)] by (auto split: if_splits)
  moreover have "(live (heap st))(nullptr := None) = live (heap st)"
    using live_null [OF assms(1)] by (simp add: fun_upd_idem_iff)
  ultimately show ?thesis using RRealloc assms(3) by (auto simp: obtained_def split: if_splits)
qed

lemma heap_release_result:
  assumes "libc_ok host live" "live (heap st) p \<noteq> None"
  shows "\<exists>h. heap_release host p st = st\<lparr>heap := h\<rparr> \<and> live h = (live (heap st))(p := None)"
proof -
  from libc_free [OF assms(1)] assms(2) obtain h where
    "c_free host p (heap st) = Some h" "live h = (live (heap st))(p := None)" by blast
  then show ?thesis by (intro exI [of _ h]) (simp add: heap_release_def)
qed

lemma live_nonnull: "libc_ok host live \<Longrightarrow> live h p \<noteq> None \<Longrightarrow> p \<noteq> nullptr"
  using live_null [of host live h] by (auto simp: fun_upd_idem_iff)

interpretation heap_threads: two_phase "heap_ops host live" "\<lambda>st. libc_ok host live \<and> hooks_ready st" tracked
  for host :: "'h host" and live
proof (unfold_locales, goal_cases)
  case (1 s q k v t)
  with heap_acquire_result [of host live q s "Some (k, v)" t] show ?case by (auto simp: heap_ops_def)
next
  case (2 s q t)
  with heap_acquire_result [of host live q s None t] show ?case by (auto simp: heap_ops_def)
next
  case (3 s k v)
  then show ?case using live_nonnull [of host live "heap s" k] by (simp add: heap_ops_def)
next
  case (4 s k)
  then show ?case using live_nonnull [of host live "heap s" k] by (simp add: heap_ops_def)
next
  case (5 s k)
  with heap_release_result [of host live s k] show ?case by (auto simp: heap_ops_def)
qed (simp_all add: heap_ops_def)

text \<open>A thread inside a call can always go on.\<close>

lemma track_progress: "track_pcs s i \<noteq> Idle \<Longrightarrow> \<exists>t. track_step ops i s t"
  by (cases "track_pcs s i") (auto intro: track_step.intros)

section \<open>Descriptors\<close>

fun io_value :: "io_call \<Rightarrow> fd_info" where
  "io_value (CSocket d t p) = \<lparr>fi_path = fit_path ''socket'', fi_is_socket = True\<rparr>"
| "io_value (COpen p fl m) = \<lparr>fi_path = fit_path p, fi_is_socket = False\<rparr>"
| "io_value (COpen64 p fl m) = \<lparr>fi_path = fit_path p, fi_is_socket = False\<rparr>"
| "io_value (COpenAt d p fl m) = \<lparr>fi_path = fit_path p, fi_is_socket = False\<rparr>"
| "io_value (COpenAt64 d p fl m) = \<lparr>fi_path = fit_path p, fi_is_socket = False\<rparr>"
| "io_value (CClose fd) = \<lparr>fi_path = '''', fi_is_socket = False\<rparr>"

definition io_acquire :: "'k io_host \<Rightarrow> io_call \<Rightarrow> 'k io_hooks \<Rightarrow> (u32 \<times> fd_info) option \<times> 'k io_hooks" where
  "io_acquire host q st =
     (let (fd, k) = hooked_call host q (kernel st)
      in (if 0 \<le> sint fd then Some (fd, io_value q) else None, st\<lparr>kernel := k\<rparr>))"

definition io_enter :: "u32 \<Rightarrow> fd_info \<Rightarrow> 'k io_hooks \<Rightarrow> 'k io_hooks" where
  "io_enter fd info st = st\<lparr>monitor := add_fd fd info (monitor st)\<rparr>"

definition io_erase :: "u32 \<Rightarrow> 'k io_hooks \<Rightarrow> 'k io_hooks" where
  "io_erase fd st = st\<lparr>monitor := del_fd fd (monitor st)\<rparr>"

definition io_release :: "'k io_host \<Rightarrow> u32 \<Rightarrow> 'k io_hooks \<Rightarrow> 'k io_hooks" where
  "io_release host fd st = st\<lparr>kernel := snd (sys_close host fd (kernel st))\<rparr>"

fun is_close :: "io_call \<Rightarrow> bool" where
  "is_close (CClose fd) = True"
| "is_close c = False"

text \<open>The program may close any number at any moment: \<open>W\<close> are those that it closes while they are not
  open, or while another call about them is in progress.\<close>

definition io_ops ::
  "u32 set \<Rightarrow> 'k io_host \<Rightarrow> ('k \<Rightarrow> u32 \<Rightarrow> fd_info option) \<Rightarrow> (io_call, 'k io_hooks, u32, fd_info) tracker" where
  "io_ops W host fds =
     \<lparr>tr_legal = (\<lambda>q. \<not> is_close q), tr_acquire = io_acquire host, tr_add = io_enter, tr_del = io_erase,
      tr_release = io_release host, tr_live = (\<lambda>st. map_option fit_info \<circ> fds (kernel st)), tr_wild = W\<rparr>"

definition io_ready :: "'k io_host \<Rightarrow> 'k io_hooks \<Rightarrow> bool" where
  "io_ready host st \<longleftrightarrow> io_inv host st \<and> io_hooks_initialized st"

lemma ready_EnsureIoInit: "io_ready host st \<Longrightarrow> EnsureIoInit host st = Ret () st"
  by (simp add: io_ready_def EnsureIoInit_def)

lemma ready_symbols:
  assumes "io_ready host st"
  shows "real_open st \<noteq> nullptr" "real_openat st \<noteq> nullptr" "real_close st \<noteq> nullptr" "real_socket st \<noteq> nullptr"
    "real_open64 st = io_dlsym host ''open64''" "real_openat64 st = io_dlsym host ''openat64''"
  using assms by (simp_all add: io_ready_def io_inv_def)

lemma ready_armed: "io_ready host st \<Longrightarrow> io_armed (monitor st) \<and> \<not> locked (monitor st)"
  using inv_armed [of host st] by (simp add: io_ready_def)

text \<open>The halves compose to the hooks.\<close>

lemma finish_two_steps:
  assumes "io_ready host st"
  shows "finish_open (Some p) r st =
     Ret (fst r) (if 0 \<le> sint (fst r)
                  then io_enter (fst r) \<lparr>fi_path = fit_path p, fi_is_socket = False\<rparr> (st\<lparr>kernel := snd r\<rparr>)
                  else st\<lparr>kernel := snd r\<rparr>)"
  using ready_armed [OF assms]
  by (cases r) (simp add: finish_open_def OnOpen_def store_fd_armed io_enter_def)

lemma io_two_steps:
  assumes "io_ready host st" and "\<not> is_close q"
  shows "run_io host q st =
     Ret (fst (hooked_call host q (kernel st)))
       (case io_acquire host q st of (None, t) \<Rightarrow> t | (Some (fd, info), t) \<Rightarrow> io_enter fd info t)"
proof -
  note r = ready_EnsureIoInit [OF assms(1)] ready_symbols [OF assms(1)]
  note f = finish_two_steps [OF assms(1)]
  show ?thesis
  proof (cases q)
    case (COpen p fl m)
    then show ?thesis using r by (simp add: open_hook_def Let_def f io_acquire_def split: prod.splits)
  next
    case (COpen64 p fl m)
    then show ?thesis using r by (simp add: open64_hook_def Let_def f io_acquire_def split: prod.splits)
  next
    case (COpenAt d p fl m)
    then show ?thesis using r by (simp add: openat_hook_def Let_def f io_acquire_def split: prod.splits)
  next
    case (COpenAt64 d p fl m)
    then show ?thesis using r by (simp add: openat64_hook_def Let_def f io_acquire_def split: prod.splits)
  next
    case (CClose fd)
    then show ?thesis using assms(2) by simp
  next
    case (CSocket d t p)
    then show ?thesis using r ready_armed [OF assms(1)]
      by (simp add: socket_hook_def Let_def io_acquire_def OnSocket_def store_fd_armed io_enter_def split: prod.splits)
  qed
qed

lemma close_two_steps:
  assumes "io_ready host st"
  shows "run_io host (CClose fd) st =
     Ret (fst (sys_close host fd (kernel st))) (io_release host fd (io_erase fd st))"
  using ready_EnsureIoInit [OF assms] ready_symbols [OF assms] ready_armed [OF assms]
  by (simp add: close_hook_def OnClose_armed io_release_def io_erase_def split: prod.splits)

definition fit_new :: "('k \<Rightarrow> u32 \<Rightarrow> fd_info option) \<Rightarrow> 'k \<Rightarrow> fd_info \<Rightarrow> u32 \<times> 'k \<Rightarrow> bool" where
  "fit_new fds k i r \<longleftrightarrow>
     (if sint (fst r) < 0 then fds (snd r) = fds k
      else fds k (fst r) = None \<and> map_option fit_info \<circ> fds (snd r) = (map_option fit_info \<circ> fds k)(fst r \<mapsto> i))"

lemma new_fd_fit: "new_fd fds k info fd k' \<Longrightarrow> fit_new fds k (fit_info info) (fd, k')"
  by (auto simp: new_fd_def fit_new_def fun_eq_iff)

lemma open_new:
  assumes "kernel_ok host fds"
  shows "fit_new fds k \<lparr>fi_path = fit_path p, fi_is_socket = False\<rparr> (sys_open host kd d (Some p) fl m k)"
  using new_fd_fit [OF kernel_new_open [OF assms, of k "Some p" kd d fl m]]
  by (simp add: as_opened_def fit_info_def)

lemma socket_new:
  assumes "kernel_ok host fds"
  shows "fit_new fds k \<lparr>fi_path = fit_path ''socket'', fi_is_socket = True\<rparr> (sys_socket host d t p k)"
  using new_fd_fit [OF kernel_new_socket [OF assms, of d t p k "fst (sys_socket host d t p k)" "snd (sys_socket host d t p k)"]]
  by (simp add: fit_info_def)

lemma hooked_new: "\<lbrakk>kernel_ok host fds; \<not> is_close q\<rbrakk> \<Longrightarrow> fit_new fds k (io_value q) (hooked_call host q k)"
  by (cases q) (simp_all add: open_new socket_new)

text \<open>An entry or an erasure concerns one descriptor, whatever the descriptor's state.\<close>

lemma io_touch:
  assumes "io_ready host st" and "f = io_enter fd info \<or> f = io_erase fd"
  shows "io_ready host (f st) \<and> kernel (f st) = kernel st \<and>
    (\<forall>l. l \<noteq> fd \<longrightarrow> open_fds (monitor (f st)) l = open_fds (monitor st) l)"
proof (cases "f = io_erase fd")
  case True
  then show ?thesis
    using assms(1) ready_armed [OF assms(1)]
    by (cases "0 \<le> sint fd")
      (auto simp: io_erase_def open_fds_del io_ready_def io_inv_def)
next
  case False
  then show ?thesis
    using assms ready_armed [OF assms(1)]
    by (auto simp: io_enter_def open_fds_add io_ready_def io_inv_def fd_table.armed_add)
qed

lemma close_frame:
  assumes "kernel_ok host fds" "io_ready host st"
  shows "io_ready host (io_release host fd st) \<and> monitor (io_release host fd st) = monitor st \<and>
    (\<forall>l. l \<noteq> fd \<longrightarrow> fds (kernel (io_release host fd st)) l = fds (kernel st) l)"
proof -
  obtain r k' where "sys_close host fd (kernel st) = (r, k')" by fastforce
  with kernel_close [OF assms(1) this] assms(2) show ?thesis
    by (auto simp: io_release_def io_ready_def io_inv_kernel)
qed

interpretation io_threads: two_phase "io_ops W host fds" "\<lambda>st. kernel_ok host fds \<and> io_ready host st" "\<lambda>st. open_fds (monitor st)"
  for W and host :: "'k io_host" and fds
proof (unfold_locales, goal_cases)
  case (1 s q k v t)
  obtain fd k' where h: "hooked_call host q (kernel s) = (fd, k')" by fastforce
  with 1 hooked_new [of host fds q "kernel s"] show ?case
    by (auto simp: io_ops_def io_acquire_def io_ready_def io_inv_kernel fit_new_def split: if_splits)
next
  case (2 s q t)
  obtain fd k' where h: "hooked_call host q (kernel s) = (fd, k')" by fastforce
  with 2 hooked_new [of host fds q "kernel s"] show ?case
    by (auto simp: io_ops_def io_acquire_def io_ready_def io_inv_kernel fit_new_def split: if_splits)
next
  case (3 s k v)
  then have "0 \<le> sint k" using kernel_neg [of host fds k "kernel s"] by (auto simp: io_ops_def intro: leI)
  with 3 show ?case
    using ready_armed [of host s]
    by (auto simp: io_ops_def io_enter_def open_fds_add io_ready_def io_inv_def fd_table.armed_add)
next
  case (4 s k)
  then have "0 \<le> sint k" using kernel_neg [of host fds k "kernel s"] by (auto simp: io_ops_def intro: leI)
  with 4 show ?case
    using ready_armed [of host s]
    by (auto simp: io_ops_def io_erase_def open_fds_del io_ready_def io_inv_def)
next
  case (5 s k)
  obtain r k' where "sys_close host k (kernel s) = (r, k')" by fastforce
  with 5 kernel_close [of host fds k "kernel s" r k'] show ?case
    by (auto simp: io_ops_def io_release_def io_ready_def io_inv_kernel fun_eq_iff)
next
  case (6 s k v)
  with io_touch [of host s "io_enter k v" k v] show ?case by (auto simp: io_ops_def)
next
  case (7 s k)
  with io_touch [of host s "io_erase k" k] show ?case by (auto simp: io_ops_def)
next
  case (8 s k)
  with close_frame [of host fds s k] show ?case by (auto simp: io_ops_def)
qed

section \<open>Properties\<close>

text \<open>C5: Threads calling the allocation hooks: in every interleaving of \<open>malloc\<close>, \<open>calloc\<close>, \<open>memalign\<close>,
  \<open>posix_memalign\<close>, \<open>realloc\<close> of null and \<open>free\<close> by any number of threads the table holds live blocks with their sizes
  only; a live block is missing only if it is older than the tracking, or while the call that
  allocates or frees it is in progress, so that the table is exact whenever no call is; and
  a call in progress can always go on.\<close>

theorem concurrent_heap_calls:
  assumes "libc_ok host live" and "hooks_ready st" and "tracked st = live (heap st) |` (- old)"
    and "track_reach (heap_ops host live) st s"
  shows "tracked (shared s) \<subseteq>\<^sub>m live (heap (shared s)) \<and>
         (\<forall>p. live (heap (shared s)) p \<noteq> None \<and> tracked (shared s) p = None \<longrightarrow> busy_key s p \<or> p \<in> old) \<and>
         (quiescent s \<longrightarrow> (\<exists>rest \<subseteq> old. tracked (shared s) = live (heap (shared s)) |` (- rest))) \<and>
         (\<forall>i. track_pcs s i \<noteq> Idle \<longrightarrow> (\<exists>t. track_step (heap_ops host live) i s t))"
proof -
  have ops: "tr_live (heap_ops host live) = (\<lambda>st. live (heap st))" by (simp add: heap_ops_def)
  have wild: "tr_wild (heap_ops host live) = {}" by (simp add: heap_ops_def)
  have "libc_ok host live \<and> hooks_ready st" using assms(1,2) by simp
  note exact = heap_threads.table_exact_disciplined [OF assms(4) this, unfolded ops, OF assms(3) wild]
  show ?thesis
    by (intro conjI allI impI exact track_progress) (use exact(2) in blast)+
qed

text \<open>Two threads allocate; the second has entered its block, the first has not.\<close>

definition demo_two :: "(demo_heap hooks, addr, u64) track_threads" where
  "demo_two =
     \<lparr>shared = demo_hooks\<lparr>heap := ([4096 \<mapsto> 100, 4212 \<mapsto> 50], 4278), g_allocations := Some [4212 \<mapsto> 50]\<rparr>,
      track_pcs = (\<lambda>_. Idle)(0 := Acquired 4096 100)\<rparr>"

lemma demo_two_reach: "track_reach (heap_ops demo_host demo_live) demo_hooks demo_two"
proof -
  let ?o = "heap_ops demo_host demo_live"
  let ?s0 = "track_start demo_hooks :: (demo_heap hooks, addr, u64) track_threads"
  let ?t1 = "demo_hooks\<lparr>heap := ([4096 \<mapsto> 100], 4212)\<rparr>"
  let ?t2 = "demo_hooks\<lparr>heap := ([4096 \<mapsto> 100, 4212 \<mapsto> 50], 4278)\<rparr>"
  let ?s1 = "goto 0 (Acquired 4096 100) ?t1 ?s0"
  let ?s2 = "goto 1 (Acquired 4212 50) ?t2 ?s1"
  have "track_step ?o 0 ?s0 ?s1"
    by (rule track_step.acquire [where q = "RMalloc 100"])
      (simp_all add: track_start_def heap_ops_def demo_host_def demo_alloc_def demo_hooks_def fresh_hooks_def obtained_def)
  with track_reach.start have 1: "track_reach ?o demo_hooks ?s1" by (rule track_reach.step)
  have "track_step ?o 1 ?s1 ?s2"
    by (rule track_step.acquire [where q = "RMalloc 50"])
      (simp_all add: goto_def track_start_def heap_ops_def demo_host_def demo_alloc_def demo_hooks_def fresh_hooks_def obtained_def)
  with 1 have 2: "track_reach ?o demo_hooks ?s2" by (rule track_reach.step)
  have "track_step ?o 1 ?s2 (goto 1 Idle (tr_add ?o 4212 50 (shared ?s2)) ?s2)"
    by (rule track_step.enter) (simp add: goto_def)
  with 2 have "track_reach ?o demo_hooks (goto 1 Idle (tr_add ?o 4212 50 (shared ?s2)) ?s2)"
    by (rule track_reach.step)
  also have "goto 1 Idle (tr_add ?o 4212 50 (shared ?s2)) ?s2 = demo_two"
    by (simp add: goto_def track_start_def heap_ops_def AddAllocation_def demo_hooks_def fresh_hooks_def
        demo_two_def fun_upd_idem_iff)
  finally show ?thesis .
qed

lemma concurrent_heap_calls_witness:
  "tracked (shared demo_two) \<subseteq>\<^sub>m demo_live (heap (shared demo_two)) \<and>
   tracked (shared demo_two) 4096 = None \<and> busy_key demo_two 4096"
proof -
  have m: "demo_live (heap (shared demo_two)) 4096 \<noteq> None" "tracked (shared demo_two) 4096 = None"
    by (simp_all add: demo_two_def demo_live_def tracked_def)
  have old: "tracked demo_hooks = demo_live (heap demo_hooks) |` (- {})"
    by (simp add: demo_hooks_exact restrict_map_def)
  from concurrent_heap_calls [OF demo_libc_ok demo_hooks_ready old demo_two_reach] m show ?thesis
    by blast
qed

text \<open>C12: Threads calling the IO hooks: the open family, \<open>socket\<close> and \<open>close\<close>, by any number of threads in
  every interleaving, where the program may close any number at any moment. Let \<open>W\<close> be the
  descriptors that it misuses: closes while they are not open, or while another call about them is in
  progress. About every other descriptor the monitor is right: an entry is of a descriptor that is open in the
  kernel, with what it was opened as; an open one is missing only if it is older than the
  monitoring, or while the call that opens or closes it is in progress, even though the kernel may hand
  out a descriptor again at once; when no call is in progress the table is exact. A call in
  progress can always go on.\<close>

theorem concurrent_io_calls:
  assumes "kernel_ok host fds" and "io_ready host st" and "mirrors old fds st"
    and "track_reach (io_ops W host fds) st s"
  shows "open_fds (monitor (shared s)) |` (- W) \<subseteq>\<^sub>m map_option fit_info \<circ> fds (kernel (shared s)) \<and>
         (\<forall>fd. fd \<notin> W \<longrightarrow> fds (kernel (shared s)) fd \<noteq> None \<longrightarrow> open_fds (monitor (shared s)) fd = None \<longrightarrow>
            busy_key s fd \<or> fd \<in> old) \<and>
         (quiescent s \<longrightarrow> (\<exists>rest \<subseteq> old. open_fds (monitor (shared s)) |` (- W) =
            (map_option fit_info \<circ> fds (kernel (shared s))) |` (- (rest \<union> W)))) \<and>
         (\<forall>i. track_pcs s i \<noteq> Idle \<longrightarrow> (\<exists>t. track_step (io_ops W host fds) i s t))"
proof -
  have ops: "tr_live (io_ops W host fds) = (\<lambda>st. map_option fit_info \<circ> fds (kernel st))"
    "tr_wild (io_ops W host fds) = W" by (simp_all add: io_ops_def)
  have ok: "kernel_ok host fds \<and> io_ready host st" using assms(1,2) by simp
  have mir: "open_fds (monitor st) = (map_option fit_info \<circ> fds (kernel st)) |` (- old)"
    using assms(3) by (auto simp: mirrors_def restrict_map_def fun_eq_iff)
  note exact = io_threads.table_exact [OF assms(4) ok, unfolded ops, OF mir]
  have "busy_key s fd \<or> fd \<in> old"
    if "fd \<notin> W" "fds (kernel (shared s)) fd \<noteq> None" "open_fds (monitor (shared s)) fd = None" for fd
    using exact(2) [OF that(1,3)] that(2) by simp
  moreover have "open_fds (monitor (shared s)) |` (- W) \<subseteq>\<^sub>m map_option fit_info \<circ> fds (kernel (shared s))"
    using exact(1) by (fastforce simp: map_le_def restrict_map_def)
  ultimately show ?thesis
    by (intro conjI allI impI exact(3) track_progress) blast+
qed

definition demo_ready :: "demo_kernel io_hooks" where
  "demo_ready = demo_io\<lparr>real_open := 1, real_open64 := 1, real_openat := 1, real_openat64 := 1, real_close := 1,
     real_socket := 1, io_hooks_initialized := True, io_hooks_initializing := True\<rparr>"

text \<open>One thread has opened a file and not yet entered it.\<close>

definition demo_opening :: "(demo_kernel io_hooks, u32, fd_info) track_threads" where
  "demo_opening = goto 0 (Acquired 3 \<lparr>fi_path = ''a'', fi_is_socket = False\<rparr>)
     (demo_ready\<lparr>kernel := ([3 \<mapsto> \<lparr>fi_path = ''a'', fi_is_socket = False\<rparr>], 4)\<rparr>) (track_start demo_ready)"

lemma demo_opening_reach: "track_reach (io_ops W demo_io_host demo_fds) demo_ready demo_opening"
  unfolding demo_opening_def
  by (rule track_reach.step [OF track_reach.start], rule track_step.acquire [where q = "COpen ''a'' 0 0"])
    (simp_all add: track_start_def io_ops_def io_acquire_def demo_io_host_def demo_ready_def demo_io_def
      demo_new_def as_opened_def fit_path_def)

lemma demo_ready_ok: "io_ready demo_io_host demo_ready" "mirrors {} demo_fds demo_ready"
  by (simp_all add: io_ready_def io_inv_def demo_ready_def demo_io_def demo_io_host_def Enable_def io_start_def
      mirrors_def demo_fds_def fun_eq_iff)

lemma concurrent_io_calls_witness:
  "open_fds (monitor (shared demo_opening)) \<subseteq>\<^sub>m map_option fit_info \<circ> demo_fds (kernel (shared demo_opening)) \<and>
   open_fds (monitor (shared demo_opening)) 3 = None \<and> busy_key demo_opening 3"
proof -
  have m: "demo_fds (kernel (shared demo_opening)) 3 \<noteq> None" "open_fds (monitor (shared demo_opening)) 3 = None"
    by (simp_all add: demo_opening_def goto_def demo_fds_def demo_ready_def demo_io_def Enable_def io_start_def)
  with concurrent_io_calls [OF demo_kernel_ok demo_ready_ok demo_opening_reach [of "{}"]] show ?thesis
    by (auto simp: restrict_map_def map_le_def)
qed

text \<open>What a misused descriptor does to itself: a thread closes the number 3 while it is not open, and between the two
  halves of that call the kernel hands 3 out. When all calls have returned the table has an
  entry for a descriptor that is closed.\<close>

lemma misused_close_leaves_entry:
  "\<exists>s. track_reach (io_ops {3} demo_io_host demo_fds) demo_ready s \<and> quiescent s \<and>
     open_fds (monitor (shared s)) 3 \<noteq> None \<and> demo_fds (kernel (shared s)) 3 = None"
proof -
  let ?o = "io_ops {3} demo_io_host demo_fds"
  let ?i = "\<lparr>fi_path = ''a'', fi_is_socket = False\<rparr>"
  let ?t0 = "io_erase 3 demo_ready"
  let ?t1 = "?t0\<lparr>kernel := ([3 \<mapsto> ?i], 4)\<rparr>"
  let ?t2 = "io_enter 3 ?i ?t1"
  let ?t3 = "io_release demo_io_host 3 ?t2"
  let ?s0 = "track_start demo_ready :: (demo_kernel io_hooks, u32, fd_info) track_threads"
  let ?s1 = "goto 0 (Releasing 3) ?t0 ?s0"
  let ?s2 = "goto 1 (Acquired 3 ?i) ?t1 ?s1"
  let ?s3 = "goto 1 Idle ?t2 ?s2"
  let ?s4 = "goto 0 Idle ?t3 ?s3"
  have o: "tr_del ?o = io_erase" "tr_add ?o = io_enter" "tr_release ?o = io_release demo_io_host"
    by (simp_all add: io_ops_def)
  have "track_step ?o 0 ?s0 ?s1"
    using track_step.erase [of ?s0 0 3 ?o] by (simp add: track_start_def io_ops_def)
  with track_reach.start have "track_reach ?o demo_ready ?s1" by (rule track_reach.step)
  moreover have "track_step ?o 1 ?s1 ?s2"
    by (rule track_step.acquire [where q = "COpen ''a'' 0 0"])
      (simp_all add: goto_def track_start_def io_ops_def io_acquire_def io_erase_def demo_io_host_def demo_ready_def demo_io_def
        demo_new_def as_opened_def fit_path_def)
  ultimately have "track_reach ?o demo_ready ?s2" by (rule track_reach.step)
  moreover have "track_step ?o 1 ?s2 ?s3"
    using track_step.enter [of ?s2 1 3 ?i ?o] by (simp add: goto_def o)
  ultimately have "track_reach ?o demo_ready ?s3" by (rule track_reach.step)
  moreover have "track_step ?o 0 ?s3 ?s4"
    using track_step.release [of ?s3 0 3 ?o] by (simp add: goto_def o)
  ultimately have "track_reach ?o demo_ready ?s4" by (rule track_reach.step)
  moreover have "quiescent ?s4" by (simp add: quiescent_def goto_def track_start_def)
  moreover have "open_fds (monitor (shared ?s4)) 3 \<noteq> None \<and> demo_fds (kernel (shared ?s4)) 3 = None"
    by (simp add: io_release_def io_enter_def io_erase_def demo_ready_def demo_io_def demo_io_host_def demo_fds_def
        add_fd_def store_fd_def del_fd_def OnClose_def with_lock_def Enable_def io_start_def split: prod.splits)
  ultimately show ?thesis by blast
qed

end
