(* ===== verification/Concurrent_Moves.thy ===== *)
theory Concurrent_Moves
  imports Concurrent_Tracking
begin

text \<open>
  Tracking among threads, with operations that move a live key (\<open>realloc\<close>). Such a call first lets
  the provider move the key and only then strikes the old key from the table and enters the new
  one: between the two the provider may hand out the old key again. The locale \<open>moving\<close> extends
  \<open>two_phase\<close> by the law of a move. Exactness is lost; what remains is proved: no entry for a
  dead key once the calls about it have returned, and a precise account of the entries that are lost.
\<close>

section \<open>Threads and steps\<close>

text \<open>What became of the key: it went to \<open>q\<close>, it was kept (the call failed), or it was released.\<close>

datatype ('k, 'v) landing = To 'k 'v | Kept | Gone

datatype ('k, 'v) move_pc =
    Call "('k, 'v) track_pc"
  | Moved 'k "('k, 'v) landing" \<comment> \<open>between the real move of the key and its striking\<close>

text \<open>The key a call in progress is responsible for. A moved key is the provider's again.\<close>

fun owned :: "('k, 'v) move_pc \<Rightarrow> 'k option" where
  "owned (Call pc) = in_flight pc"
| "owned (Moved k (To q v)) = Some q"
| "owned (Moved k Kept) = Some k"
| "owned (Moved k Gone) = None"

fun after_strike :: "('k, 'v) landing \<Rightarrow> ('k, 'v) move_pc" where
  "after_strike (To q v) = Call (Acquired q v)"
| "after_strike Kept = Call Idle"
| "after_strike Gone = Call Idle"

text \<open>\<open>m_lost\<close> is a history variable: the keys that were struck while live and nobody's responsibility.\<close>

record ('s, 'k, 'v) move_threads =
  m_shared :: 's
  m_pcs :: "nat \<Rightarrow> ('k, 'v) move_pc"
  m_lost :: "'k set"

definition owned_key :: "('s, 'k, 'v) move_threads \<Rightarrow> 'k \<Rightarrow> bool" where
  "owned_key s k \<longleftrightarrow> (\<exists>i. owned (m_pcs s i) = Some k)"

definition moving_key :: "('s, 'k, 'v) move_threads \<Rightarrow> 'k \<Rightarrow> bool" where
  "moving_key s k \<longleftrightarrow> (\<exists>i l. m_pcs s i = Moved k l)"

definition m_goto :: "nat \<Rightarrow> ('k, 'v) move_pc \<Rightarrow> 's \<Rightarrow> ('s, 'k, 'v) move_threads \<Rightarrow> ('s, 'k, 'v) move_threads" where
  "m_goto i pc t s = s\<lparr>m_shared := t, m_pcs := (m_pcs s)(i := pc)\<rparr>"

definition note_lost :: "('q, 's, 'k, 'v) tracker \<Rightarrow> 'k \<Rightarrow> ('s, 'k, 'v) move_threads \<Rightarrow> ('s, 'k, 'v) move_threads" where
  "note_lost ops k s =
     (if tr_live ops (m_shared s) k \<noteq> None \<and> \<not> owned_key s k then s\<lparr>m_lost := insert k (m_lost s)\<rparr> else s)"

inductive move_step ::
  "('q, 's, 'k, 'v) tracker \<Rightarrow> ('r \<Rightarrow> 'k \<Rightarrow> 's \<Rightarrow> ('k, 'v) landing \<times> 's) \<Rightarrow> nat \<Rightarrow>
   ('s, 'k, 'v) move_threads \<Rightarrow> ('s, 'k, 'v) move_threads \<Rightarrow> bool"
  for ops :: "('q, 's, 'k, 'v) tracker" and mv :: "'r \<Rightarrow> 'k \<Rightarrow> 's \<Rightarrow> ('k, 'v) landing \<times> 's" where
  acquire: "\<lbrakk>m_pcs s i = Call Idle; tr_legal ops q; tr_acquire ops q (m_shared s) = (Some (k, v), t)\<rbrakk> \<Longrightarrow>
    move_step ops mv i s (m_goto i (Call (Acquired k v)) t s)"
| fail: "\<lbrakk>m_pcs s i = Call Idle; tr_legal ops q; tr_acquire ops q (m_shared s) = (None, t)\<rbrakk> \<Longrightarrow>
    move_step ops mv i s (m_goto i (Call Idle) t s)"
| enter: "m_pcs s i = Call (Acquired k v) \<Longrightarrow>
    move_step ops mv i s (m_goto i (Call Idle) (tr_add ops k v (m_shared s)) s)"
| erase: "\<lbrakk>m_pcs s i = Call Idle; tr_live ops (m_shared s) k \<noteq> None; \<not> owned_key s k\<rbrakk> \<Longrightarrow>
    move_step ops mv i s (m_goto i (Call (Releasing k)) (tr_del ops k (m_shared s)) s)"
| release: "m_pcs s i = Call (Releasing k) \<Longrightarrow>
    move_step ops mv i s (m_goto i (Call Idle) (tr_release ops k (m_shared s)) s)"
| move: "\<lbrakk>m_pcs s i = Call Idle; tr_live ops (m_shared s) k \<noteq> None; \<not> owned_key s k; mv r k (m_shared s) = (l, t)\<rbrakk> \<Longrightarrow>
    move_step ops mv i s (m_goto i (Moved k l) t s)"
| strike: "m_pcs s i = Moved k l \<Longrightarrow>
    move_step ops mv i s (note_lost ops k (m_goto i (after_strike l) (tr_del ops k (m_shared s)) s))"

definition move_start :: "'s \<Rightarrow> ('s, 'k, 'v) move_threads" where
  "move_start s0 = \<lparr>m_shared = s0, m_pcs = (\<lambda>_. Call Idle), m_lost = {}\<rparr>"

inductive move_reach ::
  "('q, 's, 'k, 'v) tracker \<Rightarrow> ('r \<Rightarrow> 'k \<Rightarrow> 's \<Rightarrow> ('k, 'v) landing \<times> 's) \<Rightarrow> 's \<Rightarrow> ('s, 'k, 'v) move_threads \<Rightarrow> bool"
  for ops :: "('q, 's, 'k, 'v) tracker" and mv :: "'r \<Rightarrow> 'k \<Rightarrow> 's \<Rightarrow> ('k, 'v) landing \<times> 's" and s0 :: 's where
  start: "move_reach ops mv s0 (move_start s0)"
| step: "\<lbrakk>move_reach ops mv s0 s; move_step ops mv i s t\<rbrakk> \<Longrightarrow> move_reach ops mv s0 t"

lemma move_progress: "m_pcs s i \<noteq> Call Idle \<Longrightarrow> \<exists>t. move_step ops mv i s t"
proof (cases "m_pcs s i")
  case (Call pc)
  then show "m_pcs s i \<noteq> Call Idle \<Longrightarrow> ?thesis" by (cases pc) (auto intro: move_step.intros)
qed (auto intro: move_step.strike)

lemma m_goto_fields [simp]:
  "m_shared (m_goto i pc t s) = t" "m_lost (m_goto i pc t s) = m_lost s"
  "m_pcs (m_goto i pc t s) j = (if j = i then pc else m_pcs s j)"
  by (simp_all add: m_goto_def)

lemma note_lost_fields [simp]:
  "m_shared (note_lost ops k s) = m_shared s" "m_pcs (note_lost ops k s) = m_pcs s"
  "owned_key (note_lost ops k s) = owned_key s" "moving_key (note_lost ops k s) = moving_key s"
  by (simp_all add: note_lost_def owned_key_def moving_key_def fun_eq_iff)

lemma owned_m_goto:
  "owned_key (m_goto i pc t s) k \<longleftrightarrow> owned pc = Some k \<or> (\<exists>j. j \<noteq> i \<and> owned (m_pcs s j) = Some k)"
  by (auto simp: owned_key_def)

lemma moving_m_goto:
  "moving_key (m_goto i pc t s) k \<longleftrightarrow> (\<exists>l. pc = Moved k l) \<or> (\<exists>j l. j \<noteq> i \<and> m_pcs s j = Moved k l)"
  by (auto simp: moving_key_def)

lemma moves_idle:
  assumes "\<forall>i. m_pcs s i = Call Idle"
  shows "\<not> owned_key s k \<and> \<not> moving_key s k"
  using assms by (simp add: owned_key_def moving_key_def)

section \<open>The contract of a move\<close>

fun landed :: "'k \<Rightarrow> ('k, 'v) landing \<Rightarrow> ('k \<Rightarrow> 'v option) \<Rightarrow> ('k \<Rightarrow> 'v option) \<Rightarrow> bool" where
  "landed k (To q v) m m' \<longleftrightarrow> (q = k \<or> m q = None) \<and> m' = m(k := None, q \<mapsto> v)"
| "landed k Kept m m' \<longleftrightarrow> m' = m"
| "landed k Gone m m' \<longleftrightarrow> m' = m(k := None)"

locale moving = two_phase ops ok table
  for ops :: "('q, 's, 'k, 'v) tracker" and ok :: "'s \<Rightarrow> bool" and table :: "'s \<Rightarrow> 'k \<Rightarrow> 'v option" +
  fixes mv :: "'r \<Rightarrow> 'k \<Rightarrow> 's \<Rightarrow> ('k, 'v) landing \<times> 's"
    and valid :: "'k \<Rightarrow> bool"
  assumes move_law: "\<lbrakk>ok s; tr_live ops s k \<noteq> None; mv r k s = (l, t)\<rbrakk> \<Longrightarrow>
      ok t \<and> table t = table s \<and> landed k l (tr_live ops s) (tr_live ops t)"
    and live_valid: "\<lbrakk>ok s; tr_live ops s k \<noteq> None\<rbrakk> \<Longrightarrow> valid k"
    and strike_law: "\<lbrakk>ok s; valid k\<rbrakk> \<Longrightarrow>
      ok (tr_del ops k s) \<and> table (tr_del ops k s) = (table s)(k := None) \<and>
      tr_live ops (tr_del ops k s) = tr_live ops s"
begin

text \<open>What the control point of a thread says about the live keys and the table.\<close>

fun fits :: "('k \<Rightarrow> 'v option) \<Rightarrow> ('k \<Rightarrow> 'v option) \<Rightarrow> ('k, 'v) move_pc \<Rightarrow> bool" where
  "fits m tb (Call Idle) = True"
| "fits m tb (Call (Acquired k v)) = (m k = Some v)"
| "fits m tb (Call (Releasing k)) = (m k \<noteq> None \<and> tb k = None)"
| "fits m tb (Moved k (To q v)) = (valid k \<and> m q = Some v)"
| "fits m tb (Moved k Kept) = (valid k \<and> m k \<noteq> None)"
| "fits m tb (Moved k Gone) = valid k"

lemma fits_cong:
  assumes "fits m tb pc"
    and "\<And>k. owned pc = Some k \<Longrightarrow> m' k = m k \<and> (tb' k = tb k \<or> tb' k = None)"
  shows "fits m' tb' pc"
  using assms by (cases "(m, tb, pc)" rule: fits.cases) auto

lemma fits_owned: "fits m tb pc \<Longrightarrow> owned pc = Some k \<Longrightarrow> m k \<noteq> None"
  by (cases "(m, tb, pc)" rule: fits.cases) auto

lemma fits_strike: "fits m tb (Moved k l) \<Longrightarrow> valid k \<and> fits m (tb(k := None)) (after_strike l)"
  by (cases l) auto

lemma owned_strike: "owned (after_strike l) = Some q \<Longrightarrow> owned (Moved k l) = Some q"
  by (cases l) auto

lemma strike_owned: "owned (Moved k l) = Some q \<Longrightarrow> q \<noteq> k \<Longrightarrow> owned (after_strike l) = Some q"
  by (cases l) auto

definition live_now :: "('s, 'k, 'v) move_threads \<Rightarrow> 'k \<Rightarrow> 'v option" where
  "live_now s = tr_live ops (m_shared s)"

definition tabled :: "('s, 'k, 'v) move_threads \<Rightarrow> 'k \<Rightarrow> 'v option" where
  "tabled s = table (m_shared s)"

definition calls_fit :: "('s, 'k, 'v) move_threads \<Rightarrow> bool" where
  "calls_fit s \<longleftrightarrow> (\<forall>i. fits (live_now s) (tabled s) (m_pcs s i)) \<and>
     (\<forall>i j k. owned (m_pcs s i) = Some k \<longrightarrow> owned (m_pcs s j) = Some k \<longrightarrow> i = j)"

definition no_stale :: "('s, 'k, 'v) move_threads \<Rightarrow> bool" where
  "no_stale s \<longleftrightarrow> (\<forall>k v. tabled s k = Some v \<longrightarrow> live_now s k = Some v \<or> moving_key s k)"

definition accounted :: "'k set \<Rightarrow> ('s, 'k, 'v) move_threads \<Rightarrow> bool" where
  "accounted old s \<longleftrightarrow>
     (\<forall>k. live_now s k \<noteq> None \<and> tabled s k = None \<longrightarrow> owned_key s k \<or> k \<in> old \<union> m_lost s)"

definition move_inv :: "'k set \<Rightarrow> ('s, 'k, 'v) move_threads \<Rightarrow> bool" where
  "move_inv old s \<longleftrightarrow> ok (m_shared s) \<and> calls_fit s \<and> no_stale s \<and> accounted old s"

lemma owned_live: "calls_fit s \<Longrightarrow> owned_key s k \<Longrightarrow> live_now s k \<noteq> None"
  unfolding calls_fit_def owned_key_def using fits_owned by metis

lemma m_goto_now [simp]:
  "live_now (m_goto i pc t s) = tr_live ops t" "tabled (m_goto i pc t s) = table t"
  "live_now (note_lost ops k s) = live_now s" "tabled (note_lost ops k s) = tabled s"
  by (simp_all add: live_now_def tabled_def)

lemma calls_fit_note: "calls_fit (note_lost ops k s) = calls_fit s"
  by (simp only: calls_fit_def m_goto_now note_lost_fields)

lemma no_stale_note: "no_stale (note_lost ops k s) = no_stale s"
  by (simp only: no_stale_def m_goto_now note_lost_fields)

text \<open>A step of thread \<open>i\<close> to a control point that fits and owns nothing of the others.\<close>

lemma calls_fit_goto:
  assumes "calls_fit s" and "fits (tr_live ops t) (table t) pc"
    and "\<And>j k. j \<noteq> i \<Longrightarrow> owned (m_pcs s j) = Some k \<Longrightarrow> owned pc \<noteq> Some k \<and>
       tr_live ops t k = live_now s k \<and> (table t k = tabled s k \<or> table t k = None)"
  shows "calls_fit (m_goto i pc t s)"
proof -
  have u: "j = l" if "owned (m_pcs s j) = Some k" "owned (m_pcs s l) = Some k" for j l k
    using that assms(1) unfolding calls_fit_def by blast
  have f: "fits (live_now s) (tabled s) (m_pcs s j)" for j using assms(1) unfolding calls_fit_def by blast
  have "fits (tr_live ops t) (table t) (m_pcs s j)" if "j \<noteq> i" for j
    by (rule fits_cong [OF f]) (rule conjunct2 [OF assms(3) [OF that]])
  then have "fits (tr_live ops t) (table t) (m_pcs (m_goto i pc t s) j)" for j
    using assms(2) by (cases "j = i") simp_all
  moreover have "j = l" if "owned (m_pcs (m_goto i pc t s) j) = Some k" "owned (m_pcs (m_goto i pc t s) l) = Some k" for j l k
  proof (cases "j = i \<or> l = i")
    case True
    with that assms(3) [of j k] assms(3) [of l k] show ?thesis by (cases "j = i"; cases "l = i") simp_all
  next
    case False
    with that u [of j k l] show ?thesis by simp
  qed
  ultimately show ?thesis unfolding calls_fit_def m_goto_now by blast
qed

text \<open>A thread that is idle owns nothing, so that the others are all owners; one that ends a call owns \<open>k0\<close>.\<close>

lemma idle_others:
  assumes "m_pcs s i = Call Idle"
  shows "(\<exists>j. j \<noteq> i \<and> owned (m_pcs s j) = Some k) \<longleftrightarrow> owned_key s k"
    and "(\<exists>j l. j \<noteq> i \<and> m_pcs s j = Moved k l) \<longleftrightarrow> moving_key s k"
  using assms unfolding owned_key_def moving_key_def
  by (metis in_flight.simps(1) option.distinct(1) owned.simps(1), metis move_pc.distinct(1))

lemma call_others:
  assumes "calls_fit s" "owned (m_pcs s i) = Some k0"
  shows "(\<exists>j. j \<noteq> i \<and> owned (m_pcs s j) = Some k) \<longleftrightarrow> owned_key s k \<and> k \<noteq> k0"
  using assms unfolding owned_key_def calls_fit_def by (metis option.inject)

lemma begin_move_inv:
  assumes inv: "move_inv old s" and idle: "m_pcs s i = Call Idle" and "ok t"
    and fits: "fits (tr_live ops t) (table t) pc"
    and own: "\<And>k. owned pc = Some k \<Longrightarrow> \<not> owned_key s k"
    and same: "\<And>k. owned_key s k \<Longrightarrow> tr_live ops t k = live_now s k \<and> table t k = tabled s k"
    and stale: "\<And>k v. table t k = Some v \<Longrightarrow> tabled s k = Some v \<and>
       (tr_live ops t k = live_now s k \<or> live_now s k = None \<or> (\<exists>l. pc = Moved k l))"
    and acc: "\<And>k. tr_live ops t k \<noteq> None \<Longrightarrow> table t k = None \<Longrightarrow>
       owned pc = Some k \<or> live_now s k \<noteq> None \<and> tabled s k = None"
  shows "move_inv old (m_goto i pc t s)"
proof -
  note inv' = inv [unfolded move_inv_def]
  have "calls_fit (m_goto i pc t s)"
  proof (rule calls_fit_goto)
    fix j k assume "j \<noteq> i" "owned (m_pcs s j) = Some k"
    then have "owned_key s k" unfolding owned_key_def by blast
    with own [of k] same [of k] show "owned pc \<noteq> Some k \<and> tr_live ops t k = live_now s k \<and>
       (table t k = tabled s k \<or> table t k = None)" by blast
  qed (use inv' fits in blast)+
  moreover have "no_stale (m_goto i pc t s)"
    unfolding no_stale_def m_goto_now moving_m_goto idle_others(2) [OF idle]
    using stale inv' unfolding no_stale_def by (metis option.distinct(1))
  moreover have "accounted old (m_goto i pc t s)"
    unfolding accounted_def m_goto_now owned_m_goto idle_others(1) [OF idle] m_goto_fields
    using acc inv' unfolding accounted_def by blast
  ultimately show ?thesis using assms(3) by (simp add: move_inv_def)
qed

lemma finish_move_inv:
  assumes inv: "move_inv old s" and pc: "m_pcs s i = Call pc" "in_flight pc = Some k0" and "ok t"
    and frame: "\<And>k. k \<noteq> k0 \<Longrightarrow> tr_live ops t k = live_now s k \<and> table t k = tabled s k"
    and exact: "table t k0 = tr_live ops t k0"
  shows "move_inv old (m_goto i (Call Idle) t s)"
proof -
  note inv' = inv [unfolded move_inv_def]
  have o: "owned (m_pcs s i) = Some k0" using pc by simp
  have others: "(\<exists>j. j \<noteq> i \<and> owned (m_pcs s j) = Some k) \<longleftrightarrow> owned_key s k \<and> k \<noteq> k0" for k
    using inv' call_others [OF _ o] by blast
  have moving: "(\<exists>j l. j \<noteq> i \<and> m_pcs s j = Moved k l) \<longleftrightarrow> moving_key s k" for k
    using pc(1) unfolding moving_key_def by (metis move_pc.distinct(1))
  have "calls_fit (m_goto i (Call Idle) t s)"
  proof (rule calls_fit_goto)
    fix j k assume "j \<noteq> i" "owned (m_pcs s j) = Some k"
    then have "k \<noteq> k0" using others by blast
    with frame [of k] show "owned (Call Idle :: ('k, 'v) move_pc) \<noteq> Some k \<and> tr_live ops t k = live_now s k \<and>
       (table t k = tabled s k \<or> table t k = None)" by simp
  qed (use inv' in simp_all)
  moreover have "no_stale (m_goto i (Call Idle) t s)"
    unfolding no_stale_def m_goto_now moving_m_goto moving
    using frame exact inv' unfolding no_stale_def by metis
  moreover have "accounted old (m_goto i (Call Idle) t s)"
    unfolding accounted_def m_goto_now owned_m_goto others m_goto_fields
    using frame exact inv' unfolding accounted_def by metis
  ultimately show ?thesis using assms(4) by (simp add: move_inv_def)
qed

lemma strike_move_inv:
  assumes inv: "move_inv old s" and pc: "m_pcs s i = Moved k0 l" and "ok t"
    and live: "tr_live ops t = live_now s" and tab: "table t = (tabled s)(k0 := None)"
  shows "move_inv old (note_lost ops k0 (m_goto i (after_strike l) t s))"
proof -
  let ?u = "m_goto i (after_strike l) t s"
  note inv' = inv [unfolded move_inv_def]
  have f: "fits (live_now s) (tabled s) (Moved k0 l)" using inv' pc unfolding calls_fit_def by metis
  have u: "j = i" if "owned (Moved k0 l) = Some k" "owned (m_pcs s j) = Some k" for j k
    using that inv' pc unfolding calls_fit_def by metis
  have fit: "calls_fit ?u"
  proof (rule calls_fit_goto)
    fix j k assume j: "j \<noteq> i" "owned (m_pcs s j) = Some k"
    then have "owned (after_strike l) \<noteq> Some k" using owned_strike u by metis
    then show "owned (after_strike l) \<noteq> Some k \<and> tr_live ops t k = live_now s k \<and>
       (table t k = tabled s k \<or> table t k = None)" by (simp add: live tab)
  qed (use inv' fits_strike [OF f] live tab in simp_all)
  have "moving_key ?u k" if "moving_key s k" "k \<noteq> k0" for k
    using that pc unfolding moving_m_goto by (metis moving_key_def move_pc.inject(2))
  then have stale: "no_stale ?u"
    using inv' unfolding no_stale_def m_goto_now live tab by (metis fun_upd_apply option.distinct(1))
  have kept: "owned_key ?u k" if k: "owned_key s k" "k \<noteq> k0" for k
  proof -
    obtain j where j: "owned (m_pcs s j) = Some k" using k(1) by (auto simp: owned_key_def)
    have "owned (m_pcs ?u j) = Some k"
      using j pc strike_owned [OF _ k(2), of l] by (cases "j = i") simp_all
    then show ?thesis unfolding owned_key_def by blast
  qed
  have lost: "m_lost (note_lost ops k0 ?u) =
      (if live_now s k0 \<noteq> None \<and> \<not> owned_key ?u k0 then insert k0 (m_lost s) else m_lost s)"
    by (simp add: note_lost_def live_now_def [symmetric] live)
  have "owned_key ?u k \<or> k \<in> old \<union> m_lost (note_lost ops k0 ?u)"
    if k: "live_now s k \<noteq> None" "((tabled s)(k0 := None)) k = None" for k
  proof (cases "k = k0")
    case False
    with k inv' have "owned_key s k \<or> k \<in> old \<union> m_lost s" unfolding accounted_def by simp
    with kept [OF _ False] show ?thesis unfolding lost by auto
  qed (use k(1) lost in auto)
  then have "accounted old (note_lost ops k0 ?u)"
    unfolding accounted_def m_goto_now note_lost_fields live tab by blast
  with fit stale assms(3) show ?thesis
    by (simp only: move_inv_def calls_fit_note no_stale_note note_lost_fields m_goto_fields)
qed

lemma unowned: "move_inv old s \<Longrightarrow> tr_live ops (m_shared s) k = None \<Longrightarrow> \<not> owned_key s k"
  using owned_live [of s k] by (auto simp: move_inv_def live_now_def)

lemma move_step_move:
  assumes inv: "move_inv old s" and "m_pcs s i = Call Idle" and k: "tr_live ops (m_shared s) k \<noteq> None" "\<not> owned_key s k"
    and "mv r k (m_shared s) = (l, t)"
  shows "move_inv old (m_goto i (Moved k l) t s)"
proof -
  have ok: "ok (m_shared s)" using inv by (simp add: move_inv_def)
  note law = move_law [OF ok k(1) assms(5)] and valid = live_valid [OF ok k(1)]
  show ?thesis
  proof (cases l)
    case (To q v)
    with law have q: "q = k \<or> live_now s q = None" "tr_live ops t = (live_now s)(k := None, q \<mapsto> v)"
      by (simp_all add: live_now_def)
    have "\<not> owned_key s q" using q(1) k(2) unowned [OF inv, of q] by (auto simp: live_now_def)
    with To law valid q k show ?thesis
      by (intro begin_move_inv [OF inv assms(2)]) (auto simp: tabled_def live_now_def split: if_splits)
  next
    case Kept
    with law valid k show ?thesis
      by (intro begin_move_inv [OF inv assms(2)]) (auto simp: tabled_def live_now_def split: if_splits)
  next
    case Gone
    with law valid k show ?thesis
      by (intro begin_move_inv [OF inv assms(2)]) (auto simp: tabled_def live_now_def split: if_splits)
  qed
qed

lemma step_move_inv:
  assumes "move_step ops mv i s t" "move_inv old s"
  shows "move_inv old t"
  using assms(1)
proof (cases rule: move_step.cases)
  have ok: "ok (m_shared s)" and fit: "fits (live_now s) (tabled s) (m_pcs s i)"
    using assms(2) unfolding move_inv_def calls_fit_def by blast+
  note now = live_now_def tabled_def
  {
    case (acquire q k v u)
    from acquire_some [OF ok acquire(3,4)] unowned [OF assms(2), of k] acquire(1,2) show ?thesis
      by (auto simp: now intro!: begin_move_inv [OF assms(2)] split: if_splits)
  next
    case (fail q u)
    from acquire_none [OF ok fail(3,4)] fail(1,2) show ?thesis
      by (auto simp: now intro!: begin_move_inv [OF assms(2)])
  next
    case (enter k v)
    with fit have "tr_live ops (m_shared s) k = Some v" by (simp add: now)
    from add_law [OF ok this] this show ?thesis
      unfolding enter(1) by (intro finish_move_inv [OF assms(2) enter(2)]) (auto simp: now)
  next
    case (erase k)
    from del_law [OF ok erase(3)] erase show ?thesis
      by (auto simp: now intro!: begin_move_inv [OF assms(2)] split: if_splits)
  next
    case (release k)
    with fit have o: "tr_live ops (m_shared s) k \<noteq> None" "tabled s k = None" by (simp_all add: now)
    from release_law [OF ok o(1)] o(2) show ?thesis
      unfolding release(1) by (intro finish_move_inv [OF assms(2) release(2)]) (auto simp: now)
  next
    case (move k r l u)
    show ?thesis unfolding move(1) by (rule move_step_move [OF assms(2) move(2-5)])
  next
    case (strike k l)
    have "valid k" using fit fits_strike [of "live_now s" "tabled s" k l] strike(2) by simp
    from strike_law [OF ok this] show ?thesis
      unfolding strike(1) by (intro strike_move_inv [OF assms(2) strike(2)]) (simp_all add: now)
  }
qed

lemma reach_move_inv:
  assumes "move_reach ops mv s0 s" "ok s0" "table s0 = tr_live ops s0 |` (- old)"
  shows "move_inv old s"
  using assms(1)
proof (induction rule: move_reach.induct)
  case start
  show ?case
    using assms(2,3) by (auto simp: move_inv_def calls_fit_def no_stale_def accounted_def live_now_def tabled_def
        move_start_def restrict_map_def split: if_splits)
next
  case (step s i t)
  then show ?case using step_move_inv by blast
qed

text \<open>An entry for a key that is not live, or not with that value, exists only while a move of the key is
  in progress; a live key is missing only if a call in progress is responsible for it, it is old, or it was lost.\<close>

lemma moves_account:
  assumes "move_reach ops mv s0 s" "ok s0" "table s0 = tr_live ops s0 |` (- old)"
  shows "table (m_shared s) k = Some v \<Longrightarrow> tr_live ops (m_shared s) k = Some v \<or> moving_key s k"
    and "tr_live ops (m_shared s) k \<noteq> None \<Longrightarrow> table (m_shared s) k = None \<Longrightarrow>
       owned_key s k \<or> k \<in> old \<union> m_lost s"
  using reach_move_inv [OF assms] unfolding move_inv_def no_stale_def accounted_def live_now_def tabled_def by blast+

end

end
