(* ===== verification/Concurrent_Realloc.thy ===== *)
theory Concurrent_Realloc
  imports Concurrent_Hooks Concurrent_Moves
begin

text \<open>
  \<open>realloc\<close> among threads (src/memory/linux_alloc_hooks.cpp). The hook calls the real \<open>realloc\<close>, then
  erases the old address from the table, then enters the new one; other threads run between these
  three steps, and may be handed the old address. With the steps of \<open>Concurrent_Hooks\<close> this covers
  all six functions. The C library's contract gives the laws of \<open>moving\<close>.
\<close>

definition heap_move :: "'h host \<Rightarrow> u64 \<Rightarrow> addr \<Rightarrow> 'h hooks \<Rightarrow> (addr, u64) landing \<times> 'h hooks" where
  "heap_move host n p st =
     (case c_realloc host p n (heap st) of
        None \<Rightarrow> (Kept, st)
      | Some (q, h) \<Rightarrow> (if q \<noteq> nullptr then To q n else if n = 0 then Gone else Kept, st\<lparr>heap := h\<rparr>))"

text \<open>The three steps compose to the hook.\<close>

lemma realloc_three_steps:
  assumes "libc_ok host live" and "hooks_ready st" and "live (heap st) p \<noteq> None"
  shows "hook_call host True (Realloc p n) st =
     (case heap_move host n p st of
        (To q m, t) \<Rightarrow> Ret q (AddAllocation True q m (RemoveAllocation True p t))
      | (_, t) \<Rightarrow> Ret nullptr (RemoveAllocation True p t))"
proof -
  obtain q h where "c_realloc host p n (heap st) = Some (q, h)"
    using libc_realloc [OF assms(1), of p "heap st" n] assms(3) by blast
  then show ?thesis
    using ready_realloc [OF assms(2), of host p n q h True] live_nonnull [OF assms(1,3)]
    by (simp add: heap_move_def AddAllocation_null)
qed

interpretation heap_moves: moving "heap_ops host live" "\<lambda>st. libc_ok host live \<and> hooks_ready st" tracked
    "heap_move host" "\<lambda>p. p \<noteq> nullptr"
  for host :: "'h host" and live
proof (unfold_locales, goal_cases)
  case (1 s k r l t)
  then have k: "live (heap s) k \<noteq> None" "k \<noteq> nullptr"
    using live_nonnull [of host live "heap s" k] by (simp_all add: heap_ops_def)
  with 1 libc_realloc [of host live k "heap s" r] show ?case
    by (auto simp: heap_ops_def heap_move_def split: if_splits)
next
  case (2 s k)
  then show ?case using live_nonnull [of host live "heap s" k] by (simp add: heap_ops_def)
next
  case (3 s k)
  then show ?case by (simp add: heap_ops_def)
qed

section \<open>Properties\<close>

text \<open>C6: All six functions among threads, \<open>realloc\<close> of live blocks included, in every interleaving: an entry
  that does not tell a live block with its size exists only while a \<open>realloc\<close> of that address has not
  yet struck it; a live block without entry is older than the tracking, or belongs to a call in progress,
  or was struck by a \<open>realloc\<close> that failed or no longer owned the address. So there is never a false
  leak when no call is in progress: the records handed to the leak detector are live blocks. Calls in
  progress can always go on.\<close>

theorem concurrent_realloc:
  assumes "libc_ok host live" and "hooks_ready st" and "tracked st = live (heap st) |` (- old)" and "iter_ok iter"
    and "move_reach (heap_ops host live) (heap_move host) st s"
  shows "(\<forall>p n. tracked (m_shared s) p = Some n \<longrightarrow> live (heap (m_shared s)) p = Some n \<or> moving_key s p) \<and>
    (\<forall>p. live (heap (m_shared s)) p \<noteq> None \<and> tracked (m_shared s) p = None \<longrightarrow>
       owned_key s p \<or> p \<in> old \<union> m_lost s) \<and>
    ((\<forall>i. m_pcs s i = Call Idle) \<longrightarrow>
       record_map (GetLinuxTrackedAllocations iter (m_shared s) []) \<subseteq>\<^sub>m live (heap (m_shared s))) \<and>
    (\<forall>i. m_pcs s i \<noteq> Call Idle \<longrightarrow> (\<exists>t. move_step (heap_ops host live) (heap_move host) i s t))"
proof -
  have ops: "tr_live (heap_ops host live) = (\<lambda>st. live (heap st))" by (simp add: heap_ops_def)
  have ok: "libc_ok host live \<and> hooks_ready st" using assms(1,2) by simp
  note account = heap_moves.moves_account [OF assms(5) ok, unfolded ops, OF assms(3)]
  have "hooks_ready (m_shared s)"
    using heap_moves.reach_move_inv [OF assms(5) ok, unfolded ops, OF assms(3)] by (simp add: heap_moves.move_inv_def)
  then have "record_map (GetLinuxTrackedAllocations iter (m_shared s) []) = tracked (m_shared s)"
    by (rule tracked_records(1) [OF assms(4)])
  moreover have "tracked (m_shared s) \<subseteq>\<^sub>m live (heap (m_shared s))" if "\<forall>i. m_pcs s i = Call Idle"
    using account(1) moves_idle [OF that] by (fastforce simp: map_le_def dom_def)
  ultimately show ?thesis using account move_progress by fastforce
qed

text \<open>Thread 0 moves a block; before it strikes the old address, thread 1 is given that address and enters it.\<close>

definition demo_race :: "nat \<Rightarrow> (demo_heap hooks, addr, u64) move_threads" where
  "demo_race n =
     (let s1 = m_goto 0 (Moved 4096 (To 8192 200)) (demo_one\<lparr>heap := ([8192 \<mapsto> 200], 4096)\<rparr>) (move_start demo_one);
          s2 = m_goto 1 (Call (Acquired 4096 50)) (demo_one\<lparr>heap := ([8192 \<mapsto> 200, 4096 \<mapsto> 50], 4162)\<rparr>) s1;
          s3 = m_goto 1 (Call Idle) (AddAllocation True 4096 50 (m_shared s2)) s2;
          s4 = note_lost (heap_ops moving_host demo_live) 4096
                 (m_goto 0 (Call (Acquired 8192 200)) (RemoveAllocation True 4096 (m_shared s3)) s3);
          s5 = m_goto 0 (Call Idle) (AddAllocation True 8192 200 (m_shared s4)) s4
      in [s1, s2, s3, s4, s5] ! n)"

lemma demo_race_reach: "move_reach (heap_ops moving_host demo_live) (heap_move moving_host) demo_one (demo_race 4)"
proof -
  let ?o = "heap_ops moving_host demo_live" and ?m = "heap_move moving_host"
  note defs = demo_race_def heap_ops_def move_start_def demo_one_def moving_steps obtained_def
  have 0: "move_step ?o ?m 0 (move_start demo_one) (demo_race 0)"
    unfolding demo_race_def Let_def nth_Cons_0
    by (rule move_step.move [where r = 200])
      (simp_all add: defs demo_live_def owned_key_def heap_move_def)
  have 1: "move_step ?o ?m 1 (demo_race 0) (demo_race 1)"
    using move_step.acquire [of "demo_race 0" 1 ?o "RMalloc 50" 4096 50
        "demo_one\<lparr>heap := ([8192 \<mapsto> 200, 4096 \<mapsto> 50], 4162)\<rparr>" ?m]
    by (simp add: defs)
  have 2: "move_step ?o ?m 1 (demo_race 1) (demo_race 2)"
    using move_step.enter [of "demo_race 1" 1 4096 50 ?o ?m] by (simp add: defs)
  have 3: "move_step ?o ?m 0 (demo_race 2) (demo_race 3)"
    using move_step.strike [of "demo_race 2" 0 4096 "To 8192 200" ?o ?m] by (simp add: defs)
  have 4: "move_step ?o ?m 0 (demo_race 3) (demo_race 4)"
    using move_step.enter [of "demo_race 3" 0 8192 200 ?o ?m]
    by (simp add: defs)
  show ?thesis
    using move_reach.start [of ?o ?m demo_one] 0 1 2 3 4 by (meson move_reach.step)
qed

lemma concurrent_realloc_witness:
  "record_map (GetLinuxTrackedAllocations demo_iter (m_shared (demo_race 4)) []) \<subseteq>\<^sub>m
     demo_live (heap (m_shared (demo_race 4))) \<and>
   demo_live (heap (m_shared (demo_race 4))) 4096 = Some 50 \<and> 4096 \<in> m_lost (demo_race 4)"
proof -
  have old: "tracked demo_one = demo_live (heap demo_one) |` (- {})"
    by (simp add: demo_one_maps restrict_map_def fun_eq_iff)
  note C = concurrent_realloc [OF moving_libc_ok demo_one_ready old demo_iter_ok demo_race_reach]
  have idle: "\<forall>i. m_pcs (demo_race 4) i = Call Idle"
    by (simp add: demo_race_def move_start_def Let_def)
  have heap: "demo_live (heap (m_shared (demo_race 4))) 4096 = Some 50" "tracked (m_shared (demo_race 4)) 4096 = None"
    by (simp_all add: demo_race_def Let_def demo_live_def demo_one_def tracked_def AddAllocation_def
        RemoveAllocation_def)
  moreover have "\<not> owned_key (demo_race 4) 4096" using moves_idle [OF idle] by blast
  ultimately show ?thesis using C idle by auto
qed

end
