(* ===== verification/Scratch_Vtable.thy ===== *)
theory Scratch_Vtable
  imports Type_Resolver Text_Numbers
begin

text \<open>
  src/scratch_vtable.cpp: the experiment on which the leak detector's type resolver rests. It asks the
  loader for the symbol at the virtual-table pointer of a fresh object and prints what it finds.
  Where the object is placed (\<open>new\<close>) and \<open>dli_fname\<close> are parameters; \<open>dli_sname\<close> is in \<open>process\<close>.
\<close>

definition or_null :: "string option \<Rightarrow> string" where
  "or_null s = (case s of Some t \<Rightarrow> t | None \<Rightarrow> ''null'')"

text \<open>The lines printed by \<open>main\<close>; \<open>None\<close> if reading the pointer faults.\<close>

definition scratch_main :: "process \<Rightarrow> (addr \<Rightarrow> string option) \<Rightarrow> addr \<Rightarrow> string list option" where
  "scratch_main pr dli_fname obj =
     (case mem_word pr obj of
        None \<Rightarrow> None
      | Some vptr \<Rightarrow> Some
          (case dl_addr pr vptr of
             None \<Rightarrow> []
           | Some dli_sname \<Rightarrow>
               [''vptr: '' @ addr_string vptr, ''dli_fname: '' @ or_null (dli_fname vptr),
                ''dli_sname: '' @ or_null dli_sname] @
               (case dli_sname of
                  None \<Rightarrow> []
                | Some s \<Rightarrow> (case demangle pr s of None \<Rightarrow> [] | Some d \<Rightarrow> [''Demangled: '' @ d]))))"

text \<open>What the experiment relies on and the resolver's fallback uses: the loader's symbol for the
  virtual table of class \<open>c\<close> demangles to \<open>vtable for c\<close>. Then the experiment prints that name and the
  fallback of the resolver, given the same symbol, returns \<open>c\<close>.\<close>

lemma scratch_names_class:
  assumes "mem_word pr obj = Some vptr" and "dl_addr pr vptr = Some (Some s)"
    and "demangle pr s = Some (''vtable for '' @ c)" and "symbolize pr vptr = demangle pr s"
    and "CHR 0x00 \<notin> set c"
  shows "\<exists>lines. scratch_main pr dli_fname obj = Some (lines @ [''Demangled: vtable for '' @ c]) \<and>
     resolve_symbol pr vptr = c"
proof -
  have "c_str c = c" using assms(5) by (auto simp: c_str_def takeWhile_eq_all_conv)
  then show ?thesis using assms by (simp add: scratch_main_def resolve_symbol_def)
qed

end
