(* ===== verification/Io_Races.thy ===== *)
theory Io_Races
  imports Io_Monitor
begin

text \<open>
  Switching the IO monitor while threads are in its callbacks (src/io/io_monitor.cpp). \<open>OnOpen\<close>,
  \<open>OnSocket\<close> and \<open>OnClose\<close> test \<open>enabled_\<close> before they lock the mutex, and \<open>Disable\<close> clears the flag before
  it locks the mutex to drop the table: each is two steps, the test or the change of the flag, and the
  part under the mutex, and other threads run between them. (\<open>Concurrent_Hooks\<close> has the threads of an
  enabled monitor.) With \<open>strict\<close>, \<open>Disable\<close> is called only while no other call is in progress.
\<close>

section \<open>Threads and steps\<close>

datatype io_pc = Out | Storing u32 fd_info | Erasing u32 | Clearing

record io_threads =
  io :: io_state
  io_pcs :: "nat \<Rightarrow> io_pc"

definition io_goto :: "nat \<Rightarrow> io_pc \<Rightarrow> io_state \<Rightarrow> io_threads \<Rightarrow> io_threads" where
  "io_goto i pc st s = s\<lparr>io := st, io_pcs := (io_pcs s)(i := pc)\<rparr>"

text \<open>The parts under the mutex, and the part of \<open>Disable\<close> before it.\<close>

definition store_entry :: "u32 \<Rightarrow> fd_info \<Rightarrow> io_state \<Rightarrow> io_state" where
  "store_entry fd info st = st\<lparr>open_fds := (open_fds st)(fd \<mapsto> info)\<rparr>"

definition erase_entry :: "u32 \<Rightarrow> io_state \<Rightarrow> io_state" where
  "erase_entry fd st = st\<lparr>open_fds := (open_fds st)(fd := None)\<rparr>"

definition drop_table :: "io_state \<Rightarrow> io_state" where
  "drop_table st = st\<lparr>open_fds := Map.empty\<rparr>"

definition switch_off :: "platform \<Rightarrow> io_state \<Rightarrow> io_state" where
  "switch_off pf st = (if pf = Windows then st\<lparr>enabled := False, detoured := False\<rparr> else st\<lparr>enabled := False\<rparr>)"

inductive io_step :: "platform \<Rightarrow> bool \<Rightarrow> nat \<Rightarrow> io_threads \<Rightarrow> io_threads \<Rightarrow> bool" for pf strict where
  test_open: "\<lbrakk>io_pcs s i = Out; enabled (io s); 0 \<le> sint fd\<rbrakk> \<Longrightarrow>
    io_step pf strict i s (io_goto i (Storing fd info) (io s) s)"
| store: "io_pcs s i = Storing fd info \<Longrightarrow>
    io_step pf strict i s (io_goto i Out (store_entry fd info (io s)) s)"
| test_close: "\<lbrakk>io_pcs s i = Out; enabled (io s); 0 \<le> sint fd\<rbrakk> \<Longrightarrow>
    io_step pf strict i s (io_goto i (Erasing fd) (io s) s)"
| erase: "io_pcs s i = Erasing fd \<Longrightarrow>
    io_step pf strict i s (io_goto i Out (erase_entry fd (io s)) s)"
| enable: "io_pcs s i = Out \<Longrightarrow>
    io_step pf strict i s (io_goto i Out (Enable pf (io s)) s)"
| disable: "\<lbrakk>io_pcs s i = Out; enabled (io s); strict \<longrightarrow> (\<forall>j. io_pcs s j = Out)\<rbrakk> \<Longrightarrow>
    io_step pf strict i s (io_goto i Clearing (switch_off pf (io s)) s)"
| clear: "io_pcs s i = Clearing \<Longrightarrow>
    io_step pf strict i s (io_goto i Out (drop_table (io s)) s)"

inductive_cases io_stepE: "io_step pf strict i s t"

inductive io_reach :: "platform \<Rightarrow> bool \<Rightarrow> io_threads \<Rightarrow> bool" for pf strict where
  start: "io_reach pf strict \<lparr>io = io_start, io_pcs = (\<lambda>_. Out)\<rparr>"
| step: "\<lbrakk>io_reach pf strict s; io_step pf strict i s t\<rbrakk> \<Longrightarrow> io_reach pf strict t"

lemma io_goto_fields [simp]:
  "io (io_goto i pc st s) = st" "io_pcs (io_goto i pc st s) j = (if j = i then pc else io_pcs s j)"
  by (simp_all add: io_goto_def)

lemma part_fields [simp]:
  "enabled (store_entry fd info st) = enabled st" "enabled (erase_entry fd st) = enabled st"
  "enabled (drop_table st) = enabled st" "\<not> enabled (switch_off pf st)" "enabled (Enable pf st)"
  "open_fds (store_entry fd info st) = (open_fds st)(fd \<mapsto> info)"
  "open_fds (erase_entry fd st) = (open_fds st)(fd := None)"
  "open_fds (drop_table st) = Map.empty" "open_fds (switch_off pf st) = open_fds st"
  "open_fds (Enable pf st) = open_fds st"
  "locked (store_entry fd info st) = locked st" "locked (erase_entry fd st) = locked st"
  "locked (drop_table st) = locked st" "locked (switch_off pf st) = locked st" "locked (Enable pf st) = locked st"
  by (simp_all add: store_entry_def erase_entry_def drop_table_def switch_off_def Enable_def Let_def)

text \<open>Run without interference the steps are the callbacks and \<open>Disable\<close>.\<close>

lemma steps_compose:
  assumes "\<not> locked st"
  shows "store_fd fd info st = Ret () (if enabled st \<and> 0 \<le> sint fd then store_entry fd info st else st)"
    and "OnClose fd st = Ret () (if enabled st \<and> 0 \<le> sint fd then erase_entry fd st else st)"
    and "Disable pf st = Ret () (if enabled st then drop_table (switch_off pf st) else st)"
  using assms
  by (auto simp: store_fd_def store_entry_def OnClose_def erase_entry_def Disable_def drop_table_def switch_off_def
      with_lock_def Let_def)

text \<open>While the monitor is off nobody is past the test, and the table is empty or about to be.\<close>

definition off_inv :: "io_threads \<Rightarrow> bool" where
  "off_inv s \<longleftrightarrow> \<not> enabled (io s) \<longrightarrow>
     (\<forall>i. io_pcs s i = Out \<or> io_pcs s i = Clearing) \<and>
     (open_fds (io s) = Map.empty \<or> (\<exists>i. io_pcs s i = Clearing))"

lemma off_inv_step: "io_step pf True i s t \<Longrightarrow> off_inv s \<Longrightarrow> off_inv t"
  unfolding off_inv_def by (erule io_stepE) (auto dest: spec [of _ i])

lemma io_reach_inv: "io_reach pf strict s \<Longrightarrow> \<not> locked (io s) \<and> (strict \<longrightarrow> off_inv s)"
proof (induction rule: io_reach.induct)
  case start
  then show ?case by (simp add: off_inv_def io_start_def)
next
  case (step s i t)
  then have "\<not> locked (io t)" by (auto elim!: io_stepE)
  with step off_inv_step [of pf i s t] show ?case by (cases strict) auto
qed

section \<open>Properties\<close>

text \<open>C32: If \<open>Disable\<close> is never called while a callback is in progress, then in every interleaving of callbacks,
  \<open>Enable\<close> and \<open>Disable\<close> the table is empty whenever the monitor is off and no call is in progress.\<close>

theorem disabled_is_empty:
  assumes "io_reach pf True s" and "\<not> enabled (io s)" and "\<forall>i. io_pcs s i = Out"
  shows "open_fds (io s) = Map.empty"
  using io_reach_inv [OF assms(1)] assms(2,3) by (auto simp: off_inv_def)

lemma enable_reach:
  "io_reach pf strict (io_goto 0 Out (Enable pf io_start) \<lparr>io = io_start, io_pcs = (\<lambda>_. Out)\<rparr>)"
  using io_reach.step [OF io_reach.start io_step.enable [of _ 0]] by simp

lemma disabled_is_empty_witness:
  "\<exists>s. io_reach Linux True s \<and> \<not> enabled (io s) \<and> open_fds (io s) = Map.empty"
proof -
  let ?s0 = "io_goto 0 Out (Enable Linux io_start) \<lparr>io = io_start, io_pcs = (\<lambda>_. Out)\<rparr>"
  let ?s1 = "io_goto 0 Clearing (switch_off Linux (io ?s0)) ?s0"
  let ?s2 = "io_goto 0 Out (drop_table (io ?s1)) ?s1"
  have "io_step Linux True 0 ?s0 ?s1" by (rule io_step.disable) simp_all
  with enable_reach have 1: "io_reach Linux True ?s1" by (rule io_reach.step)
  have "io_step Linux True 0 ?s1 ?s2" by (rule io_step.clear) simp
  with 1 have 2: "io_reach Linux True ?s2" by (rule io_reach.step)
  have off: "\<not> enabled (io ?s2)" "\<forall>i. io_pcs ?s2 i = Out" by simp_all
  from disabled_is_empty [OF 2 off] 2 off(1) show ?thesis by blast
qed

text \<open>A callback that overlaps \<open>Disable\<close> leaves its descriptor in the table of the disabled monitor; closing it
  is then not noticed, and after the next \<open>Enable\<close> it is reported as leaked.\<close>

theorem stale_after_disable:
  assumes "io_reach pf False s" and "enabled (io s)" and "io_pcs s i = Out" and "io_pcs s j = Out" and "i \<noteq> j"
    and "0 \<le> sint fd" and "fd_iter_ok iter" and "\<And>d s. emit d s = Ret () (fst s, sink d (snd s))"
  shows "\<exists>t entries. io_reach pf False t \<and> \<not> enabled (io t) \<and> io_pcs t = io_pcs s \<and>
     OnClose fd (io t) = Ret () (io t) \<and> (fd, info) \<in> set entries \<and>
     ReportLeakedFds iter (Some emit) (Enable pf (io t), f) = Ret () (Enable pf (io t), sink (io_report entries) f)"
proof -
  let ?s1 = "io_goto i (Storing fd info) (io s) s"
  let ?s2 = "io_goto j Clearing (switch_off pf (io ?s1)) ?s1"
  let ?s3 = "io_goto j Out (drop_table (io ?s2)) ?s2"
  let ?t = "io_goto i Out (store_entry fd info (io ?s3)) ?s3"
  have "io_step pf False i s ?s1" by (rule io_step.test_open [OF assms(3,2,6)])
  with assms(1) have 1: "io_reach pf False ?s1" by (rule io_reach.step)
  have "io_step pf False j ?s1 ?s2" using assms(2,4,5) by (intro io_step.disable) simp_all
  with 1 have 2: "io_reach pf False ?s2" by (rule io_reach.step)
  have "io_step pf False j ?s2 ?s3" by (rule io_step.clear) simp
  with 2 have 3: "io_reach pf False ?s3" by (rule io_reach.step)
  have "io_step pf False i ?s3 ?t" using assms(5) by (intro io_step.store) simp
  with 3 have t: "io_reach pf False ?t" by (rule io_reach.step)
  have fds: "open_fds (io ?t) = [fd \<mapsto> info]" "\<not> enabled (io ?t)" by simp_all
  have u: "\<not> locked (io ?t)" using io_reach_inv [OF t] by simp
  let ?e = "Enable pf (io ?t)"
  have e: "finite (dom (open_fds ?e))" "enabled ?e" "\<not> locked ?e" "open_fds ?e \<noteq> Map.empty" using u by simp_all
  obtain entries where r: "ReportLeakedFds iter (Some emit) (?e, f) = Ret () (?e, sink (io_report entries) f)"
    "map_of entries = open_fds ?e"
    using fd_report_lists_open_fds [OF assms(7) e(1-3), of emit sink f] assms(8) e(4) by blast
  have "(fd, info) \<in> set entries" using r(2) fds(1) by (simp add: map_of_SomeD)
  moreover have "OnClose fd (io ?t) = Ret () (io ?t)" using fds(2) by (simp add: OnClose_def)
  moreover have "io_pcs ?t = io_pcs s" using assms(3,4) by (auto simp: fun_eq_iff)
  ultimately show ?thesis using t fds(2) r(1) by blast
qed

lemma stale_after_disable_witness:
  "\<exists>t entries. io_reach Linux False t \<and> \<not> enabled (io t) \<and>
     (3, \<lparr>fi_path = ''a'', fi_is_socket = False\<rparr>) \<in> set entries \<and>
     ReportLeakedFds demo_fd_iter (Some (\<lambda>d s. Ret () (fst s, d # snd s))) (Enable Linux (io t), []) =
       Ret () (Enable Linux (io t), [io_report entries])"
proof -
  let ?s0 = "io_goto 0 Out (Enable Linux io_start) \<lparr>io = io_start, io_pcs = (\<lambda>_. Out)\<rparr>"
  have s: "enabled (io ?s0)" "io_pcs ?s0 1 = Out" "io_pcs ?s0 2 = Out" "(1 :: nat) \<noteq> 2" "0 \<le> sint (3 :: u32)"
    by simp_all
  from stale_after_disable [OF enable_reach s demo_fd_iter_ok, of "\<lambda>d s. Ret () (fst s, d # snd s)" "\<lambda>d f. d # f"
      "\<lparr>fi_path = ''a'', fi_is_socket = False\<rparr>" "[]"]
  show ?thesis by auto
qed

end
