(* ===== verification/Spec2Isabelle.thy ===== *)
theory Spec2Isabelle
  imports Integration_Tests Concurrent_Realloc Scratch_Vtable Io_Races Report_Schema
begin

text \<open>
  Domovoy is a C++ library that an application links to find memory leaks, leaked descriptors,
  busy threads and crashes. This development models the library (include/domovoy, src/) and proves
  what its parts guarantee; where the code falls short, a theorem states what it does instead.

  \<^bold>\<open>Parts and interaction.\<close> \<open>DomovoyCore::Init\<close> starts the interposed functions, the isolated
  allocator, the reporter, the crash handler, the IO monitor and the CPU monitor; \<open>Shutdown\<close>
  removes the crash handler, stops the monitor thread, runs the leak detector on the table the
  allocation hooks have filled, reports the open descriptors and resets the configuration. The
  hooks, the reporter, the CPU monitor and the crash handler allocate from the isolated allocator.

  \<^bold>\<open>Theories.\<close>
  \<^item> \<open>Prelude\<close>, \<open>Texts\<close>: machine words, the result \<open>outcome\<close> of a call (returned, threw, never returns,
    undefined behaviour), address ranges, lemmas on words that do not wrap; C strings and UTF-8.
  \<^item> \<open>Arena\<close>, \<open>Tracking\<close>, \<open>Once_Init\<close>: the interfaces. \<open>arena\<close> is what a client of an allocator may
    rely on, \<open>gated_table\<close> a table behind a switch, \<open>once_init\<close> the initialisation by two atomic
    flags, with threads as an inductive step relation. \<open>Reporter\<close> has \<open>report_sink\<close>, \<open>Cpu_Monitor\<close>
    \<open>sampler\<close>. Each is interpreted on the code's definitions, in the theory of the provider.
  \<^item> \<open>Allocator\<close> (src/allocator.cpp, include/domovoy/allocator.h): the chain of blocks as a list of
    headers, \<open>Initialize\<close>, \<open>Allocate\<close>, \<open>Deallocate\<close>, \<open>Shutdown\<close> and \<open>StlAllocator\<close>;
    \<open>Arena_Threads\<close>: the body of an allocation in small steps behind a mutex, among threads that may crash anywhere, with
    the contract \<open>stepped_arena\<close> (which extends \<open>arena\<close>) under which the mutex makes the steps one call.
  \<^item> \<open>Text_Numbers\<close>, \<open>Reporter\<close> (src/reporter.cpp): numbers as text, the documents, the four
    reports and their files; \<open>Report_Schema\<close>: the types of the documents, and when they can be serialised.
  \<^item> \<open>Alloc_Hooks\<close>, \<open>Alloc_Hooks_Correct\<close> (src/memory/linux_alloc_hooks.cpp): the six interposed
    functions of the \<open>malloc\<close> family, \<open>EnsureInit\<close>, the bootstrap buffer, the table.
  \<^item> \<open>Concurrent_Tracking\<close>, \<open>Concurrent_Hooks\<close>: threads inside the hooks. A call is two atomic
    halves, the real call and the table update; \<open>two_phase\<close> is the contract of the halves,
    interpreted for the heap and for descriptors; keys that the program misuses (closes when not open) harm
    themselves only. \<open>Concurrent_Moves\<close>, \<open>Concurrent_Realloc\<close>: the three
    steps of \<open>realloc\<close>, with the contract \<open>moving\<close>, which extends \<open>two_phase\<close>.
  \<^item> \<open>Memory_Analyzer\<close>, \<open>Type_Resolver\<close> (src/memory/memory_analyzer.cpp): enumeration of the heap,
    \<open>RunLeakDetection\<close>, and its lambda \<open>resolve_type\<close> on MSVC (64 and 32 bits), MinGW and Linux/macOS;
    \<open>Scratch_Vtable\<close> (src/scratch_vtable.cpp): the experiment behind the resolver.
  \<^item> \<open>Io_Monitor\<close> (src/io/io_monitor.cpp) and \<open>Io_Hooks\<close> (src/io/linux_io_hooks.cpp): the table of
    descriptors, its mutex and report, and the interposed functions of the three platforms;
    \<open>Io_Races\<close>: \<open>Enable\<close> and \<open>Disable\<close> among threads that are in the callbacks.
  \<^item> \<open>Doubles\<close>, \<open>Cpu_Monitor\<close> (src/profiler/cpu_monitor.cpp): double arithmetic; the three scans,
    the parser of /proc/self/task/*/stat, the comparison with 90 percent, the monitor thread.
  \<^item> \<open>Crash_Handler\<close> (src/crash_handler.cpp): installation, removal, the handlers.
  \<^item> \<open>Core\<close>, \<open>Core_Demo\<close>, \<open>Core_Threads\<close> (src/core.cpp) and this theory: \<open>Init\<close>, \<open>Shutdown\<close>, an
    example process, their single statements among the monitor thread and crashing threads, and the
    properties that span components.
  \<^item> \<open>Sessions\<close>: \<open>Init\<close>, what the application does then, and the report that is on the disk at the end, for open
    descriptors, crashes and busy threads. \<open>Integration_Tests\<close> (tests/integration/): the helpers of test_utils.h
    and two tests as programs over the model.

  \<^bold>\<open>What is shown.\<close> For the allocator: freshness, alignment and disjointness of blocks, also among
  threads, and that \<open>Shutdown\<close> unmaps all of them. For the allocation hooks: the table is the C
  library's heap, over every sequence of legal calls and every interleaving of threads, except for
  blocks older than the tracking and what \<open>realloc\<close> loses; initialisation happens once under every
  interleaving. For the leak detector: the one-pass loop refines the size classes of the leaks, whatever
  the order of enumeration; a leaked object of a polymorphic class is reported under its class name, and the
  resolver reads only what it has checked.
  For the IO hooks: they are transparent and mirror the kernel. For the CPU monitor: the parser inverts
  the kernel's printing, the rounded comparison is exact, and the threads start and stop correctly. For
  the reports: each has the type of its kind, is kept, and can be serialised if the names and paths in it
  are UTF-8. For the core: \<open>Shutdown\<close> writes the live blocks and the open descriptors, a crash and a
  scan write their reports, each over whole sessions from \<open>Init\<close> on; \<open>Shutdown\<close> leaves everything off; its steps compose
  to it and end whatever the other threads do; the reporter outlives its users. The integration tests for
  descriptors (on Linux) and for crashes (on Linux and macOS) pass.
  A second group of theorems exhibits defects: wrap-around in the two bound tests and in
  \<open>size * 2\<close>, records lost by \<open>realloc\<close>, initialisation that hangs, files overwritten within a
  millisecond, a mutex locked twice, a filter that is never installed, a path that makes every \<open>Shutdown\<close>
  throw, a report through a destroyed reporter, a type resolver that reads below an image, a test that runs into
  undefined behaviour on Windows, and others.

  \<^bold>\<open>Parameters and hypotheses.\<close> The operating system, the C library, \<open>dlsym\<close>, the demangler,
  \<open>cpptrace\<close>, the clock and the JSON serialiser are parameters. \<open>os_ok\<close>, \<open>libc_ok\<close>, \<open>dlsym_ok\<close>,
  \<open>kernel_ok\<close>, \<open>io_symbols\<close>, \<open>dump_ok\<close>, \<open>iter_ok\<close> and \<open>fd_iter_ok\<close> state the documented
  behaviour that a theorem relies on; the witnesses instantiate them (\<open>linear_os\<close>, \<open>demo_host\<close>,
  \<open>demo_io_host\<close>, \<open>demo_process\<close>, \<open>demo_env\<close>, \<open>demo_world\<close>). The world of the core
  holds the process that the resolver reads (\<open>w_process\<close>) and, for Windows, whether \<open>std::ofstream\<close> opens its files through
  the detoured \<open>CreateFileW\<close> (\<open>w_stream_detoured\<close>); a theorem that needs an answer to the latter says so.

  \<^bold>\<open>Bounds.\<close> Machine integers wrap as in C++. \<open>good_request\<close> admits sizes up to \<open>2^62\<close> bytes and
  alignments up to \<open>2^20\<close>: enough for every request the library makes, and small enough that the size
  test does not wrap; beyond it the code is wrong, which is proved separately. Addresses of
  mappings lie below \<open>2^56\<close>. Double rounding is modelled for magnitudes from \<open>2^-65\<close> to \<open>2^65\<close>, which
  contains every quotient of two non-zero 64-bit integers. No definition uses fuel: loops are
  structural recursions; waiting that never ends (a spin on a flag nobody sets) is the outcome \<open>Hang\<close> where one
  thread runs, and a step without progress, or a missing step, where several do; locking a \<open>std::mutex\<close> that the thread
  holds is \<open>Undefined\<close>, or the end of its steps.

  \<^bold>\<open>Not modelled.\<close> The C++ heap operations inside \<open>nlohmann::json\<close>, \<open>phmap\<close> and the standard
  containers, and the \<open>std::string\<close> temporaries of the reports, which are allocated through the hooks
  after the table has been read (results are modelled, not these allocations, nor a \<open>std::bad_alloc\<close> in
  them; the exception of the serialiser is modelled); what the process does after an exception has left
  the monitor thread or a signal handler (\<open>std::terminate\<close>); weak memory orderings (steps are
  sequentially consistent, and the table operations are atomic, as the submap mutexes make them); the
  deadlock risks the source mentions for heap walks; a signal that interrupts a hook; the integration tests
  \<open>MemoryLeak\<close> (its course is the session of \<open>session_reports_new_blocks\<close>, but its last assertion needs a parser
  for the whole report), \<open>HighCpu\<close> and \<open>MemoryLeakStress\<close> (their verdict depends on the scheduler), and
  the removal of the leaked file after \<open>IoLeak\<close>; the unit tests (a \<open>std::vector\<close> on \<open>StlAllocator\<close>), the
  benchmark, the scripts and the build files.
\<close>

section \<open>Lemmas that span components\<close>

lemma record_count_bound:
  assumes "distinct (map ar_address rs)" "\<forall>r \<in> set rs. ar_address r \<noteq> nullptr"
  shows "length rs < 2 ^ 64"
proof -
  have "set (map ar_address rs) \<subseteq> UNIV - {nullptr}" using assms(2) by auto
  then have "card (set (map ar_address rs)) \<le> card (UNIV - {nullptr} :: addr set)"
    by (rule card_mono [rotated]) simp
  also have "\<dots> = 2 ^ 64 - 1" by (simp add: card_Diff_singleton card_word)
  finally show ?thesis using distinct_card [OF assms(1)] by simp
qed

lemma record_map_entry:
  assumes "distinct (map ar_address rs)"
  shows "record_map rs p = Some n \<longleftrightarrow> (\<exists>r \<in> set rs. ar_address r = p \<and> ar_size r = n)"
proof -
  have "distinct (map fst (map (\<lambda>r. (ar_address r, ar_size r)) rs))" using assms by (simp add: comp_def)
  then show ?thesis by (auto simp: record_map_def map_of_eq_Some_iff)
qed

lemma leaks_unmarked: "\<forall>r \<in> set rs. \<not> ar_marked r \<Longrightarrow> leaks_of rs = rs"
  by (simp add: leaks_of_def filter_id_conv)

text \<open>The IO report of \<open>Shutdown\<close> does not touch the leak report.\<close>

lemma leak_report_survives:
  assumes "report env dir IoLeak ms2 d fs = Ret () fs' \<or> report env dir IoLeak ms2 d fs = Throw fs'"
  shows "fs' (report_filename dir ''domovoy_leaks'' ms1) = fs (report_filename dir ''domovoy_leaks'' ms1)"
  using json_file.emit_frame [OF assms, of Leaks ms1] by (simp add: stored_report_def report_prefix_def)

section \<open>Properties that span components\<close>

text \<open>What the leak detector makes of the table of the hooks.\<close>

lemma detect_tracked:
  assumes "hooks_ready h" and "iter_ok iter" and "tracked h nullptr = None"
    and "tracked h p = Some n" and "n \<noteq> 0" and "\<And>a k. resolve a k \<noteq> None"
    and src: "enumerated src = GetLinuxTrackedAllocations iter h []"
  shows "detect_leaks cfg resolve src = Some (Some (spec_report cfg resolve (GetLinuxTrackedAllocations iter h [])))"
proof -
  let ?L = "GetLinuxTrackedAllocations iter h []"
  note R = tracked_records [OF assms(2,1)]
  have "\<forall>r \<in> set ?L. ar_address r \<noteq> nullptr"
    using record_map_entry [OF R(2), of nullptr] R(1) assms(3) by fastforce
  then have "length ?L < 2 ^ 64" by (rule record_count_bound [OF R(2)])
  moreover have "leaks_of ?L = ?L" by (rule leaks_unmarked [OF R(3)])
  moreover have "\<exists>r \<in> set ?L. ar_size r \<noteq> 0"
    using record_map_entry [OF R(2), of p n] R(1) assms(4,5) by auto
  moreover have "resolves cfg resolve ?L" using assms(6) by (simp add: resolves_def)
  ultimately show ?thesis using detect_leaks_spec [of src cfg resolve] by (simp add: src)
qed

text \<open>On Linux \<open>Shutdown\<close> writes what the leak detector finds.\<close>

lemma shutdown_writes:
  assumes "is_initialized c" and "w_platform w = Linux" and "\<not> locked (monitor (io_part c))"
    and "\<And>a n. w_resolve w a n \<noteq> None" and "serialisable w c"
    and "the_reporter c = Some dir" and "env_can_open (w_env w) (report_filename dir ''domovoy_leaks'' ms1)"
    and "detect_leaks (leak_flags (the_config c)) (w_resolve w) (heap_of w c) = Some (Some doc)"
  shows "\<exists>t. Shutdown w ms1 ms2 c = Ret () t \<and>
     disk t (report_filename dir ''domovoy_leaks'' ms1) = env_dump (w_env w) doc \<and> env_dump (w_env w) doc \<noteq> None"
proof -
  let ?c2 = "c\<lparr>crash := Uninstall (w_platform w) (crash c), cpu := cpu_Stop (cpu c)\<rparr>"
  have notwin: "w_platform w \<noteq> Windows" using assms(2) by simp
  obtain fs1 fs2 mon where S:
    "run_leak_detection w ms1 ?c2 = Ret () (?c2\<lparr>disk := fs1\<rparr>)"
    "fs2 = fs1 \<or> (\<exists>dir d. the_reporter c = Some dir \<and> report (w_env w) dir IoLeak ms2 d fs1 = Ret () fs2)"
    "Shutdown w ms1 ms2 c = Ret () (c\<lparr>crash := Uninstall (w_platform w) (crash c), cpu := cpu_Stop (cpu c),
       disk := fs2, io_part := (io_part c)\<lparr>monitor := mon\<rparr>, the_reporter := None, the_config := default_config,
       is_initialized := False\<rparr>)"
    by (rule Shutdown_posix [OF assms(1) notwin assms(3-5), of ms1 ms2]) simp
  have "heap_of w ?c2 = heap_of w c" by (simp add: heap_of_def)
  then have 1: "report (w_env w) dir Leaks ms1 doc (disk c) = Ret () fs1"
    using S(1) assms(6,8)
    by (auto simp: run_leak_detection_def RunLeakDetection_def GetConfig_def GetReporter_def obind_Ret_iff
        dest!: arg_cong [where f = disk])
  have "dumpable doc" using leak_report_dumpable [OF assms(8)] assms(5) by (simp add: serialisable_def)
  then obtain contents where contents: "env_dump (w_env w) doc = Some contents"
    using assms(5) unfolding serialisable_def dump_ok_def by blast
  then have "fs1 (report_filename dir ''domovoy_leaks'' ms1) = Some contents"
    using json_file.emit_stores [of "w_env w" dir Leaks ms1 doc contents "disk c"] 1 assms(7)
    by (simp add: stored_report_def report_prefix_def)
  then have "fs2 (report_filename dir ''domovoy_leaks'' ms1) = Some contents"
    using S(2) assms(6) leak_report_survives by (metis option.inject)
  with S(3) contents show ?thesis by simp
qed

text \<open>Together, over a run of the program; \<open>old\<close> are the blocks that were live before tracking began.\<close>

lemma shutdown_leak_report:
  assumes "is_initialized c" and "w_platform w = Linux" and "\<not> locked (monitor (io_part c))"
    and "\<And>a n. w_resolve w a n \<noteq> None" and "serialisable w c" and "libc_ok (w_host w) live" and "iter_ok (w_iter w)"
    and "hooks_ready st" and "tracked st = live (heap st) |` (- old)"
    and "hook_reach (w_host w) live True True st (alloc_hooks c)"
    and "the_reporter c = Some dir" and "env_can_open (w_env w) (report_filename dir ''domovoy_leaks'' ms1)"
    and "tracked (alloc_hooks c) p = Some n" and "n \<noteq> 0"
  shows "\<exists>t leaks rest. Shutdown w ms1 ms2 c = Ret () t \<and> rest \<subseteq> old \<and>
     record_map leaks = live (heap (alloc_hooks c)) |` (- rest) \<and> distinct (map ar_address leaks) \<and>
     (\<forall>q \<in> rest. live (heap (alloc_hooks c)) q = live (heap st) q) \<and>
     disk t (report_filename dir ''domovoy_leaks'' ms1) =
       env_dump (w_env w) (spec_report (leak_flags (the_config c)) (w_resolve w) leaks) \<and>
     disk t (report_filename dir ''domovoy_leaks'' ms1) \<noteq> None"
proof -
  let ?h = "alloc_hooks c"
  let ?L = "GetLinuxTrackedAllocations (w_iter w) ?h []"
  obtain rest where h: "hooks_ready ?h" "rest \<subseteq> old" "tracked ?h = live (heap ?h) |` (- rest)"
    "\<forall>q \<in> rest. live (heap ?h) q = live (heap st) q"
    using hook_reach_since [OF assms(6,10,8,9)] by blast
  have null: "tracked ?h nullptr = None" using assms(6) h(3) by (simp add: libc_ok_def restrict_map_def)
  have src: "enumerated (heap_of w c) = ?L" using assms(2) by (simp add: heap_of_def)
  note detect = detect_tracked [OF h(1) assms(7) null assms(13,14,4) src]
  from shutdown_writes [OF assms(1-5,11,12) detect] tracked_records [OF assms(7) h(1)] h(2-4)
  show ?thesis by metis
qed

text \<open>C2: A whole session on Linux: \<open>Init\<close> with leak detection on, then any sequence of heap calls a
  correct program can make (with no failed \<open>realloc\<close>), then \<open>Shutdown\<close>. If some tracked block of at
  least one byte is live then, and names and paths are UTF-8, \<open>Shutdown\<close> returns, and the leak report file in the configured directory
  holds the size classes of exactly the live blocks of the C library, except for blocks that were
  live when \<open>Init\<close> returned and have stayed as they were. Whether the program can still reach a
  block makes no difference: the reachability scan is a stub.\<close>

theorem session_reports_new_blocks:
  assumes "Init w cfg c0 = Ret () c" and "\<not> is_initialized c0" and "w_platform w = Linux" and "dlsym_ok (w_host w)"
    and "hooks_initialized (alloc_hooks c0) \<longrightarrow>
           hooks_ready (alloc_hooks c0) \<and> tracked (alloc_hooks c0) = Map.empty"
    and "libc_ok (w_host w) live" and "iter_ok (w_iter w)" and "\<And>a n. w_resolve w a n \<noteq> None"
    and "serialisable w c'"
    and "hook_reach (w_host w) live (enable_leak_detection cfg) True (alloc_hooks c) (alloc_hooks c')"
    and "enable_leak_detection cfg" and "is_initialized c'" and "\<not> locked (monitor (io_part c'))"
    and "GetReporter c' = GetReporter c" and "GetConfig c' = GetConfig c"
    and "env_can_open (w_env w) (report_filename (output_dir cfg) ''domovoy_leaks'' ms1)"
    and "tracked (alloc_hooks c') p = Some n" and "n \<noteq> 0"
  shows "\<exists>t leaks rest. Shutdown w ms1 ms2 c' = Ret () t \<and>
     record_map leaks = live (heap (alloc_hooks c')) |` (- rest) \<and> distinct (map ar_address leaks) \<and>
     (\<forall>q \<in> rest. live (heap (alloc_hooks c')) q = live (heap (alloc_hooks c)) q) \<and>
     rest \<subseteq> dom (live (heap (alloc_hooks c))) \<and>
     disk t (report_filename (output_dir cfg) ''domovoy_leaks'' ms1) =
       env_dump (w_env w) (spec_report (leak_flags cfg) (w_resolve w) leaks) \<and>
     disk t (report_filename (output_dir cfg) ''domovoy_leaks'' ms1) \<noteq> None"
proof -
  have I: "the_reporter c' = Some (output_dir cfg)" "the_config c' = cfg"
    using Init_result [OF assms(1,2)] assms(14,15) by (simp_all add: GetReporter_def GetConfig_def)
  have T: "hooks_ready (alloc_hooks c)" "tracked (alloc_hooks c) = Map.empty"
    using Init_tracking [OF assms(1-5)] by simp_all
  have old: "tracked (alloc_hooks c) = live (heap (alloc_hooks c)) |` (- dom (live (heap (alloc_hooks c))))"
    by (auto simp: T(2) restrict_map_def dom_def)
  have reach: "hook_reach (w_host w) live True True (alloc_hooks c) (alloc_hooks c')" using assms(10,11) by simp
  from shutdown_leak_report [OF assms(12,3,13,8,9,6,7) T(1) old reach I(1) assms(16-18), of ms2] I(2)
  show ?thesis by auto
qed

text \<open>The witness: a process on Linux starts Domovoy and allocates 100 bytes.\<close>

lemma session_reports_new_blocks_witness:
  "\<exists>c c' t leaks. Init (demo_world Linux) full_config fresh_core = Ret () c \<and>
     hook_reach demo_host demo_live True True (alloc_hooks c) (alloc_hooks c') \<and>
     Shutdown (demo_world Linux) 7 7 c' = Ret () t \<and> record_map leaks = [4096 \<mapsto> 100] \<and>
     disk t (report_filename ''/tmp'' ''domovoy_leaks'' 7) = Some ''object''"
proof -
  obtain c where c: "Init (demo_world Linux) full_config fresh_core = Ret () c" using demo_Init_Linux by blast
  have f: "\<not> is_initialized fresh_core" "w_platform (demo_world Linux) = Linux" "dlsym_ok (w_host (demo_world Linux))"
    "hooks_initialized (alloc_hooks fresh_core) \<longrightarrow>
       hooks_ready (alloc_hooks fresh_core) \<and> tracked (alloc_hooks fresh_core) = Map.empty"
    "libc_ok (w_host (demo_world Linux)) demo_live" "iter_ok (w_iter (demo_world Linux))"
    by (simp_all add: fresh_core_def fresh_hooks_def demo_world_def demo_dlsym_ok demo_libc_ok demo_iter_ok)
  have res: "w_resolve (demo_world Linux) a n \<noteq> None" for a n by (rule demo_world_resolves)
  have T: "hooks_ready (alloc_hooks c)" "tracked (alloc_hooks c) = Map.empty"
    using Init_tracking [OF c f(1-4)] by simp_all
  note H = demo_Init_heap [OF c]
  let ?h = "AddAllocation True 4096 100 ((alloc_hooks c)\<lparr>heap := ([4096 \<mapsto> 100], 4212)\<rparr>)"
  have "c_malloc demo_host 100 (heap (alloc_hooks c)) = (4096, [4096 \<mapsto> 100], 4212)"
    by (simp add: H demo_host_def demo_alloc_def)
  then have "hook_call demo_host True (Malloc 100) (alloc_hooks c) = Ret 4096 ?h"
    using ready_malloc [OF T(1)] by simp
  then have reach: "hook_reach demo_host demo_live True True (alloc_hooks c) ?h"
    by (rule hook_reach.call [OF hook_reach.refl, rotated]) simp_all
  have I: "is_initialized c" "the_config c = full_config" "the_reporter c = Some ''/tmp''"
    "monitor (io_part c) = Enable Linux io_start"
    using Init_result [OF c f(1)] by (simp_all add: full_config_def fresh_core_def demo_world_def)
  let ?c' = "c\<lparr>alloc_hooks := ?h\<rparr>"
  have cfg: "enable_leak_detection full_config" "output_dir full_config = ''/tmp''" by (simp_all add: full_config_def)
  have h: "tracked ?h = [4096 \<mapsto> 100]" "heap ?h = ([4096 \<mapsto> 100], 4212)" using T by simp_all
  have c': "is_initialized ?c'" "\<not> locked (monitor (io_part ?c'))" "GetReporter ?c' = GetReporter c"
    "GetConfig ?c' = GetConfig c" "tracked (alloc_hooks ?c') 4096 = Some 100" "(100 :: u64) \<noteq> 0"
    "env_can_open (w_env (demo_world Linux)) (report_filename (output_dir full_config) ''domovoy_leaks'' 7)"
    "hook_reach (w_host (demo_world Linux)) demo_live (enable_leak_detection full_config) True (alloc_hooks c) (alloc_hooks ?c')"
    using I h(1) reach cfg(1)
    by (simp_all add: GetReporter_def GetConfig_def Enable_def io_start_def demo_world_def demo_env_def)
  have ser: "serialisable (demo_world Linux) ?c'"
    using I(4) by (intro demo_serialisable) (simp add: Enable_def io_start_def)
  from session_reports_new_blocks [OF c f res ser c'(8) cfg(1) c'(1-4) c'(7) c'(5,6), of 7]
  obtain t leaks rest where t: "Shutdown (demo_world Linux) 7 7 ?c' = Ret () t"
    "record_map leaks = demo_live (heap (alloc_hooks ?c')) |` (- rest)"
    "rest \<subseteq> dom (demo_live (heap (alloc_hooks c)))"
    "disk t (report_filename ''/tmp'' ''domovoy_leaks'' 7) =
       env_dump (w_env (demo_world Linux)) (spec_report (leak_flags full_config) (w_resolve (demo_world Linux)) leaks)"
    "disk t (report_filename ''/tmp'' ''domovoy_leaks'' 7) \<noteq> None"
    unfolding cfg by blast
  have "rest = {}" using t(3) by (simp add: H demo_live_def)
  then have "record_map leaks = [4096 \<mapsto> 100]" using t(2) h(2) by (simp add: demo_live_def fun_eq_iff)
  moreover have "disk t (report_filename ''/tmp'' ''domovoy_leaks'' 7) = Some ''object''"
    using t(4,5) by (auto simp: demo_world_def demo_env_def demo_dump_def spec_report_def leak_report_def split: if_splits)
  moreover have "hook_reach demo_host demo_live True True (alloc_hooks c) (alloc_hooks ?c')" using reach by simp
  ultimately show ?thesis using c t(1) by blast
qed

text \<open>C24: On Linux and macOS \<open>Shutdown\<close>, if its reports can be serialised, returns and leaves everything off: no reporter, default
  configuration, no crash handler, no monitor thread and no readings, no IO monitoring and no
  descriptors; a second \<open>Shutdown\<close> does nothing.\<close>

theorem shutdown_switches_everything_off:
  assumes "is_initialized c" and "w_platform w \<noteq> Windows" and "\<not> locked (monitor (io_part c))"
    and "\<And>a n. w_resolve w a n \<noteq> None" and "cpu_reach check (cpu c)" and "\<not> joining (cpu c)"
    and "enabled (monitor (io_part c)) \<or> open_fds (monitor (io_part c)) = Map.empty" and "serialisable w c"
  shows "\<exists>t. Shutdown w ms1 ms2 c = Ret () t \<and>
     GetReporter t = None \<and> GetConfig t = default_config \<and> \<not> installed (crash t) \<and>
     \<not> running (cpu t) \<and> loop (cpu t) = L_None \<and> thread_states (cpu t) = Map.empty \<and>
     \<not> enabled (monitor (io_part t)) \<and> open_fds (monitor (io_part t)) = Map.empty \<and>
     Shutdown w ms1' ms2' t = Ret () t"
proof -
  obtain fs2 m where m: "Disable (w_platform w) (monitor (io_part c)) = Ret () m" and
    t: "Shutdown w ms1 ms2 c = Ret () (c\<lparr>crash := Uninstall (w_platform w) (crash c), cpu := cpu_Stop (cpu c),
       disk := fs2, io_part := (io_part c)\<lparr>monitor := m\<rparr>, the_reporter := None, the_config := default_config,
       is_initialized := False\<rparr>)"
    by (rule Shutdown_posix [OF assms(1-4,8), of ms1 ms2]) simp
  have "\<not> enabled m \<and> open_fds m = Map.empty"
    using Disable_unlocked [OF assms(3), of "w_platform w"] m assms(7) by auto
  moreover have "Shutdown w ms1' ms2' t = Ret () t" if "\<not> is_initialized t" for t :: "('a, 'b) core_state"
    using that by (simp add: Shutdown_def)
  ultimately show ?thesis
    using t cpu_Stop_off [OF cpu_reach_inv [OF assms(5)] assms(6)] Uninstall_off
    by (simp add: GetReporter_def GetConfig_def)
qed

lemma shutdown_switches_everything_off_witness:
  "\<exists>t. Shutdown (demo_world Linux) 7 7 demo_core = Ret () t \<and> GetReporter t = None \<and>
     Shutdown (demo_world Linux) 8 8 t = Ret () t"
proof -
  have c: "is_initialized demo_core" "w_platform (demo_world Linux) \<noteq> Windows" "\<not> locked (monitor (io_part demo_core))"
    "cpu demo_core = cpu_start" "enabled (monitor (io_part demo_core)) \<or> open_fds (monitor (io_part demo_core)) = Map.empty"
    by (simp_all add: demo_core_def demo_world_def demo_io_def Enable_def io_start_def)
  have res: "w_resolve (demo_world Linux) a n \<noteq> None" for a n by (rule demo_world_resolves)
  have r: "cpu_reach (\<lambda>m. m) (cpu demo_core)" using cpu_reach.start by (simp add: c)
  have j: "\<not> joining (cpu demo_core)" by (simp add: c cpu_start_def)
  have "open_fds (monitor (io_part demo_core)) = Map.empty"
    by (simp add: demo_core_def demo_io_def Enable_def io_start_def)
  from shutdown_switches_everything_off [OF c(1-3) res r j c(5) demo_serialisable [OF this], of 7 7 8 8] show ?thesis by blast
qed

text \<open>\<open>Init\<close> configures: when it returns, the configuration and the reporter's directory are
  the given ones and exactly the requested features are on; and until \<open>Shutdown\<close> a further \<open>Init\<close>
  changes nothing.\<close>

theorem init_configures:
  assumes "Init w cfg c = Ret () t" and "\<not> is_initialized c" and "\<not> installed (crash c)"
    and "\<not> enabled (monitor (io_part c))" and "cpu c = cpu_start"
  shows "GetConfig t = cfg \<and> GetReporter t = Some (output_dir cfg) \<and>
     installed (crash t) = enable_crash_handler cfg \<and>
     enabled (monitor (io_part t)) = enable_io_monitoring cfg \<and>
     running (cpu t) = enable_cpu_profiler cfg \<and> \<not> terminated (cpu t) \<and>
     Init w cfg' t = Ret () t"
  using Init_result [OF assms(1,2)] assms(3-5)
  by (auto simp: GetConfig_def GetReporter_def Init_def [of w cfg'] Enable_def Let_def cpu_Start_def cpu_start_def)

lemma init_configures_witness:
  "\<exists>t. Init (demo_world MacOS) full_config fresh_core = Ret () t \<and> GetReporter t = Some ''/tmp'' \<and>
     running (cpu t) \<and> Init (demo_world MacOS) default_config t = Ret () t"
proof -
  obtain t where t: "Init (demo_world MacOS) full_config fresh_core = Ret () t" using demo_Init by blast
  have "\<not> is_initialized fresh_core" "\<not> installed (crash fresh_core)"
    "\<not> enabled (monitor (io_part fresh_core))" "cpu fresh_core = cpu_start"
    by (simp_all add: fresh_core_def demo_crash_def io_start_def)
  from init_configures [OF t this, of default_config] t show ?thesis by (simp add: full_config_def)
qed

text \<open>On Linux the configured capacity of the isolated allocator is ignored: the hooks, which \<open>Init\<close>
  starts first, have already allocated from it, and \<open>Initialize\<close> does nothing then.\<close>

theorem linux_capacity_ignored:
  assumes "dlsym_ok (w_host w)" and "init_hooks w c = Ret () c1" and "w_platform w = Linux"
    and "\<not> hooks_initialized (alloc_hooks c)"
  shows "on_alloc (Initialize (w_os w) capacity) c1 = Ret () c1"
proof -
  obtain h where h: "EnsureInit (w_host w) (alloc_hooks c) = Ret () h" and c1: "alloc_hooks c1 = h"
    using assms(2,3) by (auto simp: init_hooks_def obind_Ret_iff)
  then obtain h' where i: "InitHooks (w_host w) ((alloc_hooks c)\<lparr>hooks_initializing := True\<rparr>) = Ret () h'"
    and h': "h = h'\<lparr>hooks_initialized := True\<rparr>"
    using assms(4) by (auto simp: EnsureInit_def obind_Ret_iff split: if_splits)
  obtain s where "InitHooks (w_host w) ((alloc_hooks c)\<lparr>hooks_initializing := True\<rparr>) =
       obind (Allocate (w_os w) (fst (host_map_layout (w_host w))) (snd (host_map_layout (w_host w)))
           (isolated ((alloc_hooks c)\<lparr>hooks_initializing := True\<rparr>)))
         (\<lambda>_ al. Ret () (s\<lparr>isolated := al, g_allocations := Some Map.empty\<rparr>))
         (\<lambda>al. s\<lparr>isolated := al\<rparr>)"
    by (rule InitHooks_result [OF assms(1)])
  from trans [OF this [symmetric] i] obtain p al where
    "Allocate (w_os w) (fst (host_map_layout (w_host w))) (snd (host_map_layout (w_host w)))
       (isolated ((alloc_hooks c)\<lparr>hooks_initializing := True\<rparr>)) = Ret p al" "isolated h' = al"
    by (auto simp: obind_Ret_iff)
  then have "head_block (isolated (alloc_hooks c1)) \<noteq> []"
    using Allocate_head by (simp add: c1 h')
  then show ?thesis by (simp add: on_alloc_def Initialize_def put_alloc_def)
qed

lemma linux_capacity_ignored_witness:
  "\<exists>c1. init_hooks (demo_world Linux) fresh_core = Ret () c1 \<and>
     on_alloc (Initialize (w_os (demo_world Linux)) (8 * 1024 * 1024)) c1 = Ret () c1"
proof -
  obtain c1 where c1: "init_hooks (demo_world Linux) fresh_core = Ret () c1" using demo_init_hooks by blast
  have "dlsym_ok (w_host (demo_world Linux))" by (simp add: demo_world_def demo_dlsym_ok)
  moreover have "w_platform (demo_world Linux) = Linux" by (simp add: demo_world_def)
  moreover have "\<not> hooks_initialized (alloc_hooks fresh_core)" by (simp add: fresh_core_def fresh_hooks_def)
  ultimately show ?thesis using linux_capacity_ignored [OF _ c1, of "8 * 1024 * 1024"] c1 by blast
qed

text \<open>Between two sessions frees are not tracked, but the table survives: a block freed after
  \<open>Shutdown\<close> is still handed to the leak detector in the next session although it is gone.\<close>

theorem freed_between_sessions_still_reported:
  assumes "libc_ok host live" and "iter_ok iter" and "hooks_ready h"
    and "live (heap h) p = Some n" and "tracked h p = Some n"
  shows "\<exists>t. free_hook host (enable_leak_detection default_config) p h = Ret () t \<and> live (heap t) p = None \<and>
     record_map (GetLinuxTrackedAllocations iter t []) p = Some n"
proof -
  have "p = nullptr \<or> live (heap h) p \<noteq> None" using assms(4) by simp
  from libc_free [OF assms(1) this] obtain h' where
    f: "c_free host p (heap h) = Some h'" "live h' = (live (heap h))(p := None)" by blast
  let ?t = "h\<lparr>heap := h'\<rparr>"
  have "free_hook host (enable_leak_detection default_config) p h = Ret () ?t"
    using ready_free [OF assms(3) f(1), of False] by (simp add: default_config_def RemoveAllocation_def)
  moreover have "hooks_ready ?t" "tracked ?t = tracked h" using assms(3) by simp_all
  moreover have "record_map (GetLinuxTrackedAllocations iter ?t []) = tracked ?t"
    using assms(2) calculation by (intro tracked_records(1)) simp_all
  ultimately show ?thesis using f(2) assms(5) by (intro exI [of _ ?t]) simp
qed

lemma freed_between_sessions_still_reported_witness:
  "\<exists>t. free_hook demo_host (enable_leak_detection default_config) 4096 demo_one = Ret () t \<and>
     demo_live (heap t) 4096 = None \<and> record_map (GetLinuxTrackedAllocations demo_iter t []) 4096 = Some 100"
  by (rule freed_between_sessions_still_reported [OF demo_libc_ok demo_iter_ok demo_one_ready])
    (simp_all add: demo_one_maps)

text \<open>C38: \<open>Shutdown\<close> on Windows, with IO monitoring on and a handle left open, depends on whether \<open>std::ofstream\<close> opens its
  files through the detoured \<open>CreateFileW\<close>. If it does not, \<open>Shutdown\<close> returns and the report lists the open
  handles, each once. If it does, the report, which is written while the monitor's mutex is held, calls \<open>OnOpen\<close>, which locks
  that mutex again on the same thread: the behaviour of \<open>Shutdown\<close> is undefined.\<close>

theorem windows_shutdown_relocks:
  assumes "is_initialized c" and "w_platform w = Windows" and "the_reporter c = Some dir"
    and "\<And>a n. w_resolve w a n \<noteq> None" and "fd_iter_ok (w_fd_iter w)"
    and "enabled (monitor (io_part c))" and "\<not> locked (monitor (io_part c))" and "detoured (monitor (io_part c))"
    and "open_fds (monitor (io_part c)) \<noteq> Map.empty"
    and "w_file_handle w \<noteq> INVALID_HANDLE_VALUE" and "0 \<le> sint (ucast (w_file_handle w) :: u32)"
    and "serialisable w c" and "env_can_open (w_env w) file"
    and "file = report_filename dir ''domovoy_io_leak'' ms2"
  shows "(w_stream_detoured w \<longrightarrow> Shutdown w ms1 ms2 c = Undefined) \<and>
         (\<not> w_stream_detoured w \<longrightarrow>
            (\<exists>t entries. Shutdown w ms1 ms2 c = Ret () t \<and>
               distinct (map fst entries) \<and> map_of entries = open_fds (monitor (io_part c)) \<and>
               disk t file = env_dump (w_env w) (io_report entries) \<and> disk t file \<noteq> None))"
proof (intro conjI impI)
  assume stream: "w_stream_detoured w"
  let ?c2 = "c\<lparr>crash := Uninstall (w_platform w) (crash c), cpu := cpu_Stop (cpu c)\<rparr>"
  obtain fs1 where 1: "run_leak_detection w ms1 ?c2 = Ret () (?c2\<lparr>disk := fs1\<rparr>)"
    using run_leak_detection_returns [of w ms1 ?c2] assms(4,12) by (auto simp: serialisable_def)
  have "report_fds w ms2 (?c2\<lparr>disk := fs1\<rparr>) = Undefined"
    by (rule windows_report_relocks [OF assms(2) stream _ assms(5)]) (use assms in simp_all)
  with assms(1) 1 show "Shutdown w ms1 ms2 c = Undefined" by (simp add: Shutdown_def Let_def)
next
  assume "\<not> w_stream_detoured w"
  then have plain: "plain_streams w" by (simp add: plain_streams_def)
  let ?es = "w_fd_iter w (open_fds (monitor (io_part c)))"
  have "finite (dom (open_fds (monitor (io_part c))))" by (rule finite)
  then have es: "distinct (map fst ?es)" "map_of ?es = open_fds (monitor (io_part c))"
    using assms(5) by (simp_all add: fd_iter_ok_def)
  have name: "file = report_filename dir (report_prefix IoLeak) ms2" by (simp add: assms(14) report_prefix_def)
  have "?es \<noteq> []" using es(2) assms(9) by auto
  with shutdown_writes_fds [OF assms(1) plain assms(7,6,4,12,3) assms(13) [unfolded name], of ms1] es
  show "\<exists>t entries. Shutdown w ms1 ms2 c = Ret () t \<and> distinct (map fst entries) \<and>
      map_of entries = open_fds (monitor (io_part c)) \<and>
      disk t file = env_dump (w_env w) (io_report entries) \<and> disk t file \<noteq> None"
    unfolding name by blast
qed

definition demo_windows :: "(demo_heap, demo_kernel) core_state" where
  "demo_windows = demo_core\<lparr>io_part := demo_io\<lparr>monitor := \<lparr>enabled = True, locked = False,
     open_fds = [3 \<mapsto> \<lparr>fi_path = ''a'', fi_is_socket = False\<rparr>], detoured = True\<rparr>\<rparr>\<rparr>"

lemma windows_shutdown_relocks_witness:
  "Shutdown (demo_world Windows) 7 7 demo_windows = Undefined \<and>
   (\<exists>t. Shutdown ((demo_world Windows)\<lparr>w_stream_detoured := False\<rparr>) 7 7 demo_windows = Ret () t)"
proof -
  have all: "(w_stream_detoured w \<longrightarrow> Shutdown w 7 7 demo_windows = Undefined) \<and>
      (\<not> w_stream_detoured w \<longrightarrow> (\<exists>t. Shutdown w 7 7 demo_windows = Ret () t))"
    if "w = demo_world Windows \<or> w = (demo_world Windows)\<lparr>w_stream_detoured := False\<rparr>" for w
  proof -
    have r: "w_resolve w = w_resolve (demo_world Windows)" using that by (auto simp: w_resolve_def)
    have w: "w_platform w = Windows" "w_fd_iter w = demo_fd_iter" "w_file_handle w = 64" "w_env w = demo_env"
      using that by (auto simp: demo_world_def)
    have c: "is_initialized demo_windows" "the_reporter demo_windows = Some ''/tmp''" "enabled (monitor (io_part demo_windows))"
      "\<not> locked (monitor (io_part demo_windows))" "detoured (monitor (io_part demo_windows))"
      "open_fds (monitor (io_part demo_windows)) = [3 \<mapsto> \<lparr>fi_path = ''a'', fi_is_socket = False\<rparr>]"
      by (simp_all add: demo_windows_def demo_core_def)
    let ?es = "demo_fd_iter (open_fds (monitor (io_part demo_windows)))"
    have "finite (dom (open_fds (monitor (io_part demo_windows))))" by (rule finite)
    then have es: "distinct (map fst ?es)" "map_of ?es = [3 \<mapsto> \<lparr>fi_path = ''a'', fi_is_socket = False\<rparr>]"
      using demo_fd_iter_ok c(6) by (simp_all add: fd_iter_ok_def)
    have "utf8_ok (fi_path inf)" if "(f, inf) \<in> set ?es" for f inf
      using map_of_is_SomeI [OF es(1) that] es(2) by (auto simp: after_char_def byte_in_def split: if_splits)
    then have ser: "serialisable w demo_windows"
      using demo_world_resolves(2) by (auto simp: serialisable_def r w demo_dump_ok)
    have h: "w_file_handle w \<noteq> INVALID_HANDLE_VALUE" "0 \<le> sint (ucast (w_file_handle w) :: u32)"
      "fd_iter_ok (w_fd_iter w)" "w_resolve w a n \<noteq> None" "open_fds (monitor (io_part demo_windows)) \<noteq> Map.empty"
      "env_can_open (w_env w) f" for a n f
      by (simp_all add: w INVALID_HANDLE_VALUE_def demo_fd_iter_ok r demo_world_resolves c(6) demo_env_fields map_upd_nonempty)
    from windows_shutdown_relocks [OF c(1) w(1) c(2) h(4,3) c(3-5) h(5,1,2) ser h(6) HOL.refl, of 7] show ?thesis by blast
  qed
  from all [of "demo_world Windows"] all [of "(demo_world Windows)\<lparr>w_stream_detoured := False\<rparr>"] show ?thesis
    by (simp add: demo_world_def)
qed

text \<open>An open descriptor whose path is not UTF-8 makes the descriptor report, and \<open>Shutdown\<close>, throw.\<close>

lemma shutdown_throws:
  assumes "is_initialized c" and "w_platform w \<noteq> Windows" and "\<not> locked (monitor (io_part c))"
    and "enabled (monitor (io_part c))" and "\<And>a n. w_resolve w a n \<noteq> None"
    and "dump_ok (w_env w)" and "resolved_texts utf8_ok (w_resolve w)" and "fd_iter_ok (w_fd_iter w)"
    and "open_fds (monitor (io_part c)) fd = Some info" and "\<not> utf8_ok (fi_path info)"
    and "the_reporter c = Some dir" and "env_can_open (w_env w) (report_filename dir ''domovoy_io_leak'' ms2)"
  shows "\<exists>fs. Shutdown w ms1 ms2 c =
       Throw (c\<lparr>crash := Uninstall (w_platform w) (crash c), cpu := cpu_Stop (cpu c), disk := fs\<rparr>) \<and>
     fs (report_filename dir ''domovoy_io_leak'' ms2) = Some ''''"
proof -
  let ?c2 = "c\<lparr>crash := Uninstall (w_platform w) (crash c), cpu := cpu_Stop (cpu c)\<rparr>"
  let ?es = "w_fd_iter w (open_fds (monitor (io_part c)))"
  obtain fs1 where 1: "run_leak_detection w ms1 ?c2 = Ret () (?c2\<lparr>disk := fs1\<rparr>)"
    using run_leak_detection_returns [of w ms1 ?c2] assms(5-7) by blast
  have "finite (dom (open_fds (monitor (io_part c))))" by (rule finite)
  then have "map_of ?es = open_fds (monitor (io_part c))" using assms(8) by (simp add: fd_iter_ok_def)
  then have e: "(fd, info) \<in> set ?es" using assms(9) by (metis map_of_SomeD)
  then have "\<not> dumpable (io_report ?es)" using assms(10) by (auto simp: fd_report_dumpable)
  then have "env_dump (w_env w) (io_report ?es) = None" using assms(6) unfolding dump_ok_def by blast
  moreover have "?es \<noteq> []" using e by auto
  ultimately have "report_fds w ms2 (?c2\<lparr>disk := fs1\<rparr>) =
      Throw (?c2\<lparr>disk := fs1(report_filename dir ''domovoy_io_leak'' ms2 \<mapsto> '''')\<rparr>)"
    using assms(2-4,11,12)
    by (simp add: report_fds_def ReportLeakedFds_def GetReporter_def emit_io_def ReportIoLeak_def WriteToFile_def Let_def)
  with assms(1) 1 show ?thesis
    by (intro exI [of _ "fs1(report_filename dir ''domovoy_io_leak'' ms2 \<mapsto> '''')"]) (simp add: Shutdown_def Let_def)
qed

text \<open>C39: A descriptor that is left open under a path that is not UTF-8 keeps \<open>Shutdown\<close> from completing, on Linux and
  macOS: it throws from the descriptor report, whose file stays empty; Domovoy remains initialised, with
  its reporter and its IO monitor in place, but without crash handlers and monitor thread; and every
  further call throws again. (A path of more than 1023 bytes that is UTF-8 is enough: the monitor cuts it
  in the middle of a character.)\<close>

theorem bad_path_stops_shutdown:
  assumes "is_initialized c" and "w_platform w \<noteq> Windows" and "\<not> locked (monitor (io_part c))"
    and "enabled (monitor (io_part c))" and "\<And>a n. w_resolve w a n \<noteq> None"
    and "dump_ok (w_env w)" and "resolved_texts utf8_ok (w_resolve w)" and "fd_iter_ok (w_fd_iter w)"
    and "open_fds (monitor (io_part c)) fd = Some info" and "\<not> utf8_ok (fi_path info)"
    and "the_reporter c = Some dir"
    and "\<And>ms. env_can_open (w_env w) (report_filename dir ''domovoy_io_leak'' ms)"
  shows "\<exists>t. Shutdown w ms1 ms2 c = Throw t \<and> is_initialized t \<and> GetReporter t = Some dir \<and>
     monitor (io_part t) = monitor (io_part c) \<and> \<not> installed (crash t) \<and> \<not> running (cpu t) \<and>
     disk t (report_filename dir ''domovoy_io_leak'' ms2) = Some '''' \<and> (\<exists>u. Shutdown w ms1' ms2' t = Throw u)"
proof -
  obtain fs where t: "Shutdown w ms1 ms2 c =
      Throw (c\<lparr>crash := Uninstall (w_platform w) (crash c), cpu := cpu_Stop (cpu c), disk := fs\<rparr>)"
    "fs (report_filename dir ''domovoy_io_leak'' ms2) = Some ''''"
    using shutdown_throws [OF assms] by blast
  let ?t = "c\<lparr>crash := Uninstall (w_platform w) (crash c), cpu := cpu_Stop (cpu c), disk := fs\<rparr>"
  have "\<exists>u. Shutdown w ms1' ms2' ?t = Throw u"
    using shutdown_throws [of ?t w fd info dir ms2' ms1'] assms by auto
  moreover have "\<not> running (cpu_Stop (cpu c))" by (simp add: cpu_Stop_def cpu_Stop_end_def)
  ultimately show ?thesis using t assms(1,11) by (simp add: GetReporter_def Uninstall_off)
qed

lemma bad_path_stops_shutdown_witness:
  "\<exists>path m t. utf8_ok path \<and> OnOpen 3 (Some path) (Enable Linux io_start) = Ret () m \<and>
     Shutdown (demo_world Linux) 7 8 (demo_core\<lparr>io_part := demo_io\<lparr>monitor := m\<rparr>\<rparr>) = Throw t \<and>
     disk t (report_filename ''/tmp'' ''domovoy_io_leak'' 8) = Some ''''"
proof -
  obtain path info where p: "utf8_ok path" "\<not> utf8_ok (fi_path info)"
    "OnOpen 3 (Some path) (Enable Linux io_start) = Ret () ((Enable Linux io_start)\<lparr>open_fds := [3 \<mapsto> info]\<rparr>)"
    using cut_path_not_utf8 by blast
  let ?m = "(Enable Linux io_start)\<lparr>open_fds := [3 \<mapsto> info]\<rparr>"
  let ?c = "demo_core\<lparr>io_part := demo_io\<lparr>monitor := ?m\<rparr>\<rparr>"
  have c: "is_initialized ?c" "w_platform (demo_world Linux) \<noteq> Windows" "\<not> locked (monitor (io_part ?c))"
    "enabled (monitor (io_part ?c))"
    by (simp_all add: demo_core_def demo_world_def Enable_def io_start_def)
  have w: "w_resolve (demo_world Linux) a n \<noteq> None" "dump_ok (w_env (demo_world Linux))"
    "resolved_texts utf8_ok (w_resolve (demo_world Linux))" "fd_iter_ok (w_fd_iter (demo_world Linux))"
    "env_can_open (w_env (demo_world Linux)) f" for a n f
    by (simp_all add: demo_world_resolves) (simp_all add: demo_world_def demo_dump_ok demo_fd_iter_ok demo_env_fields)
  have f: "open_fds (monitor (io_part ?c)) 3 = Some info" "the_reporter ?c = Some ''/tmp''"
    by (simp_all add: demo_core_def)
  from bad_path_stops_shutdown [OF c w(1-4) f(1) p(2) f(2) w(5), of 7 8] p(1,3) show ?thesis by blast
qed

end
